(* ===== verification/Prelude.thy ===== *)
theory Prelude
  imports Main "HOL-Library.AList"
begin

text \<open>
  Shared vocabulary of the development: Python values, exceptions and byte strings,
  with the byte-string methods that the sources call, the association lists that
  stand for Python dictionaries (\<open>map_of\<close> reads, \<open>AList.update\<close> writes in place or
  appends, which is the insertion order a dictionary keeps), and the generic lemmas
  that every component uses.

  The interpreter is CPython 3.7, as \<^verbatim>\<open>.pre-commit-config.yaml\<close> fixes it.
\<close>

section \<open>Types and values\<close>

text \<open>A \<open>bytes\<close> object is a list of 8-bit characters; identifiers (attribute, parameter and
  scope names) are ASCII and use the same type.\<close>

type_synonym bytes = "char list"
type_synonym name = "char list"

text \<open>A \<open>str\<close> object is a list of Unicode code points.\<close>

type_synonym pystr = "nat list"

text \<open>The exceptions that the sources raise, catch or let through. In Python 3.7 all of them,
  \<open>CancelledError\<close> included, are subclasses of \<open>Exception\<close>.
  \<open>OtherError\<close> stands for the exceptions of code outside the repository.\<close>

datatype exn =
    ParseError | ValueError | TypeError | KeyError | IndexError | AttributeError
  | LookupError | UnicodeError | ReError | RecursionError
  | DisableComponentError | CloseException | CancelledError
  | ProtocolError | StreamClosedError | HttpParserInvalidMethodError
  | PlainException | RuntimeError | InvalidStateError | OtherError nat

type_synonym 'a result = "exn + 'a"

text \<open>The Python values that travel through a request scope or out of a handler. \<open>PObj\<close> is an
  object the program only passes on (a bound method, a logger), by kind and identity;
  \<open>PPush\<close> is an instance of \<open>Push\<close>.\<close>

datatype pyval =
    PNone
  | PBool bool
  | PInt int
  | PBytes bytes
  | PStr pystr
  | PList "pyval list"
  | PTuple "pyval list"
  | PDict "(pyval \<times> pyval) list"
  | PPush bytes bytes
  | PObj name nat

text \<open>The truth value of an object (\<open>PPush\<close> and \<open>PObj\<close> define neither \<open>__bool__\<close> nor
  \<open>__len__\<close>).\<close>

fun truthy :: "pyval \<Rightarrow> bool" where
  "truthy PNone = False"
| "truthy (PBool b) = b"
| "truthy (PInt i) = (i \<noteq> 0)"
| "truthy (PBytes b) = (b \<noteq> [])"
| "truthy (PStr s) = (s \<noteq> [])"
| "truthy (PList xs) = (xs \<noteq> [])"
| "truthy (PTuple xs) = (xs \<noteq> [])"
| "truthy (PDict d) = (d \<noteq> [])"
| "truthy (PPush _ _) = True"
| "truthy (PObj _ _) = True"

section \<open>Rule collections\<close>

named_theorems bytes_simps \<open>equations of the byte-string methods\<close>
named_theorems dict_simps \<open>dictionary reads after dictionary writes\<close>

section \<open>Characters\<close>

abbreviation code :: "char \<Rightarrow> nat" where
  "code c \<equiv> of_char c"

abbreviation CR :: char where "CR \<equiv> CHR 0x0D"
abbreviation LF :: char where "LF \<equiv> CHR 0x0A"
abbreviation CRLF :: bytes where "CRLF \<equiv> [CHR 0x0D, CHR 0x0A]"

definition is_space :: "char \<Rightarrow> bool" where
  "is_space c \<longleftrightarrow> c = CHR '' '' \<or> (9 \<le> code c \<and> code c \<le> 13)"

definition lower_char :: "char \<Rightarrow> char" where
  "lower_char c = (if 65 \<le> code c \<and> code c \<le> 90 then char_of (code c + 32) else c)"

definition upper_char :: "char \<Rightarrow> char" where
  "upper_char c = (if 97 \<le> code c \<and> code c \<le> 122 then char_of (code c - 32) else c)"

lemma lower_char_idem [simp]: "lower_char (lower_char c) = lower_char c"
  by (auto simp: lower_char_def)

section \<open>Byte-string methods\<close>

text \<open>\<open>bytes.lower\<close>, \<open>bytes.capitalize\<close> and \<open>bytes.strip\<close>: ASCII only, as CPython's.\<close>

definition lower :: "bytes \<Rightarrow> bytes" where
  "lower s = map lower_char s"

fun capitalize :: "bytes \<Rightarrow> bytes" where
  "capitalize [] = []"
| "capitalize (c # cs) = upper_char c # lower cs"

definition lstrip :: "bytes \<Rightarrow> bytes" where
  "lstrip s = dropWhile is_space s"

definition strip :: "bytes \<Rightarrow> bytes" where
  "strip s = rev (lstrip (rev (lstrip s)))"

text \<open>\<open>s.split(sep)\<close> and \<open>s.split(sep, 1)\<close> for a one-byte separator; the second component of
  \<open>split1\<close> is \<open>None\<close> when the separator does not occur.\<close>

fun split_on :: "'a \<Rightarrow> 'a list \<Rightarrow> 'a list list" where
  "split_on sep [] = [[]]"
| "split_on sep (c # cs) =
     (if c = sep then [] # split_on sep cs
      else (case split_on sep cs of [] \<Rightarrow> [[c]] | w # ws \<Rightarrow> (c # w) # ws))"

fun split1 :: "char \<Rightarrow> bytes \<Rightarrow> bytes \<times> bytes option" where
  "split1 sep [] = ([], None)"
| "split1 sep (c # cs) =
     (if c = sep then ([], Some cs) else (c # fst (split1 sep cs), snd (split1 sep cs)))"

text \<open>\<open>bytes.splitlines()\<close>: lines end at LF, CR or CR LF, and an unterminated last line counts
  when it is not empty. The accumulator holds the current line, reversed.\<close>

fun splitlines_from :: "bytes \<Rightarrow> bytes \<Rightarrow> bytes list" where
  "splitlines_from acc [] = (if acc = [] then [] else [rev acc])"
| "splitlines_from acc (c # cs) =
     (if c = LF then rev acc # splitlines_from [] cs
      else if c = CR then rev acc # splitlines_from [] (if take 1 cs = [LF] then drop 1 cs else cs)
      else splitlines_from (c # acc) cs)"

definition splitlines :: "bytes \<Rightarrow> bytes list" where
  "splitlines s = splitlines_from [] s"

text \<open>\<open>sep.join(xs)\<close>, \<open>sub in s\<close>, \<open>s.endswith(c)\<close> and \<open>str(i).encode()\<close>.\<close>

fun join :: "bytes \<Rightarrow> bytes list \<Rightarrow> bytes" where
  "join sep [] = []"
| "join sep [x] = x"
| "join sep (x # y # ys) = x @ sep @ join sep (y # ys)"

fun occurs_in :: "bytes \<Rightarrow> bytes \<Rightarrow> bool" where
  "occurs_in sub [] = (sub = [])"
| "occurs_in sub (c # cs) = (take (length sub) (c # cs) = sub \<or> occurs_in sub cs)"

definition ends_with :: "char \<Rightarrow> bytes \<Rightarrow> bool" where
  "ends_with c s \<longleftrightarrow> s \<noteq> [] \<and> last s = c"

fun show_nat :: "nat \<Rightarrow> bytes" where
  "show_nat n =
     (if n < 10 then [char_of (48 + n)] else show_nat (n div 10) @ [char_of (48 + n mod 10)])"

declare show_nat.simps [simp del]

definition show_int :: "int \<Rightarrow> bytes" where
  "show_int i = (if i < 0 then CHR ''-'' # show_nat (nat (- i)) else show_nat (nat i))"

section \<open>Lemmas on the byte-string methods\<close>

lemma lower_Nil [simp]: "lower [] = []"
  by (simp add: lower_def)

lemma lower_eq_Nil [simp]: "lower s = [] \<longleftrightarrow> s = []"
  by (simp add: lower_def)

lemma lower_idem [simp]: "lower (lower s) = lower s"
  by (simp add: lower_def)

lemma lstrip_id [bytes_simps]: "s = [] \<or> \<not> is_space (hd s) \<Longrightarrow> lstrip s = s"
  by (cases s) (auto simp: lstrip_def)

lemma strip_id [bytes_simps]:
  "s = [] \<or> (\<not> is_space (hd s) \<and> \<not> is_space (last s)) \<Longrightarrow> strip s = s"
  by (auto simp: strip_def lstrip_id hd_rev)

lemma strip_Nil [simp]: "strip [] = []"
  by (simp add: strip_def lstrip_def)

lemma lstrip_Cons [simp]: "is_space c \<Longrightarrow> lstrip (c # s) = lstrip s"
  by (simp add: lstrip_def)

lemma strip_Cons_space [simp]: "is_space c \<Longrightarrow> strip (c # s) = strip s"
  by (simp add: strip_def)

lemma split_on_neq_Nil [simp]: "split_on sep s \<noteq> []"
  by (induction s) (auto split: list.splits)

lemma split_on_fresh [bytes_simps]: "sep \<notin> set s \<Longrightarrow> split_on sep s = [s]"
  by (induction s) auto

lemma split_on_append [bytes_simps]:
  "sep \<notin> set s \<Longrightarrow> split_on sep (s @ sep # t) = s # split_on sep t"
  by (induction s) auto

lemma split1_fresh [bytes_simps]: "sep \<notin> set s \<Longrightarrow> split1 sep s = (s, None)"
  by (induction s) auto

lemma split1_append [bytes_simps]: "sep \<notin> set s \<Longrightarrow> split1 sep (s @ sep # t) = (s, Some t)"
  by (induction s) auto

lemma split1_None_iff: "snd (split1 sep s) = None \<longleftrightarrow> sep \<notin> set s"
  by (induction s) auto

text \<open>A line without line-break characters followed by CR LF is one line.\<close>

definition line_ok :: "bytes \<Rightarrow> bool" where
  "line_ok s \<longleftrightarrow> (\<forall>c \<in> set s. c \<noteq> CR \<and> c \<noteq> LF)"

lemma line_ok_Nil [simp]: "line_ok []"
  by (simp add: line_ok_def)

lemma line_ok_append [simp]: "line_ok (s @ t) \<longleftrightarrow> line_ok s \<and> line_ok t"
  by (auto simp: line_ok_def)

lemma line_ok_Cons [simp]: "line_ok (c # s) \<longleftrightarrow> c \<noteq> CR \<and> c \<noteq> LF \<and> line_ok s"
  by (auto simp: line_ok_def)

lemma line_ok_rev [simp]: "line_ok (rev s) = line_ok s"
  by (simp add: line_ok_def)

lemma splitlines_from_line:
  "line_ok s \<Longrightarrow> splitlines_from acc (s @ CR # LF # t) = (rev acc @ s) # splitlines_from [] t"
  by (induction s arbitrary: acc) simp_all

lemma splitlines_line [bytes_simps]:
  "line_ok s \<Longrightarrow> splitlines (s @ CR # LF # t) = s # splitlines t"
  using splitlines_from_line [of s "[]" t] by (simp add: splitlines_def)

lemma splitlines_from_last:
  "line_ok s \<Longrightarrow> splitlines_from acc s = (if rev acc @ s = [] then [] else [rev acc @ s])"
  by (induction s arbitrary: acc) simp_all

lemma splitlines_last [bytes_simps]: "line_ok s \<Longrightarrow> splitlines s = (if s = [] then [] else [s])"
  by (simp add: splitlines_def splitlines_from_last)

lemma splitlines_empty [simp]: "splitlines (CR # LF # t) = [] # splitlines t"
  using splitlines_line [of "[]" t] by simp

lemma splitlines_Nil [simp]: "splitlines [] = []"
  by (simp add: splitlines_def)

lemma splitlines_from_ok: "line_ok acc \<Longrightarrow> list_all line_ok (splitlines_from acc s)"
proof (induction acc s rule: splitlines_from.induct)
  case (1 acc)
  then show ?case by simp
next
  case (2 acc c cs)
  consider "c = LF" | "c = CR" | "c \<noteq> LF" "c \<noteq> CR" by blast
  then show ?case
    using "2.IH" "2.prems" by cases simp_all
qed

lemma splitlines_ok: "l \<in> set (splitlines s) \<Longrightarrow> line_ok l"
  using splitlines_from_ok [of "[]" s] by (auto simp: splitlines_def list_all_iff)

lemma filter_drop_LF:
  "filter (\<lambda>c. c \<noteq> CR \<and> c \<noteq> LF) (if take 1 cs = [LF] then drop 1 cs else cs) =
   filter (\<lambda>c. c \<noteq> CR \<and> c \<noteq> LF) cs"
  by (cases cs) simp_all

lemma concat_splitlines_from:
  "concat (splitlines_from acc s) = rev acc @ filter (\<lambda>c. c \<noteq> CR \<and> c \<noteq> LF) s"
proof (induction acc s rule: splitlines_from.induct)
  case (1 acc)
  then show ?case by simp
next
  case (2 acc c cs)
  consider "c = LF" | "c = CR" | "c \<noteq> LF" "c \<noteq> CR" by blast
  then show ?case
  proof cases
    case 2
    then show ?thesis using "2.IH"(2) filter_drop_LF [of cs] by simp
  qed (use "2.IH" in simp_all)
qed

lemma concat_splitlines:
  "concat (splitlines s) = filter (\<lambda>c. c \<noteq> CR \<and> c \<noteq> LF) s"
  by (simp add: splitlines_def concat_splitlines_from)

lemma join_eq_Nil_iff: "join sep xs = [] \<longleftrightarrow> xs = [] \<or> (\<exists>ys. xs = [[]]) \<or> (sep = [] \<and> concat xs = [])"
  by (induction sep xs rule: join.induct) auto

lemma show_nat_neq_Nil [simp]: "show_nat n \<noteq> []"
  by (subst show_nat.simps) simp

lemma show_nat_digits: "c \<in> set (show_nat n) \<Longrightarrow> 48 \<le> code c \<and> code c \<le> 57"
proof (induction n rule: show_nat.induct)
  case (1 n)
  show ?case
  proof (cases "n < 10")
    case True
    with "1.prems" show ?thesis by (auto simp: show_nat.simps [of n])
  next
    case False
    with "1.prems" have "c \<in> set (show_nat (n div 10)) \<or> c = char_of (48 + n mod 10)"
      by (auto simp: show_nat.simps [of n])
    then show ?thesis
    proof
      assume "c \<in> set (show_nat (n div 10))"
      with False show ?thesis by (rule "1.IH")
    next
      assume "c = char_of (48 + n mod 10)"
      moreover have "n mod 10 < 10" by simp
      ultimately show ?thesis by simp
    qed
  qed
qed

lemma show_nat_line_ok [simp]: "line_ok (show_nat n)"
  using show_nat_digits [of CR n] show_nat_digits [of LF n] by (auto simp: line_ok_def)

lemma show_int_line_ok [simp]: "line_ok (show_int i)"
  by (simp add: show_int_def)

text \<open>The decimal value of a digit string, to state that \<open>show_nat\<close> loses nothing.\<close>

definition read_nat :: "bytes \<Rightarrow> nat" where
  "read_nat s = foldl (\<lambda>n c. 10 * n + (code c - 48)) 0 s"

lemma read_show_nat [simp]: "read_nat (show_nat n) = n"
proof (induction n rule: show_nat.induct)
  case (1 n)
  show ?case
  proof (cases "n < 10")
    case True
    then show ?thesis by (simp add: show_nat.simps [of n] read_nat_def)
  next
    case False
    have "n mod 10 < 10" by simp
    with False "1.IH" show ?thesis
      by (simp add: show_nat.simps [of n] read_nat_def)
  qed
qed

section \<open>Dictionaries\<close>

lemma map_of_update [dict_simps]:
  "map_of (AList.update k v d) j = (if j = k then Some v else map_of d j)"
  by (simp add: update_conv')

lemma distinct_update_keys [dict_simps, simp]:
  "distinct (map fst d) \<Longrightarrow> distinct (map fst (AList.update k v d))"
  by (rule distinct_update)

lemma dom_update_keys [dict_simps]:
  "fst ` set (AList.update k v d) = insert k (fst ` set d)"
  by (simp add: dom_update)

text \<open>\<open>{**d, **e}\<close> and \<open>d.update(e)\<close>: the entries of \<open>e\<close> are written one after the other.\<close>

definition dict_merge :: "('k \<times> 'v) list \<Rightarrow> ('k \<times> 'v) list \<Rightarrow> ('k \<times> 'v) list" where
  "dict_merge d e = foldl (\<lambda>m (k, v). AList.update k v m) d e"

lemma dict_merge_Nil [simp]: "dict_merge d [] = d"
  by (simp add: dict_merge_def)

lemma dict_merge_Cons [simp]: "dict_merge d ((k, v) # e) = dict_merge (AList.update k v d) e"
  by (simp add: dict_merge_def)

lemma map_of_dict_merge [dict_simps]:
  "distinct (map fst e) \<Longrightarrow>
   map_of (dict_merge d e) k = (case map_of e k of Some v \<Rightarrow> Some v | None \<Rightarrow> map_of d k)"
proof (induction e arbitrary: d)
  case Nil
  then show ?case by simp
next
  case (Cons p e)
  obtain j w where p: "p = (j, w)" by (cases p)
  with Cons.prems have "map_of e j = None" by (simp add: map_of_eq_None_iff)
  with Cons p show ?case by (simp add: map_of_update split: option.split)
qed

lemma dict_merge_distinct [simp]:
  "distinct (map fst d) \<Longrightarrow> distinct (map fst (dict_merge d e))"
  by (induction e arbitrary: d) auto

lemma dict_merge_dom [dict_simps]:
  "fst ` set (dict_merge d e) = fst ` set d \<union> fst ` set e"
proof (induction e arbitrary: d)
  case Nil
  then show ?case by simp
next
  case (Cons p e)
  then show ?case by (cases p) (simp add: dom_update)
qed

text \<open>Writing a list of entries into a store, first entry first: the loop
  \<open>for key, value in items: store.set(key, value)\<close>.\<close>

definition put_all :: "('k \<Rightarrow> 'a \<Rightarrow> bool \<Rightarrow> 's \<Rightarrow> 's) \<Rightarrow> ('k \<times> 'a) list \<Rightarrow> 's \<Rightarrow> 's" where
  "put_all put kvs s = foldl (\<lambda>t (k, a). put k a False t) s kvs"

lemma put_all_Nil [simp]: "put_all put [] s = s"
  by (simp add: put_all_def)

lemma put_all_Cons [simp]: "put_all put ((k, a) # kvs) s = put_all put kvs (put k a False s)"
  by (simp add: put_all_def)

section \<open>Results\<close>

lemma map_sum_Inr: "map_sum f g x = Inr y \<longleftrightarrow> (\<exists>z. x = Inr z \<and> y = g z)"
  by (cases x) auto

end
