(* ===== verification/Common.thy ===== *)
theory Common
  imports Prelude
begin

text \<open>
  \<^verbatim>\<open>levin/core/common.py\<close>: the header dictionary, the case-insensitive proxy over it, the
  request with its scope of lazily computed attributes, pushes and responses.

  A request is a mutable object shared by the connection, the middlewares and the handler.
  Operations that change it take it and return it changed. The scope (\<open>_scope\<close>) is a
  dictionary whose values are plain values or \<open>_LazyAttr\<close> wrappers around a function of the
  request; the functions are named by the datatype \<open>lazy_fn\<close> and what they compute is the
  argument \<open>call\<close> of the operations, so that each component gives its own functions their
  meaning. The interface \<open>scope_store\<close> states what \<open>Request.set\<close> promises to the components.
\<close>

section \<open>Headers\<close>

type_synonym headers = "(bytes \<times> bytes) list"

text \<open>\<open>_headers.setdefault(name.lower(), []).append(value)\<close>\<close>

definition add_header :: "(bytes \<times> bytes list) list \<Rightarrow> bytes \<times> bytes \<Rightarrow> (bytes \<times> bytes list) list" where
  "add_header hs nv =
     (let key = lower (fst nv);
          values = (case map_of hs key of None \<Rightarrow> [] | Some vs \<Rightarrow> vs)
      in AList.update key (values @ [snd nv]) hs)"

definition create_headers_map :: "(bytes \<times> bytes) list \<Rightarrow> headers" where
  "create_headers_map headers =
     (let grouped = foldl add_header [] headers
      in foldl (\<lambda>d (name, value). AList.update (lower name) (join ''; '' value) d) [] grouped)"

text \<open>\<open>_HeadersProxy\<close> over a target dictionary: every access lowers the key first.\<close>

definition proxy_getitem :: "headers \<Rightarrow> bytes \<Rightarrow> bytes result" where
  "proxy_getitem target item =
     (case map_of target (lower item) of None \<Rightarrow> Inl KeyError | Some v \<Rightarrow> Inr v)"

definition proxy_len :: "headers \<Rightarrow> nat" where
  "proxy_len target = length target"

definition proxy_get :: "headers \<Rightarrow> bytes \<Rightarrow> bytes option" where
  "proxy_get target item = map_of target (lower item)"

definition proxy_contains :: "headers \<Rightarrow> bytes \<Rightarrow> bool" where
  "proxy_contains target item \<longleftrightarrow> lower item \<in> fst ` set target"

subsection \<open>What the header dictionary holds\<close>

text \<open>The values sent under a (case-insensitive) name, in the order they were sent.\<close>

definition values_of :: "(bytes \<times> bytes) list \<Rightarrow> bytes \<Rightarrow> bytes list" where
  "values_of headers k = map snd (filter (\<lambda>nv. lower (fst nv) = k) headers)"

lemma lookup_add_header:
  "map_of (add_header hs nv) k =
     (if lower (fst nv) = k
      then Some ((case map_of hs k of None \<Rightarrow> [] | Some vs \<Rightarrow> vs) @ [snd nv]) else map_of hs k)"
  by (auto simp: add_header_def Let_def map_of_update)

lemma grouped_lookup:
  "map_of (foldl add_header hs headers) k =
     (if values_of headers k = [] then map_of hs k
      else Some ((case map_of hs k of None \<Rightarrow> [] | Some vs \<Rightarrow> vs) @ values_of headers k))"
proof (induction headers arbitrary: hs)
  case Nil
  then show ?case by (simp add: values_of_def)
next
  case (Cons nv headers)
  have "values_of (nv # headers) k =
      (if lower (fst nv) = k then snd nv # values_of headers k else values_of headers k)"
    by (simp add: values_of_def)
  then show ?case by (simp add: Cons.IH lookup_add_header)
qed

definition lower_keys :: "(bytes \<times> 'v) list \<Rightarrow> bool" where
  "lower_keys d \<longleftrightarrow> distinct (map fst d) \<and> (\<forall>k \<in> fst ` set d. lower k = k)"

lemma add_header_lower_keys: "lower_keys hs \<Longrightarrow> lower_keys (add_header hs nv)"
  by (simp add: lower_keys_def add_header_def Let_def dom_update)

lemma grouped_lower_keys: "lower_keys hs \<Longrightarrow> lower_keys (foldl add_header hs headers)"
  by (induction headers arbitrary: hs) (simp_all add: add_header_lower_keys)

lemma rebuild_lookup:
  assumes "lower_keys g"
  shows "map_of (foldl (\<lambda>d (name, value). AList.update (lower name) (f value) d) d g) k =
     (case map_of g k of Some v \<Rightarrow> Some (f v) | None \<Rightarrow> map_of d k)"
  using assms
proof (induction g arbitrary: d)
  case Nil
  then show ?case by simp
next
  case (Cons p g)
  obtain n v where p: "p = (n, v)" by (cases p)
  with Cons.prems have low: "lower n = n" and fresh: "map_of g n = None" and g: "lower_keys g"
    by (auto simp: lower_keys_def map_of_eq_None_iff)
  have "map_of (foldl (\<lambda>d (name, value). AList.update (lower name) (f value) d) d (p # g)) k =
      (case map_of g k of Some w \<Rightarrow> Some (f w) | None \<Rightarrow> map_of (AList.update n (f v) d) k)"
    using Cons.IH [OF g, of "AList.update n (f v) d"] p low by simp
  with p fresh show ?case by (auto simp: map_of_update split: option.split)
qed

lemma headers_map_lookup:
  "map_of (create_headers_map headers) k =
     (if values_of headers k = [] then None else Some (join ''; '' (values_of headers k)))"
proof -
  let ?g = "foldl add_header [] headers"
  have g: "lower_keys ?g" by (rule grouped_lower_keys) (simp add: lower_keys_def)
  show ?thesis
    unfolding create_headers_map_def Let_def
    by (simp add: rebuild_lookup [OF g, of "join ''; ''"] grouped_lookup)
qed

lemma headers_map_distinct: "distinct (map fst (create_headers_map headers))"
proof -
  have "distinct (map fst d) \<Longrightarrow>
      distinct (map fst (foldl (\<lambda>d (name, value). AList.update (lower name) (f value) d) d g))"
    for f :: "bytes list \<Rightarrow> bytes" and d g
    by (induction g arbitrary: d) auto
  then show ?thesis by (simp add: create_headers_map_def Let_def)
qed

text \<open>Keys are lower case, so a lookup through the proxy ignores the case of its argument, and
  a lookup in the plain dictionary does not.\<close>

lemma values_of_lower: "values_of headers k \<noteq> [] \<Longrightarrow> lower k = k"
  by (auto simp: values_of_def filter_empty_conv)

lemma headers_map_upper: "lower k \<noteq> k \<Longrightarrow> map_of (create_headers_map headers) k = None"
  using values_of_lower [of headers k] by (auto simp: headers_map_lookup)

lemma proxy_get_map:
  "proxy_get (create_headers_map headers) item =
     (if values_of headers (lower item) = [] then None
      else Some (join ''; '' (values_of headers (lower item))))"
  by (simp add: proxy_get_def headers_map_lookup)

lemma proxy_contains_iff: "proxy_contains t item \<longleftrightarrow> proxy_get t item \<noteq> None"
  by (simp add: proxy_contains_def proxy_get_def map_of_eq_None_iff)

lemma proxy_getitem_get:
  "proxy_getitem t item = (case proxy_get t item of None \<Rightarrow> Inl KeyError | Some v \<Rightarrow> Inr v)"
  by (simp add: proxy_getitem_def proxy_get_def)

section \<open>Requests\<close>

text \<open>The functions that the program registers with \<open>request.set(..., lazy=True)\<close>
  (\<open>PatchRequest\<close>: the first six, \<open>components.h2.Push\<close>, \<open>Connection\<close>); \<open>F_other\<close>
  stands for those of code outside the repository.\<close>

datatype lazy_fn =
    F_data | F_path | F_query_params | F_json | F_content_type | F_encoding
  | F_create_add_push | F_get_transport_info | F_other nat

datatype attr = Plain pyval | Lazy lazy_fn

type_synonym scope = "(name \<times> attr) list"

record request =
  rq_raw_path :: bytes
  rq_method :: bytes
  rq_body :: "bytes option"
  rq_headers :: headers
  rq_stream :: int
  rq_protocol :: bytes
  rq_scheme :: bytes
  rq_scope :: scope

definition new_request ::
  "bytes \<Rightarrow> bytes \<Rightarrow> bytes option \<Rightarrow> (bytes \<times> bytes) list \<Rightarrow> bytes \<Rightarrow> int \<Rightarrow> bytes \<Rightarrow> request" where
  "new_request path method body headers protocol stream scheme =
     \<lparr>rq_raw_path = path, rq_method = method, rq_body = body,
      rq_headers = create_headers_map headers, rq_stream = stream,
      rq_protocol = protocol, rq_scheme = scheme, rq_scope = []\<rparr>"

type_synonym lazy_call = "lazy_fn \<Rightarrow> request \<Rightarrow> pyval result \<times> request"

text \<open>\<open>Request.get(item, default)\<close>: a lazy attribute is computed on the request, which it may
  change, and its value replaces it in the scope. An exception of the function leaves it lazy.\<close>

definition rq_get :: "lazy_call \<Rightarrow> name \<Rightarrow> pyval \<Rightarrow> request \<Rightarrow> pyval result \<times> request" where
  "rq_get call item dflt r =
     (case map_of (rq_scope r) item of
        None \<Rightarrow> (Inr dflt, r)
      | Some (Plain v) \<Rightarrow> (Inr v, r)
      | Some (Lazy f) \<Rightarrow>
          (case call f r of
             (Inl e, r') \<Rightarrow> (Inl e, r')
           | (Inr v, r') \<Rightarrow> (Inr v, r'\<lparr>rq_scope := AList.update item (Plain v) (rq_scope r')\<rparr>)))"

text \<open>\<open>Request.set(key, value, lazy, rewrite)\<close>; \<open>Lazy f\<close> is the value with \<open>lazy=True\<close>.\<close>

definition rq_set :: "name \<Rightarrow> attr \<Rightarrow> bool \<Rightarrow> request \<Rightarrow> request" where
  "rq_set key value rewrite r =
     (if key \<notin> fst ` set (rq_scope r) \<or> rewrite
      then r\<lparr>rq_scope := AList.update key value (rq_scope r)\<rparr> else r)"

definition request_slots :: "name list" where
  "request_slots = [''raw_path'', ''method'', ''body'', ''headers'', ''stream'', ''protocol'',
                    ''_scope'', ''scheme'']"

definition EMPTY :: pyval where
  "EMPTY = PObj ''EMPTY'' 0"

text \<open>\<open>Request.__getattr__\<close>, which Python calls for a name that normal lookup does not find
  (a slot is such a name only on an instance that unpickling made without \<open>__init__\<close>).\<close>

definition rq_getattr :: "lazy_call \<Rightarrow> name \<Rightarrow> request \<Rightarrow> pyval result \<times> request" where
  "rq_getattr call item r =
     (if item \<in> set request_slots then (Inr PNone, r)
      else (case rq_get call item EMPTY r of
              (Inl e, r') \<Rightarrow> (Inl e, r')
            | (Inr v, r') \<Rightarrow> (if v = EMPTY then Inl AttributeError else Inr v, r')))"

text \<open>The property \<open>Request.path\<close>.\<close>

definition rq_path :: "lazy_call \<Rightarrow> request \<Rightarrow> pyval result \<times> request" where
  "rq_path call r = rq_get call ''path'' (PBytes (rq_raw_path r)) r"

subsection \<open>The scope as a store\<close>

text \<open>What \<open>Request.set\<close> promises: the first writer of a key wins unless a later one asks to
  rewrite, and other keys are left alone. The components that fill the scope (the router, the
  patcher, the connection) rely on nothing else.\<close>

locale scope_store =
  fixes look :: "'s \<Rightarrow> 'k \<Rightarrow> 'a option"
    and put :: "'k \<Rightarrow> 'a \<Rightarrow> bool \<Rightarrow> 's \<Rightarrow> 's"
  assumes look_put_same:
      "look (put k a rw s) k = (if rw then Some a else case look s k of None \<Rightarrow> Some a | Some b \<Rightarrow> Some b)"
    and look_put_other: "j \<noteq> k \<Longrightarrow> look (put k a rw s) j = look s j"
begin

lemma put_present: "look s k = Some b \<Longrightarrow> look (put k a False s) j = look s j"
  by (cases "j = k") (simp_all add: look_put_same look_put_other)

lemma put_absent: "look s k = None \<Longrightarrow> look (put k a False s) k = Some a"
  by (simp add: look_put_same)

lemma put_rewrite: "look (put k a True s) k = Some a"
  by (simp add: look_put_same)

lemma put_keeps: "look s j = Some b \<Longrightarrow> look (put k a False s) j = Some b"
  by (cases "j = k") (simp_all add: look_put_same look_put_other)

text \<open>A batch of writes without \<open>rewrite\<close>: an old entry wins over the batch, and in the batch
  the first entry of a key wins.\<close>

lemma look_put_all:
  "look (put_all put kvs s) k = (case look s k of Some b \<Rightarrow> Some b | None \<Rightarrow> map_of kvs k)"
proof (induction kvs arbitrary: s)
  case Nil
  then show ?case by (simp split: option.split)
next
  case (Cons p kvs)
  obtain j a where p: "p = (j, a)" by (cases p)
  have "look (put_all put kvs (put j a False s)) k =
      (case look (put j a False s) k of Some b \<Rightarrow> Some b | None \<Rightarrow> map_of kvs k)"
    by (rule Cons.IH)
  then show ?case
    by (cases "k = j") (simp_all add: p look_put_same look_put_other split: option.split)
qed

lemma put_all_keeps: "look s k = Some b \<Longrightarrow> look (put_all put kvs s) k = Some b"
  by (simp add: look_put_all)

end

definition look_scope :: "request \<Rightarrow> name \<Rightarrow> attr option" where
  "look_scope r k = map_of (rq_scope r) k"

lemma not_in_scope_iff: "k \<notin> fst ` set (rq_scope r) \<longleftrightarrow> look_scope r k = None"
  by (simp add: look_scope_def map_of_eq_None_iff)

lemma look_rq_set:
  "look_scope (rq_set k a rw r) j =
     (if j = k \<and> (rw \<or> look_scope r k = None) then Some a else look_scope r j)"
  unfolding rq_set_def not_in_scope_iff by (simp add: look_scope_def map_of_update)

interpretation scope: scope_store look_scope rq_set
  by unfold_locales (auto simp: look_rq_set split: option.split)

lemma rq_set_frame [simp]:
  "rq_raw_path (rq_set k a rw r) = rq_raw_path r" "rq_method (rq_set k a rw r) = rq_method r"
  "rq_body (rq_set k a rw r) = rq_body r" "rq_headers (rq_set k a rw r) = rq_headers r"
  "rq_stream (rq_set k a rw r) = rq_stream r" "rq_protocol (rq_set k a rw r) = rq_protocol r"
  "rq_scheme (rq_set k a rw r) = rq_scheme r"
  by (simp_all add: rq_set_def)

lemma put_all_frame [simp]:
  "rq_raw_path (put_all rq_set kvs r) = rq_raw_path r" "rq_method (put_all rq_set kvs r) = rq_method r"
  "rq_body (put_all rq_set kvs r) = rq_body r" "rq_headers (put_all rq_set kvs r) = rq_headers r"
  "rq_stream (put_all rq_set kvs r) = rq_stream r" "rq_protocol (put_all rq_set kvs r) = rq_protocol r"
  "rq_scheme (put_all rq_set kvs r) = rq_scheme r"
  by (induction kvs arbitrary: r) auto

subsection \<open>Reading the scope\<close>

lemma rq_get_missing: "look_scope r k = None \<Longrightarrow> rq_get call k d r = (Inr d, r)"
  by (simp add: rq_get_def look_scope_def)

lemma rq_get_plain: "look_scope r k = Some (Plain v) \<Longrightarrow> rq_get call k d r = (Inr v, r)"
  by (simp add: rq_get_def look_scope_def)

lemma rq_get_lazy:
  "look_scope r k = Some (Lazy f) \<Longrightarrow>
   rq_get call k d r =
     (case call f r of
        (Inl e, r') \<Rightarrow> (Inl e, r')
      | (Inr v, r') \<Rightarrow> (Inr v, r'\<lparr>rq_scope := AList.update k (Plain v) (rq_scope r')\<rparr>))"
  by (simp add: rq_get_def look_scope_def)

lemma look_scope_update [simp]:
  "look_scope (r\<lparr>rq_scope := AList.update k a (rq_scope r')\<rparr>) j =
     (if j = k then Some a else look_scope r' j)"
  by (simp add: look_scope_def map_of_update)

lemmas rq_get_simps = rq_get_missing rq_get_plain rq_get_lazy

lemma rq_get_settles:
  assumes "rq_get call k d r = (Inr v, r')"
  shows "look_scope r' k = Some (Plain v) \<or> (look_scope r' k = None \<and> v = d \<and> r' = r)"
proof (cases "look_scope r k")
  case None
  with assms show ?thesis by (simp add: rq_get_missing)
next
  case (Some a)
  show ?thesis
  proof (cases a)
    case (Plain w)
    with Some assms show ?thesis by (simp add: rq_get_plain)
  next
    case (Lazy f)
    with Some assms show ?thesis
      by (auto simp: rq_get_lazy split: prod.splits sum.splits)
  qed
qed

section \<open>Pushes and responses\<close>

record push =
  pu_path :: bytes
  pu_method :: bytes

record response =
  rs_status :: int
  rs_body :: bytes
  rs_headers :: headers
  rs_pushes :: "push list"
  rs_push :: bool

text \<open>\<open>Response(status, body, headers=None, pushes=(), push=False)\<close>.\<close>

definition new_response ::
  "int \<Rightarrow> bytes \<Rightarrow> headers option \<Rightarrow> push list \<Rightarrow> bool \<Rightarrow> response" where
  "new_response status body headers pushes push =
     \<lparr>rs_status = status, rs_body = body,
      rs_headers = (case headers of None \<Rightarrow> [] | Some h \<Rightarrow> h),
      rs_pushes = pushes, rs_push = push\<rparr>"


section \<open>Properties\<close>

text \<open>C31: The header dictionary of a request has one entry for every name sent, in lower case, and
  the entry joins the values sent under that name in any case, in their order, with \<open>"; "\<close>.\<close>

theorem headers_map_spec:
  "distinct (map fst (create_headers_map headers)) \<and>
   map_of (create_headers_map headers) k =
     (if values_of headers k = [] then None else Some (join ''; '' (values_of headers k)))"
  by (simp add: headers_map_distinct headers_map_lookup)

text \<open>\<open>Request.headers\<close> is the plain dictionary, although \<open>_create_headers_map\<close> is annotated as
  returning the proxy: under a name with an upper-case letter the dictionary has nothing, while the
  proxy would answer for the name in lower case.\<close>

theorem headers_case:
  "map_of (rq_headers (new_request path method body headers protocol stream scheme)) k =
     (if lower k = k then proxy_get (create_headers_map headers) k else None)"
  by (simp add: new_request_def proxy_get_def headers_map_upper)

text \<open>C32: A lazy attribute is computed at most once: when reading an attribute that is in the scope
  succeeds, every later read, with whatever default and whatever the functions compute by then,
  returns the same value and leaves the request alone.\<close>

theorem request_get_memo:
  assumes "rq_get call k d r = (Inr v, r')" and "look_scope r k \<noteq> None"
  shows "rq_get call' k d' r' = (Inr v, r')"
proof -
  have "look_scope r' k = Some (Plain v)"
    using rq_get_settles [OF assms(1)] assms(2) by auto
  then show ?thesis by (rule rq_get_plain)
qed

theorem request_get_memo_witness:
  "rq_get (\<lambda>f r. (Inl KeyError, r)) ''path'' (PInt 1)
     ((new_request ''/a'' ''GET'' None [] [] 0 [])\<lparr>rq_scope := [(''path'', Plain (PBytes ''/b''))]\<rparr>) =
   (Inr (PBytes ''/b''),
    (new_request ''/a'' ''GET'' None [] [] 0 [])\<lparr>rq_scope := [(''path'', Plain (PBytes ''/b''))]\<rparr>)"
proof (rule request_get_memo)
  let ?r = "(new_request ''/a'' ''GET'' None [] [] 0 [])\<lparr>rq_scope := [(''path'', Lazy F_path)]\<rparr>"
  show "rq_get (\<lambda>f r. (Inr (PBytes ''/b''), r)) ''path'' PNone ?r =
    (Inr (PBytes ''/b''),
     (new_request ''/a'' ''GET'' None [] [] 0 [])\<lparr>rq_scope := [(''path'', Plain (PBytes ''/b''))]\<rparr>)"
    by (simp add: rq_get_def)
  show "look_scope ?r ''path'' \<noteq> None" by (simp add: look_scope_def)
qed

text \<open>Writers of the scope do not overwrite each other: after any sequence of \<open>Request.set\<close>
  calls without \<open>rewrite\<close>, a key that was in the scope has its old value, and any other key has the
  value of the first call that named it.\<close>

theorem scope_first_writer_wins:
  "look_scope (put_all rq_set kvs r) k =
     (case look_scope r k of Some a \<Rightarrow> Some a | None \<Rightarrow> map_of kvs k)"
  by (rule scope.look_put_all)

end
