(* ===== verification/HttpSimple.thy ===== *)
theory HttpSimple
  imports Common
begin

text \<open>
  \<^verbatim>\<open>levin/core/parsers/http_simple.py\<close>: the line-based HTTP/1 parser and the response
  printer that both HTTP/1 parsers use. A parser's \<open>handle_request\<close> returns the bytes to send
  back, the requests it found and whether to close, or raises. A generator such as
  \<open>handle_response\<close> is the list of the chunks it yields, with the exception that ends it if
  there is one; the response it is given comes back as it leaves it.
\<close>

type_synonym parsed = "bytes \<times> request list \<times> bool"
type_synonym yielded = "bytes list \<times> exn option"

section \<open>Tables\<close>

text \<open>\<open>{status.value: status.phrase.encode() for status in HTTPStatus}\<close>, with the members of
  \<open>http.HTTPStatus\<close> in Python 3.7.\<close>

definition HTTP_STATUSES :: "(int \<times> bytes) list" where
  "HTTP_STATUSES =
    [(100, ''Continue''), (101, ''Switching Protocols''), (102, ''Processing''),
     (200, ''OK''), (201, ''Created''), (202, ''Accepted''),
     (203, ''Non-Authoritative Information''), (204, ''No Content''), (205, ''Reset Content''),
     (206, ''Partial Content''), (207, ''Multi-Status''), (208, ''Already Reported''),
     (226, ''IM Used''),
     (300, ''Multiple Choices''), (301, ''Moved Permanently''), (302, ''Found''),
     (303, ''See Other''), (304, ''Not Modified''), (305, ''Use Proxy''),
     (307, ''Temporary Redirect''), (308, ''Permanent Redirect''),
     (400, ''Bad Request''), (401, ''Unauthorized''), (402, ''Payment Required''),
     (403, ''Forbidden''), (404, ''Not Found''), (405, ''Method Not Allowed''),
     (406, ''Not Acceptable''), (407, ''Proxy Authentication Required''),
     (408, ''Request Timeout''), (409, ''Conflict''), (410, ''Gone''), (411, ''Length Required''),
     (412, ''Precondition Failed''), (413, ''Request Entity Too Large''),
     (414, ''Request-URI Too Long''), (415, ''Unsupported Media Type''),
     (416, ''Requested Range Not Satisfiable''), (417, ''Expectation Failed''),
     (421, ''Misdirected Request''), (422, ''Unprocessable Entity''), (423, ''Locked''),
     (424, ''Failed Dependency''), (426, ''Upgrade Required''), (428, ''Precondition Required''),
     (429, ''Too Many Requests''), (431, ''Request Header Fields Too Large''),
     (500, ''Internal Server Error''), (501, ''Not Implemented''), (502, ''Bad Gateway''),
     (503, ''Service Unavailable''), (504, ''Gateway Timeout''),
     (505, ''HTTP Version Not Supported''), (506, ''Variant Also Negotiates''),
     (507, ''Insufficient Storage''), (508, ''Loop Detected''), (510, ''Not Extended''),
     (511, ''Network Authentication Required'')]"

definition HTTP_HEADERS :: "(bytes \<times> bytes) list" where
  "HTTP_HEADERS = [(''content-type'', ''Content-Type'')]"

section \<open>Parsing a request\<close>

definition parse_first_line :: "bytes \<Rightarrow> (bytes \<times> bytes \<times> bytes) result" where
  "parse_first_line line =
     (case split_on (CHR '' '') line of
        [method, path, version] \<Rightarrow>
          if occurs_in ''HTTP'' version then Inr (strip method, strip path, strip version)
          else Inl ParseError
      | _ \<Rightarrow> Inl ParseError)"

text \<open>The local variables of \<open>handle_request\<close>.\<close>

record line_state =
  ls_method :: bytes
  ls_path :: bytes
  ls_protocol :: bytes
  ls_body :: "bytes option"
  ls_headers :: "(bytes \<times> bytes) list"

definition line_init :: line_state where
  "line_init = \<lparr>ls_method = [], ls_path = [], ls_protocol = [], ls_body = None, ls_headers = []\<rparr>"

text \<open>One turn of the loop. As long as the path is empty the line is taken as a first line; an
  empty line (re)starts the body; \<open>name, value = line.split(b":", 1)\<close> raises \<open>ValueError\<close> when
  there is nothing to unpack.\<close>

definition handle_line :: "line_state \<Rightarrow> bytes \<Rightarrow> line_state result" where
  "handle_line st line =
     (if ls_path st = [] then
        (case parse_first_line line of
           Inl e \<Rightarrow> Inl e
         | Inr (m, p, v) \<Rightarrow> Inr (st\<lparr>ls_method := m, ls_path := p, ls_protocol := v\<rparr>))
      else if line = [] then Inr (st\<lparr>ls_body := Some []\<rparr>)
      else
        (case ls_body st of
           None \<Rightarrow>
             (case split1 (CHR '':'') line of
                (_, None) \<Rightarrow> Inl ValueError
              | (name, Some value) \<Rightarrow>
                  Inr (st\<lparr>ls_headers := ls_headers st @ [(lower (strip name), strip value)]\<rparr>))
         | Some body \<Rightarrow> Inr (st\<lparr>ls_body := Some (body @ line)\<rparr>)))"

fun handle_lines :: "line_state \<Rightarrow> bytes list \<Rightarrow> line_state result" where
  "handle_lines st [] = Inr st"
| "handle_lines st (l # ls) =
     (case handle_line st l of Inl e \<Rightarrow> Inl e | Inr st' \<Rightarrow> handle_lines st' ls)"

definition simple_handle_request :: "bytes \<Rightarrow> parsed result" where
  "simple_handle_request data =
     (case handle_lines line_init (splitlines data) of
        Inl e \<Rightarrow> Inl e
      | Inr st \<Rightarrow>
          if ls_path st \<noteq> [] \<and> ls_method st \<noteq> [] \<and> ls_protocol st \<noteq> []
          then Inr ([], [new_request (ls_path st) (ls_method st) (ls_body st) (ls_headers st)
                           (ls_protocol st) 0 ''http''], False)
          else Inl ParseError)"

section \<open>Printing a response\<close>

definition header_name :: "bytes \<Rightarrow> bytes" where
  "header_name k = (case map_of HTTP_HEADERS k of Some n \<Rightarrow> n | None \<Rightarrow> capitalize k)"

definition with_length :: "response \<Rightarrow> response" where
  "with_length resp =
     (if rs_body resp \<noteq> []
      then resp\<lparr>rs_headers := AList.update ''Content-Length'' (show_nat (length (rs_body resp)))
                               (rs_headers resp)\<rparr>
      else resp)"

definition header_line :: "bytes \<times> bytes \<Rightarrow> bytes" where
  "header_line kv = join '': '' [header_name (fst kv), snd kv]"

text \<open>The first line is yielded after the headers are joined and before they are yielded;
  an unknown status makes it a concatenation with \<open>None\<close>, a \<open>TypeError\<close> before any chunk.
  \<open>response.headers\<close> keeps the length that is written into it.\<close>

definition simple_handle_response :: "response \<Rightarrow> yielded \<times> response" where
  "simple_handle_response resp =
     (let resp' = with_length resp;
          headers = join CRLF (map header_line (rs_headers resp'))
      in (case map_of HTTP_STATUSES (rs_status resp) of
            None \<Rightarrow> (([], Some TypeError), resp')
          | Some phrase \<Rightarrow>
              (([''HTTP/1.1 '' @ show_int (rs_status resp) @ '' '' @ phrase @ CRLF, headers] @
                (if rs_body resp \<noteq> [] then [CRLF @ CRLF @ rs_body resp] else []) @
                [CRLF], None), resp')))"

definition wire :: "response \<Rightarrow> bytes" where
  "wire resp = concat (fst (fst (simple_handle_response resp)))"

section \<open>Lemmas: parsing\<close>

lemma handle_lines_append:
  "handle_lines st (xs @ ys) =
     (case handle_lines st xs of Inl e \<Rightarrow> Inl e | Inr st' \<Rightarrow> handle_lines st' ys)"
  by (induction xs arbitrary: st) (auto split: sum.split)

lemma parse_first_line_ok:
  assumes "CHR '' '' \<notin> set m" "CHR '' '' \<notin> set p" "CHR '' '' \<notin> set v" and "occurs_in ''HTTP'' v"
  shows "parse_first_line (m @ CHR '' '' # p @ CHR '' '' # v) = Inr (strip m, strip p, strip v)"
  using assms by (simp add: parse_first_line_def bytes_simps)

lemma parse_first_line_error: "parse_first_line l = Inl e \<Longrightarrow> e = ParseError"
  by (auto simp: parse_first_line_def split: list.splits if_splits)

lemma handle_line_error: "handle_line st l = Inl e \<Longrightarrow> e = ParseError \<or> e = ValueError"
  by (auto simp: handle_line_def split: if_splits sum.splits option.splits prod.splits
      dest: parse_first_line_error)

lemma handle_lines_error: "handle_lines st ls = Inl e \<Longrightarrow> e = ParseError \<or> e = ValueError"
  by (induction ls arbitrary: st) (auto split: sum.splits dest: handle_line_error)

text \<open>Header lines: once the path is known and before the blank line.\<close>

definition header_text :: "bytes \<times> bytes \<Rightarrow> bytes" where
  "header_text nv = fst nv @ CHR '':'' # snd nv"

definition clean_header :: "bytes \<times> bytes \<Rightarrow> bytes \<times> bytes" where
  "clean_header nv = (lower (strip (fst nv)), strip (snd nv))"

lemma handle_header_lines:
  assumes "ls_path st \<noteq> []" and "ls_body st = None" and "\<forall>nv \<in> set hs. CHR '':'' \<notin> set (fst nv)"
  shows "handle_lines st (map header_text hs) =
     Inr (st\<lparr>ls_headers := ls_headers st @ map clean_header hs\<rparr>)"
  using assms
proof (induction hs arbitrary: st)
  case Nil
  then show ?case by simp
next
  case (Cons nv hs)
  let ?st = "st\<lparr>ls_headers := ls_headers st @ [clean_header nv]\<rparr>"
  have "handle_line st (header_text nv) = Inr ?st"
    using Cons.prems by (simp add: handle_line_def header_text_def clean_header_def bytes_simps)
  moreover have "handle_lines ?st (map header_text hs) =
      Inr (?st\<lparr>ls_headers := ls_headers ?st @ map clean_header hs\<rparr>)"
    using Cons.prems by (intro Cons.IH) simp_all
  ultimately show ?case by simp
qed

text \<open>Body lines: an empty line drops everything collected before it.\<close>

definition surviving :: "bytes list \<Rightarrow> bytes" where
  "surviving ls = concat (rev (takeWhile (\<lambda>l. l \<noteq> []) (rev ls)))"

lemma surviving_Nil [simp]: "surviving [] = []"
  by (simp add: surviving_def)

lemma surviving_Cons:
  "surviving (l # ls) = (if l \<noteq> [] \<and> [] \<notin> set ls then l @ surviving ls else surviving ls)"
proof (cases "[] \<in> set ls")
  case True
  then have "\<exists>x \<in> set (rev ls). \<not> x \<noteq> []" by auto
  then show ?thesis
    using True by (simp add: surviving_def takeWhile_append1)
next
  case False
  then have all: "takeWhile (\<lambda>x. x \<noteq> []) (rev ls) = rev ls"
    by (auto simp: takeWhile_eq_all_conv)
  have "takeWhile (\<lambda>x. x \<noteq> []) (rev ls @ [l]) = rev ls @ takeWhile (\<lambda>x. x \<noteq> []) [l]"
    using False by (intro takeWhile_append2) auto
  with False show ?thesis by (simp add: surviving_def all)
qed

lemma surviving_no_blank: "[] \<notin> set ls \<Longrightarrow> surviving ls = concat ls"
  by (induction ls) (simp_all add: surviving_Cons)

lemma handle_body_lines:
  assumes "ls_path st \<noteq> []" and "ls_body st = Some b"
  shows "handle_lines st ls =
     Inr (st\<lparr>ls_body := Some (if [] \<in> set ls then surviving ls else b @ surviving ls)\<rparr>)"
  using assms
proof (induction ls arbitrary: st b)
  case Nil
  then show ?case by simp
next
  case (Cons l ls)
  let ?b = "if l = [] then [] else b @ l"
  let ?st = "st\<lparr>ls_body := Some ?b\<rparr>"
  have "handle_line st l = Inr ?st"
    using Cons.prems by (simp add: handle_line_def)
  moreover have "handle_lines ?st ls =
      Inr (?st\<lparr>ls_body := Some (if [] \<in> set ls then surviving ls else ?b @ surviving ls)\<rparr>)"
    using Cons.prems by (intro Cons.IH) simp_all
  ultimately show ?case by (auto simp: surviving_Cons)
qed

subsection \<open>A request as a client sends it\<close>

definition request_text ::
  "bytes \<Rightarrow> bytes \<Rightarrow> bytes \<Rightarrow> (bytes \<times> bytes) list \<Rightarrow> bytes \<Rightarrow> bytes" where
  "request_text method path version headers body =
     method @ '' '' @ path @ '' '' @ version @ CRLF @
     concat (map (\<lambda>nv. header_text nv @ CRLF) headers) @ CRLF @ body"

text \<open>Tokens of the first line have no white space; header names have no colon; neither they
  nor the values have line breaks.\<close>

definition token_ok :: "bytes \<Rightarrow> bool" where
  "token_ok s \<longleftrightarrow> s \<noteq> [] \<and> (\<forall>c \<in> set s. \<not> is_space c)"

definition header_ok :: "bytes \<times> bytes \<Rightarrow> bool" where
  "header_ok nv \<longleftrightarrow> line_ok (fst nv) \<and> line_ok (snd nv) \<and> CHR '':'' \<notin> set (fst nv)"

lemma token_okD:
  assumes "token_ok s"
  shows "s \<noteq> []" "line_ok s" "CHR '' '' \<notin> set s" "strip s = s"
proof -
  have "is_space CR" "is_space LF" "is_space (CHR '' '')" by (simp_all add: is_space_def)
  with assms show "s \<noteq> []" "line_ok s" "CHR '' '' \<notin> set s"
    by (auto simp: token_ok_def line_ok_def)
  have "\<not> is_space (hd s) \<and> \<not> is_space (last s)"
    using assms by (simp add: token_ok_def)
  then show "strip s = s" by (simp add: strip_id)
qed

lemma splitlines_headers:
  "\<forall>nv \<in> set hs. header_ok nv \<Longrightarrow>
   splitlines (concat (map (\<lambda>nv. header_text nv @ CRLF) hs) @ t) = map header_text hs @ splitlines t"
proof (induction hs)
  case Nil
  then show ?case by simp
next
  case (Cons nv hs)
  have "line_ok (header_text nv)"
    using Cons.prems by (simp add: header_ok_def header_text_def)
  then show ?case using Cons by (simp add: splitlines_line)
qed

lemma splitlines_request_text:
  assumes "token_ok m" "token_ok p" "token_ok v" and "\<forall>nv \<in> set hs. header_ok nv"
  shows "splitlines (request_text m p v hs body) =
     (m @ CHR '' '' # p @ CHR '' '' # v) # map header_text hs @ [] # splitlines body"
proof -
  have "line_ok (m @ CHR '' '' # p @ CHR '' '' # v)"
    using assms(1-3) by (simp add: token_okD)
  from splitlines_line [OF this]
  show ?thesis
    using splitlines_headers [OF assms(4), of "CR # LF # body"] by (simp add: request_text_def)
qed

lemma simple_request_text:
  assumes "token_ok m" "token_ok p" "token_ok v" and "occurs_in ''HTTP'' v"
    and "\<forall>nv \<in> set hs. header_ok nv"
  shows "simple_handle_request (request_text m p v hs body) =
     Inr ([], [new_request p m (Some (surviving (splitlines body))) (map clean_header hs) v 0 ''http''],
          False)"
proof -
  let ?st = "line_init\<lparr>ls_method := m, ls_path := p, ls_protocol := v\<rparr>"
  let ?sth = "?st\<lparr>ls_headers := map clean_header hs\<rparr>"
  have p: "p \<noteq> []" using assms(2) by (rule token_okD)
  have first: "handle_line line_init (m @ CHR '' '' # p @ CHR '' '' # v) = Inr ?st"
    using parse_first_line_ok [of m p v] assms(1-4)
    by (simp add: handle_line_def line_init_def token_okD)
  have headers: "handle_lines ?st (map header_text hs) = Inr ?sth"
    using handle_header_lines [of ?st hs] assms(5) p by (simp add: line_init_def header_ok_def)
  have body: "handle_lines ?sth ([] # splitlines body) =
      Inr (?sth\<lparr>ls_body := Some (surviving (splitlines body))\<rparr>)"
    using handle_body_lines [of "?sth\<lparr>ls_body := Some []\<rparr>" "[]" "splitlines body"] p
    by (simp add: handle_line_def)
  have "handle_lines line_init (splitlines (request_text m p v hs body)) =
      Inr (?sth\<lparr>ls_body := Some (surviving (splitlines body))\<rparr>)"
    unfolding splitlines_request_text [OF assms(1-3,5)] handle_lines.simps(2) [of line_init] first
      sum.case handle_lines_append headers body ..
  with assms(1-3) show ?thesis
    by (simp add: simple_handle_request_def token_okD)
qed

lemma surviving_line_ok: "line_ok (surviving (splitlines body))"
proof -
  have "line_ok l" if "l \<in> set (takeWhile (\<lambda>l. l \<noteq> []) (rev (splitlines body)))" for l
    using set_takeWhileD [OF that] splitlines_ok [of l body] by simp
  then show ?thesis by (auto simp: surviving_def line_ok_def)
qed

lemma surviving_body_iff: "surviving (splitlines body) = body \<longleftrightarrow> line_ok body"
  using surviving_line_ok [of body]
  by (auto simp: splitlines_last surviving_no_blank)

lemma simple_success_shape:
  assumes "simple_handle_request data = Inr (out, reqs, close)"
  shows "out = [] \<and> close = False \<and> length reqs = 1"
  using assms by (auto simp: simple_handle_request_def split: sum.splits if_splits)

lemma simple_error: "simple_handle_request data = Inl e \<Longrightarrow> e = ParseError \<or> e = ValueError"
  by (auto simp: simple_handle_request_def split: sum.splits if_splits dest: handle_lines_error)

section \<open>Lemmas: printing\<close>

lemma status_line_ok:
  assumes "map_of HTTP_STATUSES s = Some phrase"
  shows "line_ok phrase"
proof -
  have "\<forall>p \<in> set HTTP_STATUSES. line_ok (snd p)"
    by (simp add: HTTP_STATUSES_def)
  then show ?thesis using map_of_SomeD [OF assms] by auto
qed

lemma header_name_ok:
  assumes "line_ok k"
  shows "line_ok (header_name k)"
proof -
  have up: "upper_char c \<noteq> CR \<and> upper_char c \<noteq> LF" if "c \<noteq> CR" "c \<noteq> LF" for c
    using that by (auto simp: upper_char_def dest!: arg_cong [of _ _ "of_char :: char \<Rightarrow> nat"])
  have low: "lower_char c \<noteq> CR \<and> lower_char c \<noteq> LF" if "c \<noteq> CR" "c \<noteq> LF" for c
    using that by (auto simp: lower_char_def dest!: arg_cong [of _ _ "of_char :: char \<Rightarrow> nat"])
  have "line_ok (capitalize k)"
    using assms up low by (cases k) (auto simp: line_ok_def lower_def)
  then show ?thesis by (simp add: header_name_def HTTP_HEADERS_def)
qed

definition headers_ok :: "headers \<Rightarrow> bool" where
  "headers_ok hs \<longleftrightarrow> (\<forall>kv \<in> set hs. line_ok (fst kv) \<and> line_ok (snd kv))"

lemma set_update_subset: "set (AList.update k v d) \<subseteq> insert (k, v) (set d)"
  by (induction d) auto

lemma with_length_ok: "headers_ok (rs_headers resp) \<Longrightarrow> headers_ok (rs_headers (with_length resp))"
proof -
  show "headers_ok (rs_headers resp) \<Longrightarrow> headers_ok (rs_headers (with_length resp))"
    using set_update_subset [of "''Content-Length''" _ "rs_headers resp"]
    by (fastforce simp: with_length_def headers_ok_def)
qed

lemma header_line_ok: "headers_ok hs \<Longrightarrow> l \<in> set (map header_line hs) \<Longrightarrow> line_ok l \<and> l \<noteq> []"
  by (auto simp: headers_ok_def header_line_def header_name_ok)

lemma splitlines_join:
  "ls \<noteq> [] \<Longrightarrow> \<forall>l \<in> set ls. line_ok l \<Longrightarrow> splitlines (join CRLF ls @ CR # LF # t) = ls @ splitlines t"
  by (induction CRLF ls rule: join.induct) (simp_all add: splitlines_line)

definition status_line :: "int \<Rightarrow> bytes \<Rightarrow> bytes" where
  "status_line status phrase = ''HTTP/1.1 '' @ show_int status @ '' '' @ phrase"

lemma wire_eq:
  assumes "map_of HTTP_STATUSES (rs_status resp) = Some phrase"
  shows "wire resp = status_line (rs_status resp) phrase @ CRLF @
     join CRLF (map header_line (rs_headers (with_length resp))) @
     (if rs_body resp \<noteq> [] then CRLF @ CRLF @ rs_body resp else []) @ CRLF"
  using assms by (simp add: wire_def simple_handle_response_def Let_def status_line_def)

lemma wire_lines:
  assumes status: "map_of HTTP_STATUSES (rs_status resp) = Some phrase"
    and ok: "headers_ok (rs_headers resp)"
  shows "splitlines (wire resp) =
     status_line (rs_status resp) phrase # map header_line (rs_headers (with_length resp)) @
     (if rs_body resp \<noteq> [] then [] # splitlines (rs_body resp @ CRLF)
      else if rs_headers resp = [] then [[]] else [])"
proof -
  let ?ls = "map header_line (rs_headers (with_length resp))"
  have first: "line_ok (status_line (rs_status resp) phrase)"
    by (simp add: status_line_def status_line_ok [OF status])
  have ls: "\<forall>l \<in> set ?ls. line_ok l"
    using header_line_ok [OF with_length_ok [OF ok]] by blast
  show ?thesis
  proof (cases "rs_body resp = []")
    case False
    then have "?ls \<noteq> []" by (simp add: with_length_def)
    with False show ?thesis
      using splitlines_join [OF _ ls, of "CR # LF # rs_body resp @ CRLF"]
      by (simp add: wire_eq [OF status] splitlines_line [OF first])
  next
    case True
    then have same: "with_length resp = resp" by (simp add: with_length_def)
    show ?thesis
    proof (cases "rs_headers resp = []")
      case True
      with \<open>rs_body resp = []\<close> same show ?thesis
        by (simp add: wire_eq [OF status] splitlines_line [OF first])
    next
      case False
      then have "?ls \<noteq> []" by (simp add: same)
      then show ?thesis
        using splitlines_join [OF _ ls, of "[]"] \<open>rs_body resp = []\<close> False
        by (simp add: wire_eq [OF status] splitlines_line [OF first] same)
    qed
  qed
qed

lemma with_length_content_length:
  "rs_body resp \<noteq> [] \<Longrightarrow>
   map_of (rs_headers (with_length resp)) ''Content-Length'' = Some (show_nat (length (rs_body resp)))"
  by (simp add: with_length_def map_of_update)

lemma with_length_frame [simp]:
  "rs_status (with_length resp) = rs_status resp" "rs_body (with_length resp) = rs_body resp"
  "rs_pushes (with_length resp) = rs_pushes resp" "rs_push (with_length resp) = rs_push resp"
  by (simp_all add: with_length_def)

lemma simple_response_state [simp]: "snd (simple_handle_response resp) = with_length resp"
  by (simp add: simple_handle_response_def Let_def split: option.split)


lemma simple_colonless:
  assumes "token_ok m" "token_ok p" "token_ok v" and "occurs_in ''HTTP'' v"
    and "\<forall>nv \<in> set hs. header_ok nv" and "line_ok l" and "l \<noteq> []" and "CHR '':'' \<notin> set l"
  shows "simple_handle_request
     (m @ '' '' @ p @ '' '' @ v @ CRLF @ concat (map (\<lambda>nv. header_text nv @ CRLF) hs) @ l @ CRLF @ rest) =
     Inl ValueError"
proof -
  let ?st = "line_init\<lparr>ls_method := m, ls_path := p, ls_protocol := v\<rparr>"
  let ?sth = "?st\<lparr>ls_headers := map clean_header hs\<rparr>"
  have p: "p \<noteq> []" using assms(2) by (rule token_okD)
  have ok: "line_ok (m @ CHR '' '' # p @ CHR '' '' # v)"
    using assms(1-3) by (simp add: token_okD)
  have lines: "splitlines (m @ '' '' @ p @ '' '' @ v @ CRLF @
      concat (map (\<lambda>nv. header_text nv @ CRLF) hs) @ l @ CRLF @ rest) =
    (m @ CHR '' '' # p @ CHR '' '' # v) # map header_text hs @ l # splitlines rest"
    using splitlines_line [OF ok] splitlines_headers [OF assms(5), of "l @ CR # LF # rest"]
      splitlines_line [OF assms(6)] by simp
  have first: "handle_line line_init (m @ CHR '' '' # p @ CHR '' '' # v) = Inr ?st"
    using parse_first_line_ok [of m p v] assms(1-4)
    by (simp add: handle_line_def line_init_def token_okD)
  have headers: "handle_lines ?st (map header_text hs) = Inr ?sth"
    using handle_header_lines [of ?st hs] assms(5) p by (simp add: line_init_def header_ok_def)
  have bad: "handle_lines ?sth (l # splitlines rest) = Inl ValueError"
    using assms(7,8) p by (simp add: handle_line_def line_init_def bytes_simps)
  show ?thesis
    unfolding simple_handle_request_def lines handle_lines.simps(2) [of line_init] first
      sum.case handle_lines_append headers bad ..
qed

section \<open>Properties\<close>

text \<open>C18: A request as a client sends it (three tokens, header lines, a blank line, a body)
  parses to exactly one request with its method, path and protocol, its headers with names stripped
  and in lower case, and the surviving part of the body; nothing is sent back and the connection
  stays open.\<close>

theorem simple_parses_request:
  assumes "token_ok m" "token_ok p" "token_ok v" and "occurs_in ''HTTP'' v"
    and "\<forall>nv \<in> set hs. header_ok nv"
  shows "simple_handle_request (request_text m p v hs body) =
     Inr ([], [new_request p m (Some (surviving (splitlines body))) (map clean_header hs) v 0 ''http''],
          False)"
  using assms by (rule simple_request_text)

theorem simple_parses_request_witness:
  "simple_handle_request (request_text ''GET'' ''/a'' ''HTTP/1.1'' [(''Host'', '' x '')] ''hi'') =
     Inr ([], [new_request ''/a'' ''GET'' (Some (surviving (splitlines ''hi'')))
                 (map clean_header [(''Host'', '' x '')]) ''HTTP/1.1'' 0 ''http''], False)"
  by (rule simple_parses_request)
    (simp_all add: token_ok_def header_ok_def line_ok_def is_space_def)

text \<open>The body of the parsed request is the body that was sent exactly if that has no line
  break: the line parser drops line breaks, and at an empty line everything before it.\<close>

theorem simple_body_intact_iff:
  assumes "token_ok m" "token_ok p" "token_ok v" and "occurs_in ''HTTP'' v"
    and "\<forall>nv \<in> set hs. header_ok nv"
    and "simple_handle_request (request_text m p v hs body) = Inr (out, [req], close)"
  shows "rq_body req = Some body \<longleftrightarrow> line_ok body"
  using simple_request_text [OF assms(1-5), of body] assms(6) surviving_body_iff [of body]
  by (auto simp: new_request_def)

theorem simple_body_intact_iff_witness:
  "rq_body (new_request ''/a'' ''GET'' (Some (surviving (splitlines (''a'' @ LF # LF # ''b'')))) [] ''HTTP/1.1'' 0 ''http'')
     = Some (''a'' @ LF # LF # ''b'') \<longleftrightarrow> line_ok (''a'' @ LF # LF # ''b'')"
  by (rule simple_body_intact_iff [of "''GET''" "''/a''" "''HTTP/1.1''" "[]" _ "[]" _ False])
    (simp_all add: token_ok_def is_space_def simple_request_text)

text \<open>A header line without a colon makes the parser raise \<open>ValueError\<close>, which is not the
  \<open>ParseError\<close> that the connection expects of data a parser cannot read.\<close>

theorem simple_header_without_colon:
  assumes "token_ok m" "token_ok p" "token_ok v" and "occurs_in ''HTTP'' v"
    and "\<forall>nv \<in> set hs. header_ok nv" and "line_ok l" and "l \<noteq> []" and "CHR '':'' \<notin> set l"
  shows "simple_handle_request
     (m @ '' '' @ p @ '' '' @ v @ CRLF @ concat (map (\<lambda>nv. header_text nv @ CRLF) hs) @ l @ CRLF @ rest) =
     Inl ValueError"
  using assms by (rule simple_colonless)

theorem simple_header_without_colon_witness:
  "simple_handle_request
     (''GET'' @ '' '' @ ''/a'' @ '' '' @ ''HTTP/1.1'' @ CRLF @
      concat (map (\<lambda>nv. header_text nv @ CRLF) [(''Host'', ''x'')]) @ ''no name'' @ CRLF @ CRLF) =
     Inl ValueError"
  by (rule simple_header_without_colon)
    (simp_all add: token_ok_def header_ok_def line_ok_def is_space_def)

text \<open>What a response looks like on the wire, line by line: the status line, one line for each
  header with the length of a body that is not empty among them, a blank line and the body followed
  by a line break. Without a body no blank line ends the headers, unless there is no header at all.\<close>

theorem simple_response_lines:
  assumes "map_of HTTP_STATUSES (rs_status resp) = Some phrase" and "headers_ok (rs_headers resp)"
  shows "splitlines (wire resp) =
     (''HTTP/1.1 '' @ show_int (rs_status resp) @ '' '' @ phrase) #
     map header_line
       (if rs_body resp \<noteq> []
        then AList.update ''Content-Length'' (show_nat (length (rs_body resp))) (rs_headers resp)
        else rs_headers resp) @
     (if rs_body resp \<noteq> [] then [] # splitlines (rs_body resp @ CRLF)
      else if rs_headers resp = [] then [[]] else [])"
  using wire_lines [OF assms] by (simp add: status_line_def with_length_def)

theorem simple_response_lines_witness:
  "splitlines (wire (new_response 404 [] (Some [(''content-type'', ''a/b'')]) [] False)) =
     [''HTTP/1.1 404 Not Found'', ''Content-Type: a/b'']"
  using simple_response_lines
    [of "new_response 404 [] (Some [(''content-type'', ''a/b'')]) [] False" "''Not Found''"]
  by (simp add: new_response_def HTTP_STATUSES_def headers_ok_def line_ok_def header_line_def
      header_name_def HTTP_HEADERS_def show_int_def
      show_nat.simps [of 404] show_nat.simps [of 40] show_nat.simps [of 4] char_of_def bit_Suc_0_iff)

text \<open>A response with a status outside \<open>http.HTTPStatus\<close> makes the printer raise
  \<open>TypeError\<close> before it writes anything.\<close>

theorem simple_unknown_status:
  assumes "rs_status resp \<notin> fst ` set HTTP_STATUSES"
  shows "fst (simple_handle_response resp) = ([], Some TypeError)"
  using assms by (simp add: simple_handle_response_def Let_def map_of_eq_None_iff [THEN iffD2])

theorem simple_unknown_status_witness:
  "fst (simple_handle_response (new_response 299 ''x'' None [] False)) = ([], Some TypeError)"
  by (rule simple_unknown_status) (simp add: new_response_def HTTP_STATUSES_def)

end
