(* ===== verification/Connection.thy ===== *)
theory Connection
  imports HttpSimple
begin

text \<open>
  \<^verbatim>\<open>levin/core/connection.py\<close>: one connection, from the bytes the transport delivers to the
  responses written back.

  The state holds the calls made on the transport (\<open>cn_out\<close>, the data written; \<open>cn_closing\<close>,
  what \<open>transport.is_closing()\<close> answers), the parsers and the selected one, and the futures of the
  requests in progress: \<open>cn_futures\<close> is the list \<open>self._futures\<close>, \<open>cn_table\<close> has every future
  made so far. The futures are those of \<open>run_coroutine_threadsafe\<close>, that is, of
  \<open>concurrent.futures\<close>: completing or cancelling one runs its callbacks at once, and an
  exception of a callback is logged and dropped. The loops that call \<open>cancel\<close> or
  \<open>set_exception\<close> on the futures of the list therefore change the list they iterate over; the
  model iterates by index, as Python does.

  What a request handler does is an event of the environment: it returns a response or raises.
  The parsers are reached through the operations of \<open>ParserProtocol\<close>
  (\<^verbatim>\<open>levin/core/typing.py\<close>), an argument of the definitions.
\<close>

section \<open>The parser interface\<close>

record 'p protocol =
  pr_connect :: "'p \<Rightarrow> 'p"
  pr_request :: "'p \<Rightarrow> bytes \<Rightarrow> parsed result \<times> 'p"
  pr_response :: "'p \<Rightarrow> response \<Rightarrow> request \<Rightarrow> (yielded \<times> response) \<times> 'p"
  pr_push_support :: "'p \<Rightarrow> bool"

section \<open>State\<close>

datatype fut_state = Pending | Cancelled | Failed exn | Done

text \<open>Where the coroutine \<open>handle_request\<close> stands: awaiting the handler, awaiting the handlers of the
  pushes (by index, with their requests), or over.\<close>

datatype stage = Handling | Pushing "(nat \<times> request) list" | Over

record fut =
  fu_state :: fut_state
  fu_request :: request
  fu_stage :: stage
  fu_closes :: bool

record 'p conn =
  cn_connected :: bool
  cn_closing :: bool
  cn_out :: "bytes list"
  cn_ssl :: bool
  cn_parsers :: "'p list"
  cn_parser :: "nat option"
  cn_futures :: "nat list"
  cn_table :: "nat \<Rightarrow> fut option"
  cn_next :: nat
  cn_resp500 :: response

definition response_500 :: response where
  "response_500 = new_response 500 ''Sorry'' None [] False"

text \<open>A new connection. \<open>resp500\<close> is the module's \<open>response_500\<close> as earlier connections left it.\<close>

definition new_conn :: "'p list \<Rightarrow> bool \<Rightarrow> response \<Rightarrow> 'p conn" where
  "new_conn parsers ssl resp500 =
     \<lparr>cn_connected = False, cn_closing = False, cn_out = [], cn_ssl = ssl,
      cn_parsers = parsers, cn_parser = None, cn_futures = [], cn_table = (\<lambda>_. None), cn_next = 0,
      cn_resp500 = resp500\<rparr>"

text \<open>\<open>is_ssl\<close> and \<open>scheme\<close>; \<open>cn_ssl\<close> is whether the transport has an \<open>sslcontext\<close>.\<close>

definition conn_scheme :: "'p conn \<Rightarrow> bytes" where
  "conn_scheme c = (if cn_ssl c then ''https'' else ''http'')"

definition set_fut :: "nat \<Rightarrow> (fut \<Rightarrow> fut) \<Rightarrow> 'p conn \<Rightarrow> 'p conn" where
  "set_fut f g c = c\<lparr>cn_table := (cn_table c)(f := map_option g (cn_table c f))\<rparr>"

definition pending :: "'p conn \<Rightarrow> nat \<Rightarrow> bool" where
  "pending c f \<longleftrightarrow> (case cn_table c f of None \<Rightarrow> False | Some fu \<Rightarrow> fu_state fu = Pending)"

definition closes :: "'p conn \<Rightarrow> nat \<Rightarrow> bool" where
  "closes c f \<longleftrightarrow> (case cn_table c f of None \<Rightarrow> False | Some fu \<Rightarrow> fu_closes fu)"

section \<open>Writing\<close>

definition conn_write :: "bytes \<Rightarrow> 'p conn \<Rightarrow> 'p conn" where
  "conn_write data c = c\<lparr>cn_out := cn_out c @ [data]\<rparr>"

text \<open>\<open>write_response\<close>: the exception that leaves it, the response as the parser leaves it, and the
  connection. Without a parser, \<open>None.handle_response\<close> is an \<open>AttributeError\<close>.\<close>

definition write_response ::
  "'p protocol \<Rightarrow> response \<Rightarrow> request \<Rightarrow> 'p conn \<Rightarrow> exn option \<times> response \<times> 'p conn" where
  "write_response pr resp req c =
     (case cn_parser c of
        None \<Rightarrow> (Some AttributeError, resp, c)
      | Some i \<Rightarrow>
          (case pr_response pr (cn_parsers c ! i) resp req of
             (((chunks, e), resp'), p) \<Rightarrow>
               (e, resp', c\<lparr>cn_out := cn_out c @ chunks, cn_parsers := (cn_parsers c)[i := p]\<rparr>)))"

definition write_500 :: "'p protocol \<Rightarrow> request \<Rightarrow> 'p conn \<Rightarrow> 'p conn" where
  "write_500 pr req c =
     (if cn_connected c \<and> \<not> cn_closing c
      then (case write_response pr (cn_resp500 c) req c of
              (e, resp', c') \<Rightarrow> c'\<lparr>cn_resp500 := resp'\<rparr>)
      else c)"

section \<open>Futures and their callbacks\<close>

text \<open>\<open>_get_future_exception\<close>: the exception that a future ended with, if any.\<close>

fun future_exception :: "fut_state \<Rightarrow> exn option" where
  "future_exception Pending = Some InvalidStateError"
| "future_exception Cancelled = None"
| "future_exception (Failed e) = Some e"
| "future_exception Done = None"

text \<open>\<open>_done_callback\<close>: the future leaves the list in any case.\<close>

definition done_callback :: "'p protocol \<Rightarrow> nat \<Rightarrow> 'p conn \<Rightarrow> 'p conn" where
  "done_callback pr f c =
     (case cn_table c f of
        None \<Rightarrow> c
      | Some fu \<Rightarrow>
          (let c' = (if fu_state fu = Cancelled then write_500 pr (fu_request fu) c
                     else (case future_exception (fu_state fu) of
                             Some e \<Rightarrow> write_500 pr (fu_request fu) c
                           | None \<Rightarrow> c))
           in c'\<lparr>cn_futures := remove1 f (cn_futures c')\<rparr>))"

definition settle :: "'p protocol \<Rightarrow> nat \<Rightarrow> fut_state \<Rightarrow> 'p conn \<Rightarrow> 'p conn" where
  "settle pr f st c = done_callback pr f (set_fut f (\<lambda>fu. fu\<lparr>fu_state := st\<rparr>) c)"

text \<open>The loop of \<open>close\<close> from index \<open>i\<close> on. Failing a future runs its callbacks, and for a future
  with \<open>_close_callback\<close> these call \<open>close\<close> again. Every turn removes a future from the list, so
  the length of the list is fuel enough.\<close>

fun close_loop :: "nat \<Rightarrow> 'p protocol \<Rightarrow> nat \<Rightarrow> 'p conn \<Rightarrow> 'p conn" where
  "close_loop 0 pr i c = c"
| "close_loop (Suc n) pr i c =
     (if i < length (cn_futures c) then
        (let f = cn_futures c ! i;
             c1 = settle pr f (Failed CloseException) c;
             c2 = (if closes c f then close_loop n pr 0 (c1\<lparr>cn_closing := True\<rparr>) else c1)
         in close_loop n pr (Suc i) c2)
      else c)"

definition conn_close :: "'p protocol \<Rightarrow> 'p conn \<Rightarrow> 'p conn" where
  "conn_close pr c = close_loop (Suc (length (cn_futures c))) pr 0 (c\<lparr>cn_closing := True\<rparr>)"

text \<open>A future gets its outcome: the callbacks run in the order in which they were added. A future
  that already has one keeps it.\<close>

definition complete :: "'p protocol \<Rightarrow> nat \<Rightarrow> fut_state \<Rightarrow> 'p conn \<Rightarrow> 'p conn" where
  "complete pr f st c =
     (if pending c f then
        (let c1 = settle pr f st c in if closes c f then conn_close pr c1 else c1)
      else c)"

text \<open>The outcome of a coroutine that an exception leaves.\<close>

definition failure :: "exn \<Rightarrow> fut_state" where
  "failure e = (if e = CancelledError then Cancelled else Failed e)"

section \<open>Events of the transport\<close>

definition connection_made :: "'p protocol \<Rightarrow> 'p conn \<Rightarrow> 'p conn" where
  "connection_made pr c = c\<lparr>cn_connected := True, cn_parsers := map (pr_connect pr) (cn_parsers c)\<rparr>"

text \<open>\<open>_parse\<close>: \<open>None\<close> when no parser takes the data.\<close>

fun parse_loop ::
  "'p protocol \<Rightarrow> bytes \<Rightarrow> nat \<Rightarrow> 'p list \<Rightarrow> parsed option result \<times> 'p list \<times> nat option" where
  "parse_loop pr data i [] = (Inr None, [], None)"
| "parse_loop pr data i (p # ps) =
     (case pr_request pr p data of
        (Inl e, p') \<Rightarrow>
          if e = ParseError
          then (case parse_loop pr data (Suc i) ps of (res, ps', sel) \<Rightarrow> (res, p' # ps', sel))
          else (Inl e, p' # ps, None)
      | (Inr parsed, p') \<Rightarrow> (Inr (Some parsed), p' # ps, Some i))"

definition conn_parse :: "'p protocol \<Rightarrow> bytes \<Rightarrow> 'p conn \<Rightarrow> parsed option result \<times> 'p conn" where
  "conn_parse pr data c =
     (case cn_parser c of
        Some i \<Rightarrow>
          (case pr_request pr (cn_parsers c ! i) data of
             (res, p) \<Rightarrow> (map_sum id Some res, c\<lparr>cn_parsers := (cn_parsers c)[i := p]\<rparr>))
      | None \<Rightarrow>
          (case parse_loop pr data 0 (cn_parsers c) of
             (res, ps, sel) \<Rightarrow> (res, c\<lparr>cn_parsers := ps, cn_parser := sel\<rparr>)))"

text \<open>\<open>handle_request\<close> begins by offering the transport information.\<close>

definition begin_request :: "request \<Rightarrow> fut" where
  "begin_request req =
     \<lparr>fu_state = Pending,
      fu_request = rq_set ''get_transport_info'' (Lazy F_get_transport_info) False req,
      fu_stage = Handling, fu_closes = False\<rparr>"

definition schedule :: "request \<Rightarrow> 'p conn \<Rightarrow> 'p conn" where
  "schedule req c =
     c\<lparr>cn_futures := cn_futures c @ [cn_next c],
       cn_table := (cn_table c)(cn_next c := Some (begin_request req)),
       cn_next := Suc (cn_next c)\<rparr>"

text \<open>\<open>data_received\<close>; \<open>None\<close> cannot be unpacked into three variables. On close, the callback goes
  to the future of the last request.\<close>

definition data_received :: "'p protocol \<Rightarrow> bytes \<Rightarrow> 'p conn \<Rightarrow> exn option \<times> 'p conn" where
  "data_received pr data c =
     (case conn_parse pr data c of
        (Inl e, c1) \<Rightarrow> (Some e, c1)
      | (Inr None, c1) \<Rightarrow> (Some TypeError, c1)
      | (Inr (Some (out, requests, close)), c1) \<Rightarrow>
          (let c2 = (if out \<noteq> [] then conn_write out c1 else c1);
               c3 = foldl (\<lambda>d req. schedule req d) c2 requests
           in (None,
               if close then
                 (if requests \<noteq> [] then set_fut (cn_next c3 - 1) (\<lambda>fu. fu\<lparr>fu_closes := True\<rparr>) c3
                  else conn_close pr c3)
               else c3)))"

text \<open>\<open>connection_lost\<close>: by then the transport is closing. Cancelling a pending future completes it;
  cancelling a finished one does nothing.\<close>

lemma write_500_frame [simp]:
  "cn_futures (write_500 pr req c) = cn_futures c" "cn_table (write_500 pr req c) = cn_table c"
  "cn_next (write_500 pr req c) = cn_next c" "cn_parser (write_500 pr req c) = cn_parser c"
  "cn_connected (write_500 pr req c) = cn_connected c" "cn_closing (write_500 pr req c) = cn_closing c"
  "cn_ssl (write_500 pr req c) = cn_ssl c"
  "length (cn_parsers (write_500 pr req c)) = length (cn_parsers c)"
  by (auto simp: write_500_def write_response_def split: option.splits prod.splits)

lemma set_fut_frame [simp]:
  "cn_futures (set_fut f g c) = cn_futures c" "cn_next (set_fut f g c) = cn_next c"
  "cn_parser (set_fut f g c) = cn_parser c" "cn_parsers (set_fut f g c) = cn_parsers c"
  "cn_connected (set_fut f g c) = cn_connected c" "cn_closing (set_fut f g c) = cn_closing c"
  "cn_out (set_fut f g c) = cn_out c" "cn_resp500 (set_fut f g c) = cn_resp500 c"
  "cn_ssl (set_fut f g c) = cn_ssl c"
  by (simp_all add: set_fut_def)

lemma settle_futures:
  "cn_futures (settle pr f st c) =
     (if cn_table c f = None then cn_futures c else remove1 f (cn_futures c))"
  by (auto simp: settle_def done_callback_def Let_def set_fut_def split: option.splits fut_state.splits)

lemma length_settle: "length (cn_futures (settle pr f st c)) \<le> length (cn_futures c)"
  by (simp add: settle_futures length_remove1)

lemma length_close_loop: "length (cn_futures (close_loop n pr i c)) \<le> length (cn_futures c)"
proof (induction n arbitrary: i c)
  case 0
  show ?case by simp
next
  case (Suc n)
  show ?case
  proof (cases "i < length (cn_futures c)")
    case False
    then show ?thesis by simp
  next
    case True
    let ?f = "cn_futures c ! i"
    let ?c1 = "settle pr ?f (Failed CloseException) c"
    let ?c2 = "if closes c ?f then close_loop n pr 0 (?c1\<lparr>cn_closing := True\<rparr>) else ?c1"
    have "length (cn_futures ?c2) \<le> length (cn_futures ?c1)"
      using Suc.IH [of 0 "?c1\<lparr>cn_closing := True\<rparr>"] by simp
    also have "\<dots> \<le> length (cn_futures c)" by (rule length_settle)
    finally have "length (cn_futures ?c2) \<le> length (cn_futures c)" .
    with Suc.IH [of "Suc i" ?c2] True show ?thesis by (simp add: Let_def del: if_split)
  qed
qed

lemma length_complete: "length (cn_futures (complete pr f st c)) \<le> length (cn_futures c)"
  using length_settle [of pr f st c]
    length_close_loop [of "Suc (length (cn_futures (settle pr f st c)))" pr 0
      "settle pr f st c\<lparr>cn_closing := True\<rparr>"]
  by (simp add: complete_def conn_close_def Let_def)

function lost_loop :: "'p protocol \<Rightarrow> nat \<Rightarrow> 'p conn \<Rightarrow> 'p conn" where
  "lost_loop pr i c =
     (if i < length (cn_futures c)
      then lost_loop pr (Suc i) (complete pr (cn_futures c ! i) Cancelled c) else c)"
  by pat_completeness auto
termination
proof (relation "measure (\<lambda>(pr, i, c). length (cn_futures c) - i)", goal_cases)
  case (2 pr i c)
  then show ?case
    using length_complete [of pr "cn_futures c ! i" Cancelled c] by simp
qed simp

declare lost_loop.simps [simp del]

definition connection_lost :: "'p protocol \<Rightarrow> 'p conn \<Rightarrow> 'p conn" where
  "connection_lost pr c = lost_loop pr 0 (c\<lparr>cn_closing := True\<rparr>)"

section \<open>Events of the handlers\<close>

text \<open>The request of a push.\<close>

definition push_request :: "'p conn \<Rightarrow> request \<Rightarrow> push \<Rightarrow> request" where
  "push_request c req push =
     rq_set ''get_transport_info'' (Lazy F_get_transport_info) False
       (new_request (pu_path push) (pu_method push) (Some []) (rq_headers req) (rq_protocol req)
          (rq_stream req) (conn_scheme c))"

text \<open>The handler of request \<open>f\<close> returned a response: it is written, then the pushes start if there
  are any and the parser supports them, and otherwise the coroutine is over.\<close>

definition handler_returned :: "'p protocol \<Rightarrow> nat \<Rightarrow> response \<Rightarrow> 'p conn \<Rightarrow> 'p conn" where
  "handler_returned pr f resp c =
     (case cn_table c f of
        None \<Rightarrow> c
      | Some fu \<Rightarrow>
          (case write_response pr resp (fu_request fu) (set_fut f (\<lambda>fu. fu\<lparr>fu_stage := Over\<rparr>) c) of
             (Some e, _, c1) \<Rightarrow> complete pr f (failure e) c1
           | (None, resp', c1) \<Rightarrow>
               (case cn_parser c1 of
                  Some i \<Rightarrow>
                    if rs_pushes resp' \<noteq> [] \<and> pr_push_support pr (cn_parsers c1 ! i) then
                      set_fut f (\<lambda>d. d\<lparr>fu_stage :=
                        Pushing (enumerate 0 (map (push_request c1 (fu_request fu)) (rs_pushes resp')))\<rparr>) c1
                    else complete pr f Done c1
                | None \<Rightarrow> complete pr f Done c1)))"

definition handler_raised :: "'p protocol \<Rightarrow> nat \<Rightarrow> exn \<Rightarrow> 'p conn \<Rightarrow> 'p conn" where
  "handler_raised pr f e c =
     complete pr f (failure e) (set_fut f (\<lambda>fu. fu\<lparr>fu_stage := Over\<rparr>) c)"

text \<open>The handler of push \<open>k\<close> of request \<open>f\<close> returned or raised. \<open>gather\<close> ends the coroutine at
  the first exception, or when no push is left; the other pushes go on.\<close>

definition drop_push :: "nat \<Rightarrow> stage \<Rightarrow> stage" where
  "drop_push k st =
     (case st of Pushing ps \<Rightarrow> Pushing (filter (\<lambda>(j, r). j \<noteq> k) ps) | _ \<Rightarrow> st)"

definition no_push_left :: "'p conn \<Rightarrow> nat \<Rightarrow> bool" where
  "no_push_left c f \<longleftrightarrow> (case cn_table c f of None \<Rightarrow> False | Some fu \<Rightarrow> fu_stage fu = Pushing [])"

definition push_returned :: "'p protocol \<Rightarrow> nat \<Rightarrow> nat \<Rightarrow> response \<Rightarrow> 'p conn \<Rightarrow> 'p conn" where
  "push_returned pr f k resp c =
     (case cn_table c f of
        Some fu \<Rightarrow>
          (case fu_stage fu of
             Pushing ps \<Rightarrow>
               (case map_of ps k of
                  None \<Rightarrow> c
                | Some req \<Rightarrow>
                    (case write_response pr (resp\<lparr>rs_push := True\<rparr>) req
                            (set_fut f (\<lambda>fu. fu\<lparr>fu_stage := drop_push k (fu_stage fu)\<rparr>) c) of
                       (Some e, _, c1) \<Rightarrow> complete pr f (failure e) c1
                     | (None, _, c1) \<Rightarrow> if no_push_left c1 f then complete pr f Done c1 else c1))
           | _ \<Rightarrow> c)
      | None \<Rightarrow> c)"

definition push_raised :: "'p protocol \<Rightarrow> nat \<Rightarrow> nat \<Rightarrow> exn \<Rightarrow> 'p conn \<Rightarrow> 'p conn" where
  "push_raised pr f k e c =
     complete pr f (failure e) (set_fut f (\<lambda>fu. fu\<lparr>fu_stage := drop_push k (fu_stage fu)\<rparr>) c)"

section \<open>What settling a future changes\<close>

lemma settle_table:
  "cn_table (settle pr f st c) =
     (cn_table c)(f := map_option (\<lambda>fu. fu\<lparr>fu_state := st\<rparr>) (cn_table c f))"
  by (auto simp: settle_def done_callback_def Let_def set_fut_def split: option.splits fut_state.splits)

definition same_frame :: "'p conn \<Rightarrow> 'p conn \<Rightarrow> bool" where
  "same_frame c c' \<longleftrightarrow>
     cn_parser c' = cn_parser c \<and> cn_next c' = cn_next c \<and> cn_connected c' = cn_connected c \<and>
     cn_ssl c' = cn_ssl c \<and> length (cn_parsers c') = length (cn_parsers c) \<and>
     (cn_closing c \<longrightarrow> cn_closing c')"

lemma same_frame_refl [simp]: "same_frame c c"
  by (simp add: same_frame_def)

lemma same_frame_trans: "same_frame a b \<Longrightarrow> same_frame b c \<Longrightarrow> same_frame a c"
  by (simp add: same_frame_def)

lemma same_frame_settle: "same_frame c (settle pr f st c)"
  by (auto simp: same_frame_def settle_def done_callback_def Let_def
      split: option.splits fut_state.splits)

lemma same_frame_closing: "same_frame c (c\<lparr>cn_closing := True\<rparr>)"
  by (simp add: same_frame_def)

text \<open>The invariant: the list holds exactly the futures without an outcome, each once, and
  identities are not reused.\<close>

definition conn_inv :: "'p conn \<Rightarrow> bool" where
  "conn_inv c \<longleftrightarrow>
     distinct (cn_futures c) \<and> (\<forall>f. f \<in> set (cn_futures c) \<longleftrightarrow> pending c f) \<and>
     (\<forall>f. cn_next c \<le> f \<longrightarrow> cn_table c f = None)"

lemma pending_settle: "st \<noteq> Pending \<Longrightarrow> pending (settle pr f st c) g \<longleftrightarrow> pending c g \<and> g \<noteq> f"
  by (auto simp: pending_def settle_table split: option.splits)

lemma closes_settle [simp]: "closes (settle pr f st c) g = closes c g"
  by (auto simp: closes_def settle_table split: option.splits)

lemma conn_inv_settle:
  assumes "conn_inv c" and "st \<noteq> Pending"
  shows "conn_inv (settle pr f st c)"
proof -
  have next_same: "cn_next (settle pr f st c) = cn_next c"
    using same_frame_settle [of c pr f st] by (simp add: same_frame_def)
  have "cn_table c f = None \<Longrightarrow> \<not> pending c f" by (simp add: pending_def)
  with assms have "\<forall>g. g \<in> set (cn_futures (settle pr f st c)) \<longleftrightarrow> pending (settle pr f st c) g"
    by (auto simp: conn_inv_def settle_futures pending_settle)
  with assms(1) next_same show ?thesis
    by (auto simp: conn_inv_def settle_futures settle_table)
qed

lemma conn_inv_closing: "conn_inv c \<Longrightarrow> conn_inv (c\<lparr>cn_closing := True\<rparr>)"
  by (simp add: conn_inv_def pending_def)

section \<open>The closing loop\<close>

text \<open>The interface of every fact that the loops keep: what settling a future keeps, and marking the
  transport as closing keeps, the loops keep.\<close>

locale loop_property =
  fixes pr :: "'p protocol" and P :: "'p conn \<Rightarrow> bool"
  assumes P_settle: "st \<noteq> Pending \<Longrightarrow> P c \<Longrightarrow> P (settle pr f st c)"
    and P_closing: "P c \<Longrightarrow> P (c\<lparr>cn_closing := True\<rparr>)"
begin

lemma P_close_loop: "P c \<Longrightarrow> P (close_loop n pr i c)"
proof (induction n arbitrary: i c)
  case 0
  then show ?case by simp
next
  case (Suc n)
  then show ?case by (simp add: Let_def P_settle P_closing)
qed

lemma P_conn_close: "P c \<Longrightarrow> P (conn_close pr c)"
  unfolding conn_close_def by (intro P_close_loop P_closing)

lemma P_complete: "st \<noteq> Pending \<Longrightarrow> P c \<Longrightarrow> P (complete pr f st c)"
  by (simp add: complete_def Let_def P_settle P_conn_close)

lemma P_lost_from: "P c \<Longrightarrow> n = length (cn_futures c) - i \<Longrightarrow> P (lost_loop pr i c)"
proof (induction n arbitrary: i c rule: less_induct)
  case (less n)
  show ?case
  proof (cases "i < length (cn_futures c)")
    case False
    with less.prems show ?thesis by (simp add: lost_loop.simps [of pr i c])
  next
    case True
    let ?c = "complete pr (cn_futures c ! i) Cancelled c"
    have "length (cn_futures ?c) - Suc i < n"
      using True less.prems(2) length_complete [of pr "cn_futures c ! i" Cancelled c] by simp
    moreover have "P ?c" using less.prems(1) by (simp add: P_complete)
    ultimately have "P (lost_loop pr (Suc i) ?c)" using less.IH by blast
    with True show ?thesis by (simp add: lost_loop.simps [of pr i c])
  qed
qed

lemma P_connection_lost: "P c \<Longrightarrow> P (connection_lost pr c)"
  unfolding connection_lost_def by (rule P_lost_from [OF P_closing refl])

end

interpretation inv: loop_property pr conn_inv for pr :: "'p protocol"
  by unfold_locales (simp_all add: conn_inv_settle conn_inv_closing)

interpretation frame: loop_property pr "same_frame c" for pr :: "'p protocol" and c :: "'p conn"
  by unfold_locales
    (blast intro: same_frame_trans same_frame_settle same_frame_closing)+

lemma listed_in_table: "conn_inv c \<Longrightarrow> f \<in> set (cn_futures c) \<Longrightarrow> cn_table c f \<noteq> None"
  by (cases "cn_table c f") (auto simp: conn_inv_def pending_def)

text \<open>Enough fuel: a turn of the loop shortens the list.\<close>

lemma settle_shortens:
  assumes "conn_inv c" and "f \<in> set (cn_futures c)"
  shows "length (cn_futures (settle pr f st c)) < length (cn_futures c)"
proof -
  have "cn_table c f \<noteq> None" using assms by (rule listed_in_table)
  moreover have "0 < length (cn_futures c)" using assms(2) by (rule length_pos_if_in_set)
  ultimately show ?thesis using assms(2) by (simp add: settle_futures length_remove1)
qed

lemma close_loop_fuel:
  "conn_inv c \<Longrightarrow> length (cn_futures c) < n \<Longrightarrow> close_loop (Suc n) pr i c = close_loop n pr i c"
proof (induction n arbitrary: i c)
  case 0
  then show ?case by simp
next
  case (Suc n)
  show ?case
  proof (cases "i < length (cn_futures c)")
    case False
    then show ?thesis by simp
  next
    case True
    define c1 where "c1 = settle pr (cn_futures c ! i) (Failed CloseException) c"
    have c1: "conn_inv c1" "length (cn_futures c1) < n"
      using Suc.prems True settle_shortens [of c "cn_futures c ! i" pr "Failed CloseException"]
      by (simp_all add: c1_def conn_inv_settle)
    have inner: "close_loop (Suc n) pr 0 (c1\<lparr>cn_closing := True\<rparr>) = close_loop n pr 0 (c1\<lparr>cn_closing := True\<rparr>)"
      using c1 by (intro Suc.IH) (simp_all add: conn_inv_closing)
    define c2 where "c2 = (if closes c (cn_futures c ! i)
      then close_loop n pr 0 (c1\<lparr>cn_closing := True\<rparr>) else c1)"
    have "conn_inv c2" "length (cn_futures c2) < n"
      using c1 length_close_loop [of n pr 0 "c1\<lparr>cn_closing := True\<rparr>"]
      by (auto simp: c2_def inv.P_close_loop conn_inv_closing)
    then have outer: "close_loop (Suc n) pr (Suc i) c2 = close_loop n pr (Suc i) c2" by (rule Suc.IH)
    have "close_loop (Suc (Suc n)) pr i c = close_loop (Suc n) pr (Suc i) c2"
      unfolding close_loop.simps(2) [of "Suc n"] using True inner
      by (simp add: Let_def c1_def c2_def del: close_loop.simps)
    also have "\<dots> = close_loop (Suc n) pr i c"
      unfolding outer using True by (simp add: Let_def c1_def c2_def)
    finally show ?thesis .
  qed
qed

lemma conn_close_fuel:
  assumes "conn_inv c" and "length (cn_futures c) < n"
  shows "conn_close pr c = close_loop n pr 0 (c\<lparr>cn_closing := True\<rparr>)"
proof -
  have "close_loop (length (cn_futures c) + Suc k) pr 0 (c\<lparr>cn_closing := True\<rparr>) = conn_close pr c" for k
  proof (induction k)
    case 0
    then show ?case by (simp add: conn_close_def)
  next
    case (Suc k)
    have "close_loop (Suc (length (cn_futures c) + Suc k)) pr 0 (c\<lparr>cn_closing := True\<rparr>) =
        close_loop (length (cn_futures c) + Suc k) pr 0 (c\<lparr>cn_closing := True\<rparr>)"
      using assms(1) by (intro close_loop_fuel) (simp_all add: conn_inv_closing)
    with Suc show ?case by simp
  qed
  from this [of "n - Suc (length (cn_futures c))"] assms(2) show ?thesis by simp
qed

section \<open>Skipped futures\<close>

text \<open>A loop that removes the element it stands on and then moves on sees every second element.\<close>

fun every_second :: "'a list \<Rightarrow> 'a list" where
  "every_second [] = []"
| "every_second [x] = []"
| "every_second (x # y # xs) = y # every_second xs"

lemma remove1_nth: "distinct xs \<Longrightarrow> i < length xs \<Longrightarrow> remove1 (xs ! i) xs = take i xs @ drop (Suc i) xs"
proof (induction xs arbitrary: i)
  case Nil
  then show ?case by simp
next
  case (Cons x xs)
  then show ?case by (cases i) auto
qed

lemma every_second_drop:
  assumes "i < length xs"
  shows "take i xs @ every_second (drop i xs) =
    take (Suc i) (take i xs @ drop (Suc i) xs) @ every_second (drop (Suc i) (take i xs @ drop (Suc i) xs))"
proof -
  have "drop i xs = xs ! i # drop (Suc i) xs" using assms by (simp add: Cons_nth_drop_Suc)
  then show ?thesis using assms by (cases "drop (Suc i) xs") simp_all
qed

definition none_closes :: "'p conn \<Rightarrow> bool" where
  "none_closes c \<longleftrightarrow> (\<forall>f. \<not> closes c f)"

lemma none_closes_settle [simp]: "none_closes (settle pr f st c) = none_closes c"
  by (simp add: none_closes_def)

lemma none_closes_closing [simp]: "none_closes (c\<lparr>cn_closing := True\<rparr>) = none_closes c"
  by (simp add: none_closes_def closes_def)

lemma settle_nth:
  assumes "conn_inv c" and "i < length (cn_futures c)"
  shows "cn_futures (settle pr (cn_futures c ! i) st c) =
    take i (cn_futures c) @ drop (Suc i) (cn_futures c)"
proof -
  have "cn_table c (cn_futures c ! i) \<noteq> None"
    using assms(1) nth_mem [OF assms(2)] by (rule listed_in_table)
  then show ?thesis using assms by (auto simp: settle_futures remove1_nth conn_inv_def)
qed

lemma lost_loop_skips:
  assumes "conn_inv c" and "none_closes c"
  shows "cn_futures (lost_loop pr i c) = take i (cn_futures c) @ every_second (drop i (cn_futures c))"
  using assms
proof (induction "length (cn_futures c) - i" arbitrary: i c rule: less_induct)
  case less
  show ?case
  proof (cases "i < length (cn_futures c)")
    case False
    then show ?thesis by (simp add: lost_loop.simps [of pr i c])
  next
    case True
    let ?f = "cn_futures c ! i"
    have "pending c ?f" using less.prems(1) True nth_mem by (auto simp: conn_inv_def)
    then have step: "complete pr ?f Cancelled c = settle pr ?f Cancelled c"
      using less.prems(2) by (simp add: complete_def Let_def none_closes_def)
    have fs: "cn_futures (settle pr ?f Cancelled c) =
        take i (cn_futures c) @ drop (Suc i) (cn_futures c)"
      using less.prems(1) True by (rule settle_nth)
    have "cn_futures (lost_loop pr (Suc i) (settle pr ?f Cancelled c)) =
        take (Suc i) (cn_futures (settle pr ?f Cancelled c)) @
        every_second (drop (Suc i) (cn_futures (settle pr ?f Cancelled c)))"
      using less.prems True fs by (intro less.hyps) (simp_all add: conn_inv_settle)
    also have "\<dots> = take i (cn_futures c) @ every_second (drop i (cn_futures c))"
      unfolding fs using every_second_drop [OF True] by simp
    finally show ?thesis using True step by (simp add: lost_loop.simps [of pr i c])
  qed
qed

lemma close_loop_skips:
  assumes "conn_inv c" and "none_closes c" and "length (cn_futures c) < n + i"
  shows "cn_futures (close_loop n pr i c) = take i (cn_futures c) @ every_second (drop i (cn_futures c))"
  using assms
proof (induction n arbitrary: i c)
  case 0
  then show ?case by simp
next
  case (Suc n)
  show ?case
  proof (cases "i < length (cn_futures c)")
    case False
    then show ?thesis by simp
  next
    case True
    let ?f = "cn_futures c ! i"
    let ?c = "settle pr ?f (Failed CloseException) c"
    have fs: "cn_futures ?c = take i (cn_futures c) @ drop (Suc i) (cn_futures c)"
      using Suc.prems(1) True by (rule settle_nth)
    have "cn_futures (close_loop n pr (Suc i) ?c) =
        take (Suc i) (cn_futures ?c) @ every_second (drop (Suc i) (cn_futures ?c))"
      using Suc.prems True fs by (intro Suc.IH) (simp_all add: conn_inv_settle)
    also have "\<dots> = take i (cn_futures c) @ every_second (drop i (cn_futures c))"
      unfolding fs using every_second_drop [OF True] by simp
    finally show ?thesis
      using True Suc.prems(2) by (simp add: Let_def none_closes_def)
  qed
qed

section \<open>All events\<close>

inductive conn_step :: "'p protocol \<Rightarrow> 'p conn \<Rightarrow> 'p conn \<Rightarrow> bool" for pr where
  made: "conn_step pr c (connection_made pr c)"
| received: "data_received pr data c = (e, c') \<Longrightarrow> conn_step pr c c'"
| returned: "cn_table c f = Some fu \<Longrightarrow> fu_stage fu = Handling \<Longrightarrow>
    conn_step pr c (handler_returned pr f resp c)"
| raised: "cn_table c f = Some fu \<Longrightarrow> fu_stage fu = Handling \<Longrightarrow>
    conn_step pr c (handler_raised pr f e c)"
| pushed: "cn_table c f = Some fu \<Longrightarrow> fu_stage fu = Pushing ps \<Longrightarrow> map_of ps k = Some req \<Longrightarrow>
    conn_step pr c (push_returned pr f k resp c)"
| push_failed: "cn_table c f = Some fu \<Longrightarrow> fu_stage fu = Pushing ps \<Longrightarrow> map_of ps k = Some req \<Longrightarrow>
    conn_step pr c (push_raised pr f k e c)"
| lost: "conn_step pr c (connection_lost pr c)"

inductive conn_reachable :: "'p protocol \<Rightarrow> 'p conn \<Rightarrow> bool" for pr where
  start: "conn_reachable pr (new_conn parsers ssl response_500)"
| step: "conn_reachable pr c \<Longrightarrow> conn_step pr c c' \<Longrightarrow> conn_reachable pr c'"

lemma conn_inv_new: "conn_inv (new_conn parsers ssl r500)"
  by (simp add: conn_inv_def new_conn_def pending_def)

lemma conn_inv_cong:
  "cn_futures c' = cn_futures c \<Longrightarrow> cn_table c' = cn_table c \<Longrightarrow> cn_next c' = cn_next c \<Longrightarrow>
   conn_inv c' = conn_inv c"
  by (simp add: conn_inv_def pending_def)

lemma pending_set_fut:
  assumes "\<And>fu. fu_state (g fu) = fu_state fu"
  shows "pending (set_fut f g c) h = pending c h"
  using assms by (auto simp: pending_def set_fut_def split: option.splits)

lemma conn_inv_set_fut:
  assumes "\<And>fu. fu_state (g fu) = fu_state fu" and "conn_inv c"
  shows "conn_inv (set_fut f g c)"
  using assms(2) by (simp add: conn_inv_def pending_set_fut [OF assms(1)]) (simp add: set_fut_def)

lemma conn_inv_write [simp]: "conn_inv (conn_write data c) = conn_inv c"
  by (simp add: conn_inv_def conn_write_def pending_def)

lemma conn_inv_schedule: "conn_inv c \<Longrightarrow> conn_inv (schedule req c)"
proof -
  assume inv: "conn_inv c"
  then have "\<not> pending c (cn_next c)" by (simp add: conn_inv_def pending_def)
  with inv have "cn_next c \<notin> set (cn_futures c)" by (simp add: conn_inv_def)
  with inv show ?thesis
    by (auto simp: conn_inv_def schedule_def pending_def begin_request_def)
qed

lemma conn_inv_schedule_all: "conn_inv c \<Longrightarrow> conn_inv (foldl (\<lambda>d req. schedule req d) c reqs)"
  by (induction reqs arbitrary: c) (simp_all add: conn_inv_schedule)

lemma conn_parse_frame:
  assumes "conn_parse pr data c = (res, c')"
  shows "cn_futures c' = cn_futures c" "cn_table c' = cn_table c" "cn_next c' = cn_next c"
    "cn_out c' = cn_out c" "cn_closing c' = cn_closing c" "cn_connected c' = cn_connected c"
    "cn_resp500 c' = cn_resp500 c"
  using assms by (auto simp: conn_parse_def split: option.splits prod.splits)

lemma write_response_frame:
  assumes "write_response pr resp req c = (e, resp', c')"
  shows "cn_futures c' = cn_futures c" "cn_table c' = cn_table c" "cn_next c' = cn_next c"
    "cn_parser c' = cn_parser c" "cn_closing c' = cn_closing c" "cn_connected c' = cn_connected c"
    "cn_resp500 c' = cn_resp500 c"
  using assms by (auto simp: write_response_def split: option.splits prod.splits)

lemma conn_inv_write_response:
  "write_response pr resp req c = (e, resp', c') \<Longrightarrow> conn_inv c' = conn_inv c"
  by (intro conn_inv_cong) (auto dest: write_response_frame)

lemma failure_not_pending [simp]: "failure e \<noteq> Pending"
  by (simp add: failure_def)

lemma conn_inv_received:
  assumes "conn_inv c" and "data_received pr data c = (e, c')"
  shows "conn_inv c'"
proof -
  obtain res c1 where parse: "conn_parse pr data c = (res, c1)" by (cases "conn_parse pr data c")
  have c1: "conn_inv c1"
    using assms(1) conn_parse_frame [OF parse] by (simp add: conn_inv_def pending_def)
  then show ?thesis
    using assms(2) parse
    by (auto simp: data_received_def Let_def inv.P_conn_close conn_inv_set_fut conn_inv_schedule_all
        split: sum.splits option.splits if_splits)
qed

lemma conn_inv_returned: "conn_inv c \<Longrightarrow> conn_inv (handler_returned pr f resp c)"
  by (auto simp: handler_returned_def conn_inv_set_fut conn_inv_write_response inv.P_complete
      split: option.splits prod.splits)

lemma conn_inv_pushed: "conn_inv c \<Longrightarrow> conn_inv (push_returned pr f k resp c)"
  by (auto simp: push_returned_def conn_inv_set_fut conn_inv_write_response inv.P_complete
      split: option.splits prod.splits stage.splits)

lemma conn_step_inv: "conn_step pr c c' \<Longrightarrow> conn_inv c \<Longrightarrow> conn_inv c'"
proof (induction rule: conn_step.induct)
  case (made c)
  then show ?case by (simp add: connection_made_def conn_inv_def pending_def)
next
  case (received data c e c')
  then show ?case by (blast intro: conn_inv_received)
qed (simp_all add: conn_inv_returned conn_inv_pushed handler_raised_def push_raised_def
    inv.P_complete inv.P_connection_lost conn_inv_set_fut)

lemma conn_reachable_inv: "conn_reachable pr c \<Longrightarrow> conn_inv c"
  by (induction rule: conn_reachable.induct) (auto intro: conn_inv_new conn_step_inv)

subsection \<open>The selected parser\<close>

lemma conn_parse_selected: "conn_parse pr data c = (res, c') \<Longrightarrow> cn_parser c = Some i \<Longrightarrow> cn_parser c' = Some i"
  by (auto simp: conn_parse_def split: prod.splits)

lemma schedule_all_parser [simp]: "cn_parser (foldl (\<lambda>d req. schedule req d) c reqs) = cn_parser c"
  by (induction reqs arbitrary: c) (simp_all add: schedule_def)

lemma close_parser [simp]: "cn_parser (conn_close pr c) = cn_parser c"
proof -
  have "same_frame c (conn_close pr c)" by (rule frame.P_conn_close) (rule same_frame_refl)
  then show ?thesis by (simp add: same_frame_def)
qed

lemma complete_parser [simp]: "st \<noteq> Pending \<Longrightarrow> cn_parser (complete pr f st c) = cn_parser c"
proof -
  assume "st \<noteq> Pending"
  then have "same_frame c (complete pr f st c)" by (rule frame.P_complete) (rule same_frame_refl)
  then show ?thesis by (simp add: same_frame_def)
qed

lemma lost_parser [simp]: "cn_parser (connection_lost pr c) = cn_parser c"
proof -
  have "same_frame c (connection_lost pr c)" by (rule frame.P_connection_lost) (rule same_frame_refl)
  then show ?thesis by (simp add: same_frame_def)
qed

lemma received_parser:
  assumes "data_received pr data c = (e, c')" and "cn_parser c = Some i"
  shows "cn_parser c' = Some i"
proof -
  obtain res c1 where parse: "conn_parse pr data c = (res, c1)" by (cases "conn_parse pr data c")
  with assms(2) have "cn_parser c1 = Some i" by (rule_tac conn_parse_selected)
  with assms(1) parse show ?thesis
    by (auto simp: data_received_def Let_def conn_write_def split: sum.splits option.splits if_splits)
qed

lemma conn_step_parser: "conn_step pr c c' \<Longrightarrow> cn_parser c = Some i \<Longrightarrow> cn_parser c' = Some i"
proof (induction rule: conn_step.induct)
  case (received data c e c')
  then show ?case by (blast intro: received_parser)
qed (auto simp: connection_made_def handler_returned_def handler_raised_def push_returned_def
    push_raised_def split: option.splits prod.splits stage.splits dest: write_response_frame(4))

lemma parse_loop_first:
  assumes "list_all (\<lambda>p. fst (pr_request pr p data) = Inl ParseError) ps"
    and "pr_request pr p data = (Inr parsed, p')"
  shows "parse_loop pr data i (ps @ p # qs) =
    (Inr (Some parsed), map (\<lambda>p. snd (pr_request pr p data)) ps @ p' # qs, Some (i + length ps))"
  using assms
proof (induction ps arbitrary: i)
  case Nil
  then show ?case by simp
next
  case (Cons q ps)
  then show ?case by (cases "pr_request pr q data") auto
qed

lemma parse_loop_none:
  assumes "list_all (\<lambda>p. fst (pr_request pr p data) = Inl ParseError) ps"
  shows "parse_loop pr data i ps = (Inr None, map (\<lambda>p. snd (pr_request pr p data)) ps, None)"
  using assms
proof (induction ps arbitrary: i)
  case Nil
  then show ?case by simp
next
  case (Cons q ps)
  then show ?case by (cases "pr_request pr q data") auto
qed

subsection \<open>The parser contract\<close>

text \<open>What the connection relies on: printing a response may change its headers only. Then the shared
  \<open>response_500\<close> stays an error response, whatever it was used for.\<close>

definition resp500_ok :: "'p conn \<Rightarrow> bool" where
  "resp500_ok c \<longleftrightarrow>
     rs_status (cn_resp500 c) = 500 \<and> rs_body (cn_resp500 c) = ''Sorry'' \<and>
     rs_pushes (cn_resp500 c) = [] \<and> \<not> rs_push (cn_resp500 c)"

lemma resp500_ok_frame [simp]:
  "resp500_ok (c\<lparr>cn_futures := fs\<rparr>) = resp500_ok c"
  "resp500_ok (c\<lparr>cn_closing := b\<rparr>) = resp500_ok c"
  "resp500_ok (set_fut f g c) = resp500_ok c"
  "resp500_ok (conn_write data c) = resp500_ok c"
  "resp500_ok (schedule req c) = resp500_ok c"
  "resp500_ok (connection_made pr c) = resp500_ok c"
  by (simp_all add: resp500_ok_def conn_write_def schedule_def connection_made_def)

lemma resp500_ok_schedule_all [simp]:
  "resp500_ok (foldl (\<lambda>d req. schedule req d) c reqs) = resp500_ok c"
  by (induction reqs arbitrary: c) simp_all

lemma resp500_ok_write_response:
  "write_response pr resp req c = (e, resp', c') \<Longrightarrow> resp500_ok c' = resp500_ok c"
  by (simp add: resp500_ok_def write_response_frame(7))

locale parser_protocol =
  fixes pr :: "'p protocol"
  assumes response_keeps: "pr_response pr p resp req = ((y, resp'), p') \<Longrightarrow>
    rs_status resp' = rs_status resp \<and> rs_body resp' = rs_body resp \<and>
    rs_pushes resp' = rs_pushes resp \<and> rs_push resp' = rs_push resp"
begin

lemma write_500_keeps: "resp500_ok c \<Longrightarrow> resp500_ok (write_500 pr req c)"
  by (auto simp: write_500_def write_response_def resp500_ok_def
      split: option.splits prod.splits dest!: response_keeps)

lemma settle_resp500: "resp500_ok c \<Longrightarrow> resp500_ok (settle pr f st c)"
  by (auto simp: settle_def done_callback_def Let_def
      split: option.splits fut_state.splits intro!: write_500_keeps)

sublocale resp500: loop_property pr resp500_ok
  by unfold_locales (rule settle_resp500, assumption, simp)

lemma received_resp500:
  assumes "resp500_ok c" and "data_received pr data c = (e, c')"
  shows "resp500_ok c'"
proof -
  obtain res c1 where parse: "conn_parse pr data c = (res, c1)" by (cases "conn_parse pr data c")
  then have c1: "resp500_ok c1" using assms(1) by (simp add: resp500_ok_def conn_parse_frame(7))
  with assms(2) parse show ?thesis
    by (auto simp: data_received_def Let_def split: sum.splits option.splits if_splits
        intro!: resp500.P_conn_close)
qed

lemma step_resp500: "conn_step pr c c' \<Longrightarrow> resp500_ok c \<Longrightarrow> resp500_ok c'"
proof (induction rule: conn_step.induct)
  case (received data c e c')
  then show ?case by (blast intro: received_resp500)
next
  case (lost c)
  then show ?case by (rule resp500.P_connection_lost)
qed (auto simp: handler_returned_def handler_raised_def push_returned_def push_raised_def
    split: option.splits prod.splits stage.splits intro!: resp500.P_complete
    dest: resp500_ok_write_response)

lemma reachable_resp500: "conn_reachable pr c \<Longrightarrow> resp500_ok c"
proof (induction rule: conn_reachable.induct)
  case (start parsers scheme)
  show ?case by (simp add: resp500_ok_def new_conn_def response_500_def new_response_def)
next
  case (step c c')
  then show ?case by (blast intro: step_resp500)
qed

end


section \<open>One request\<close>

lemma pending_table: "pending c f \<Longrightarrow> \<exists>fu. cn_table c f = Some fu \<and> fu_state fu = Pending"
  by (auto simp: pending_def split: option.splits)

lemma write_500_out:
  "cn_out (write_500 pr req c) = cn_out c @
     (if cn_connected c \<and> \<not> cn_closing c then
        (case cn_parser c of None \<Rightarrow> []
         | Some i \<Rightarrow> fst (fst (fst (pr_response pr (cn_parsers c ! i) (cn_resp500 c) req))))
      else [])"
  by (auto simp: write_500_def write_response_def split: option.split prod.split)

lemma settle_out:
  assumes "cn_table c f = Some fu"
  shows "cn_out (settle pr f st c) =
    (case st of Done \<Rightarrow> cn_out c | _ \<Rightarrow> cn_out (write_500 pr (fu_request fu) c))"
  using assms
  by (auto simp: settle_def done_callback_def Let_def set_fut_def write_500_out
      split: fut_state.split option.split)

lemma complete_settle: "pending c f \<Longrightarrow> \<not> closes c f \<Longrightarrow> complete pr f st c = settle pr f st c"
  by (simp add: complete_def Let_def)

lemma closes_set_fut:
  assumes "\<And>fu. fu_closes (g fu) = fu_closes fu"
  shows "closes (set_fut f g c) h = closes c h"
  using assms by (auto simp: closes_def set_fut_def split: option.splits)

section \<open>A parser for the examples\<close>

text \<open>The line-based parser behind the interface; it keeps no state.\<close>

definition simple_protocol :: "unit protocol" where
  "simple_protocol =
     \<lparr>pr_connect = (\<lambda>p. p), pr_request = (\<lambda>p data. (simple_handle_request data, p)),
      pr_response = (\<lambda>p resp req. (simple_handle_response resp, p)), pr_push_support = (\<lambda>p. False)\<rparr>"

interpretation simple: parser_protocol simple_protocol
proof
  fix p :: unit and resp resp' y p' and req :: request
  assume "pr_response simple_protocol p resp req = ((y, resp'), p')"
  then have "resp' = with_length resp"
    using simple_response_state [of resp] by (simp add: simple_protocol_def del: simple_response_state)
  then show "rs_status resp' = rs_status resp \<and> rs_body resp' = rs_body resp \<and>
    rs_pushes resp' = rs_pushes resp \<and> rs_push resp' = rs_push resp" by simp
qed

text \<open>A connection that received \<open>n\<close> requests, all in progress.\<close>

definition received_get :: "unit conn \<Rightarrow> unit conn" where
  "received_get c = snd (data_received simple_protocol ''GET /a HTTP/1.1'' c)"

definition busy :: "nat \<Rightarrow> unit conn" where
  "busy n = (received_get ^^ n)
     (connection_made simple_protocol (new_conn [()] False response_500))"

lemma busy_reachable: "conn_reachable simple_protocol (busy n)"
proof (induction n)
  case 0
  have "conn_step simple_protocol (new_conn [()] False response_500)
      (connection_made simple_protocol (new_conn [()] False response_500))"
    by (rule conn_step.made)
  then show ?case unfolding busy_def by (auto intro: conn_reachable.intros)
next
  case (Suc n)
  have "conn_step simple_protocol (busy n) (received_get (busy n))"
    unfolding received_get_def by (rule conn_step.received [OF prod.collapse [symmetric]])
  with Suc have "conn_reachable simple_protocol (received_get (busy n))"
    by (rule conn_reachable.step)
  then show ?case by (simp add: busy_def)
qed

definition get_a :: request where
  "get_a = new_request ''/a'' ''GET'' None [] ''HTTP/1.1'' 0 ''http''"

lemma get_a_parsed: "simple_handle_request ''GET /a HTTP/1.1'' = Inr ([], [get_a], False)"
  by code_simp

text \<open>The same state, written out.\<close>

definition busy_state :: "nat \<Rightarrow> unit conn" where
  "busy_state n =
     \<lparr>cn_connected = True, cn_closing = False, cn_out = [], cn_ssl = False, cn_parsers = [()],
      cn_parser = (if n = 0 then None else Some 0), cn_futures = [0..<n],
      cn_table = (\<lambda>f. if f < n then Some (begin_request get_a) else None), cn_next = n,
      cn_resp500 = response_500\<rparr>"

lemma received_get_busy: "received_get (busy_state n) = busy_state (Suc n)"
  by (auto simp: received_get_def data_received_def conn_parse_def busy_state_def simple_protocol_def
      get_a_parsed Let_def schedule_def)

lemma busy_eq: "busy n = busy_state n"
proof (induction n)
  case 0
  show ?case
    by (simp add: busy_def connection_made_def new_conn_def busy_state_def simple_protocol_def)
next
  case (Suc n)
  then show ?case by (simp add: busy_def received_get_busy)
qed

lemma busy_facts [simp]:
  "cn_futures (busy n) = [0..<n]" "none_closes (busy n)" "cn_connected (busy n)"
  "\<not> cn_closing (busy n)" "cn_out (busy n) = []" "cn_parsers (busy n) = [()]"
  "cn_resp500 (busy n) = response_500" "cn_parser (busy n) = (if n = 0 then None else Some 0)"
  "cn_table (busy n) f = (if f < n then Some (begin_request get_a) else None)"
  "pending (busy n) f \<longleftrightarrow> f < n" "\<not> closes (busy n) f"
  by (simp_all add: busy_eq busy_state_def none_closes_def closes_def pending_def begin_request_def)

section \<open>Properties\<close>

text \<open>C12: Whatever the peer and the handlers do, in any order, the list of futures of a connection
  holds exactly the requests that have no outcome yet, each once.\<close>

theorem conn_futures_pending:
  assumes "conn_reachable pr c"
  shows "distinct (cn_futures c) \<and> (\<forall>f. f \<in> set (cn_futures c) \<longleftrightarrow> pending c f)"
  using conn_reachable_inv [OF assms] by (simp add: conn_inv_def)

theorem conn_futures_pending_witness:
  "distinct (cn_futures (busy 3)) \<and> (\<forall>f. f \<in> set (cn_futures (busy 3)) \<longleftrightarrow> pending (busy 3) f)"
  by (rule conn_futures_pending) (rule busy_reachable)

text \<open>C33: Losing the connection, and closing it, end only every second of the requests in progress:
  the loops over \<open>_futures\<close> run callbacks that remove the future from the list they iterate over.\<close>

theorem lost_and_close_skip:
  assumes "conn_reachable pr c" and "none_closes c"
  shows "cn_futures (connection_lost pr c) = every_second (cn_futures c) \<and>
    cn_futures (conn_close pr c) = every_second (cn_futures c)"
proof -
  have "conn_inv (c\<lparr>cn_closing := True\<rparr>)"
    using assms(1) by (intro conn_inv_closing conn_reachable_inv)
  with assms(2) show ?thesis
    using lost_loop_skips [of "c\<lparr>cn_closing := True\<rparr>" pr 0]
      close_loop_skips [of "c\<lparr>cn_closing := True\<rparr>" "Suc (length (cn_futures c))" 0 pr]
    by (simp add: connection_lost_def conn_close_def)
qed

theorem lost_and_close_skip_witness:
  "cn_futures (connection_lost simple_protocol (busy 3)) = [1] \<and>
   cn_futures (conn_close simple_protocol (busy 3)) = [1]"
  using lost_and_close_skip [OF busy_reachable, of 3] by (simp add: upt_rec)

text \<open>The parser is chosen by the first data that one of them takes: the first parser in order
  that does not raise \<open>ParseError\<close>.\<close>

theorem first_parser_selected:
  assumes "cn_parser c = None" and "cn_parsers c = ps @ p # qs"
    and "list_all (\<lambda>q. fst (pr_request pr q data) = Inl ParseError) ps"
    and "pr_request pr p data = (Inr parsed, p')"
  shows "cn_parser (snd (data_received pr data c)) = Some (length ps) \<and>
    fst (data_received pr data c) = None"
proof -
  obtain out reqs close where parsed: "parsed = (out, reqs, close)" by (cases parsed)
  have "conn_parse pr data c =
    (Inr (Some parsed),
     c\<lparr>cn_parsers := map (\<lambda>p. snd (pr_request pr p data)) ps @ p' # qs,
       cn_parser := Some (length ps)\<rparr>)"
    using parse_loop_first [OF assms(3,4), of 0 qs] assms(1,2) by (simp add: conn_parse_def)
  then show ?thesis by (simp add: data_received_def Let_def parsed conn_write_def)
qed

theorem first_parser_selected_witness:
  "cn_parser (snd (data_received simple_protocol ''GET /a HTTP/1.1'' (new_conn [()] False response_500)))
     = Some (length ([] :: unit list)) \<and>
   fst (data_received simple_protocol ''GET /a HTTP/1.1'' (new_conn [()] False response_500)) = None"
proof (rule first_parser_selected [where qs = "[]" and p = "()"])
  show "pr_request simple_protocol () ''GET /a HTTP/1.1'' =
    (Inr (the (case simple_handle_request ''GET /a HTTP/1.1'' of Inl e \<Rightarrow> None | Inr x \<Rightarrow> Some x)), ())"
    by code_simp
qed (simp_all add: new_conn_def)

text \<open>Once chosen, the parser never changes, whatever happens on the connection.\<close>

theorem parser_sticks:
  assumes "(conn_step pr)\<^sup>*\<^sup>* c c'" and "cn_parser c = Some i"
  shows "cn_parser c' = Some i"
  using assms by (induction rule: rtranclp_induct) (auto dest: conn_step_parser)

theorem parser_sticks_witness:
  "cn_parser (connection_lost simple_protocol (busy 3)) = Some 0"
proof (rule parser_sticks)
  show "(conn_step simple_protocol)\<^sup>*\<^sup>* (busy 3) (connection_lost simple_protocol (busy 3))"
    by (rule r_into_rtranclp) (rule conn_step.lost)
qed simp

text \<open>Data that no parser takes makes \<open>data_received\<close> raise \<open>TypeError\<close> (\<open>_parse\<close> returns
  \<open>None\<close>, which cannot be unpacked); nothing is written, no request starts and the connection is not
  closed.\<close>

theorem unparsed_data:
  assumes "cn_parser c = None"
    and "list_all (\<lambda>p. fst (pr_request pr p data) = Inl ParseError) (cn_parsers c)"
  shows "data_received pr data c =
    (Some TypeError, c\<lparr>cn_parsers := map (\<lambda>p. snd (pr_request pr p data)) (cn_parsers c)\<rparr>)"
  using parse_loop_none [OF assms(2), of 0] assms(1)
  by (simp add: data_received_def conn_parse_def)

theorem unparsed_data_witness:
  "data_received simple_protocol ''hello'' (new_conn [()] False response_500) =
     (Some TypeError, (new_conn [()] False response_500)
        \<lparr>cn_parsers := map (\<lambda>p. snd (pr_request simple_protocol p ''hello''))
           (cn_parsers (new_conn [()] False response_500 :: unit conn))\<rparr>)"
proof (rule unparsed_data)
  have "simple_handle_request ''hello'' = Inl ParseError" by code_simp
  then show "list_all (\<lambda>p. fst (pr_request simple_protocol p ''hello'') = Inl ParseError)
    (cn_parsers (new_conn [()] False response_500))"
    by (simp add: new_conn_def simple_protocol_def)
qed (simp add: new_conn_def)

text \<open>A handler that raises: the request leaves the list with an outcome, and the answer
  \<open>response_500\<close>, as the selected parser prints it, is written if the transport is open, and nothing
  is written otherwise.\<close>

theorem handler_failure_answer:
  assumes "pending c f" and "\<not> closes c f" and "cn_table c f = Some fu"
  shows "cn_futures (handler_raised pr f e c) = remove1 f (cn_futures c) \<and>
    \<not> pending (handler_raised pr f e c) f \<and>
    cn_out (handler_raised pr f e c) = cn_out c @
      (if cn_connected c \<and> \<not> cn_closing c then
         (case cn_parser c of None \<Rightarrow> []
          | Some i \<Rightarrow> fst (fst (fst (pr_response pr (cn_parsers c ! i) (cn_resp500 c) (fu_request fu)))))
       else [])"
proof -
  let ?g = "\<lambda>fu. fu\<lparr>fu_stage := Over\<rparr>"
  let ?c = "set_fut f ?g c"
  have c: "pending ?c f" "\<not> closes ?c f" "cn_table ?c f = Some (?g fu)"
    using assms by (simp_all add: pending_set_fut closes_set_fut) (simp add: set_fut_def)
  have "handler_raised pr f e c = settle pr f (failure e) ?c"
    using complete_settle [OF c(1,2)] by (simp add: handler_raised_def)
  moreover have "cn_out (settle pr f (failure e) ?c) = cn_out (write_500 pr (fu_request fu) ?c)"
    using settle_out [OF c(3)] by (simp add: failure_def)
  moreover have "cn_futures (settle pr f (failure e) ?c) = remove1 f (cn_futures c)"
    using c(3) by (simp add: settle_futures)
  moreover have "\<not> pending (settle pr f (failure e) ?c) f"
    by (simp add: pending_settle)
  ultimately show ?thesis by (auto simp: write_500_out split: option.split)
qed

theorem handler_failure_answer_witness:
  "cn_out (handler_raised simple_protocol 1 KeyError (busy 3)) =
     cn_out (busy 3) @ fst (fst (simple_handle_response response_500))"
  using handler_failure_answer [of "busy 3" 1 "begin_request get_a" simple_protocol KeyError]
  by (simp add: simple_protocol_def)

text \<open>A handler that returns a response without pushes: exactly the chunks that the selected
  parser prints for it are written, and the request leaves the list.\<close>

theorem handler_answer:
  assumes "pending c f" and "\<not> closes c f" and "cn_table c f = Some fu" and "cn_parser c = Some i"
    and "pr_response pr (cn_parsers c ! i) resp (fu_request fu) = (((chunks, None), resp'), p)"
    and "rs_pushes resp' = []"
  shows "cn_out (handler_returned pr f resp c) = cn_out c @ chunks \<and>
    cn_futures (handler_returned pr f resp c) = remove1 f (cn_futures c) \<and>
    \<not> pending (handler_returned pr f resp c) f"
proof -
  let ?g = "\<lambda>fu. fu\<lparr>fu_stage := Over\<rparr>"
  define c1 where "c1 = (set_fut f ?g c)\<lparr>cn_out := cn_out c @ chunks, cn_parsers := (cn_parsers c)[i := p]\<rparr>"
  have c: "pending c1 f" "\<not> closes c1 f" "cn_table c1 f = Some (?g fu)" "cn_parser c1 = Some i"
    "cn_futures c1 = cn_futures c" "cn_out c1 = cn_out c @ chunks"
    using assms(1-4) by (auto simp: c1_def pending_def closes_def set_fut_def)
  have "write_response pr resp (fu_request fu) (set_fut f ?g c) = (None, resp', c1)"
    using assms(4,5) by (simp add: write_response_def c1_def)
  then have "handler_returned pr f resp c = settle pr f Done c1"
    using assms(3,6) c(4) complete_settle [OF c(1,2)] by (simp add: handler_returned_def)
  then show ?thesis
    using settle_out [OF c(3), of pr Done] c(3,5,6) by (simp add: settle_futures pending_settle)
qed

theorem handler_answer_witness:
  "cn_out (handler_returned simple_protocol 2 (new_response 204 [] None [] False) (busy 3)) =
     cn_out (busy 3) @ [''HTTP/1.1 204 No Content'' @ CRLF, [], CRLF]"
  using handler_answer [of "busy 3" 2 "begin_request get_a" 0 simple_protocol
      "new_response 204 [] None [] False" "[''HTTP/1.1 204 No Content'' @ CRLF, [], CRLF]"
      "new_response 204 [] None [] False" "()"]
  by (simp add: simple_protocol_def simple_handle_response_def Let_def with_length_def
      new_response_def HTTP_STATUSES_def show_int_def show_nat.simps [of 204] show_nat.simps [of 20]
      show_nat.simps [of 2] char_of_def bit_Suc_0_iff)

text \<open>When a parser asks to close after some requests, the end of the last of them, however it
  ends, closes the transport.\<close>

theorem closing_future_closes:
  assumes "pending c f" and "closes c f" and "st \<noteq> Pending"
  shows "cn_closing (complete pr f st c)"
proof -
  let ?c = "settle pr f st c"
  have "same_frame (?c\<lparr>cn_closing := True\<rparr>) (close_loop (Suc (length (cn_futures ?c))) pr 0 (?c\<lparr>cn_closing := True\<rparr>))"
    by (rule frame.P_close_loop) (rule same_frame_refl)
  with assms(1,2) show ?thesis
    by (simp add: complete_def Let_def conn_close_def same_frame_def)
qed

theorem closing_future_closes_witness:
  "cn_closing (complete simple_protocol 0 Done (set_fut 0 (\<lambda>fu. fu\<lparr>fu_closes := True\<rparr>) (busy 1)))"
  by (rule closing_future_closes)
    (simp_all add: pending_def closes_def set_fut_def begin_request_def)

end
