(* ===== verification/PyText.thy ===== *)
theory PyText
  imports Prelude
begin

text \<open>
  Python text: \<open>str.encode()\<close> and \<open>bytes.decode()\<close> (UTF-8, strict), \<open>str.replace\<close> of one
  character and the fragment of \<open>str.format(**kwargs)\<close> that the sources use. A string is a list
  of code points; encoding refuses surrogates, decoding refuses everything that encoding cannot
  produce.
\<close>

text \<open>An ASCII literal as a string.\<close>

definition lit :: "char list \<Rightarrow> pystr" where
  "lit s = map of_char s"

section \<open>UTF-8\<close>

definition encode_point :: "nat \<Rightarrow> bytes option" where
  "encode_point n =
     (if n < 128 then Some [char_of n]
      else if n < 2048 then Some [char_of (192 + n div 64), char_of (128 + n mod 64)]
      else if 55296 \<le> n \<and> n \<le> 57343 then None
      else if n < 65536 then
        Some [char_of (224 + n div 4096), char_of (128 + n div 64 mod 64), char_of (128 + n mod 64)]
      else if n < 1114112 then
        Some [char_of (240 + n div 262144), char_of (128 + n div 4096 mod 64),
              char_of (128 + n div 64 mod 64), char_of (128 + n mod 64)]
      else None)"

fun encode :: "pystr \<Rightarrow> bytes result" where
  "encode [] = Inr []"
| "encode (n # ns) =
     (case encode_point n of
        None \<Rightarrow> Inl UnicodeError
      | Some b \<Rightarrow> (case encode ns of Inl e \<Rightarrow> Inl e | Inr bs \<Rightarrow> Inr (b @ bs)))"

definition cont :: "char \<Rightarrow> bool" where
  "cont c \<longleftrightarrow> 128 \<le> code c \<and> code c < 192"

text \<open>One code point off the front. Overlong forms, surrogates and values above \<open>0x10FFFF\<close> are
  refused.\<close>

definition decode_point :: "bytes \<Rightarrow> (nat \<times> bytes) option" where
  "decode_point s =
     (case s of
        [] \<Rightarrow> None
      | a # s1 \<Rightarrow>
          if code a < 128 then Some (code a, s1)
          else (case s1 of
              [] \<Rightarrow> None
            | b # s2 \<Rightarrow>
                if 194 \<le> code a \<and> code a < 224 then
                  (if cont b then Some ((code a - 192) * 64 + (code b - 128), s2) else None)
                else (case s2 of
                    [] \<Rightarrow> None
                  | c # s3 \<Rightarrow>
                      if 224 \<le> code a \<and> code a < 240 then
                        (let n = (code a - 224) * 4096 + (code b - 128) * 64 + (code c - 128)
                         in if cont b \<and> cont c \<and> 2048 \<le> n \<and> \<not> (55296 \<le> n \<and> n \<le> 57343)
                            then Some (n, s3) else None)
                      else (case s3 of
                          [] \<Rightarrow> None
                        | d # s4 \<Rightarrow>
                            if 240 \<le> code a \<and> code a < 245 then
                              (let n = (code a - 240) * 262144 + (code b - 128) * 4096 +
                                       (code c - 128) * 64 + (code d - 128)
                               in if cont b \<and> cont c \<and> cont d \<and> 65536 \<le> n \<and> n < 1114112
                                  then Some (n, s4) else None)
                            else None))))"

lemma decode_point_shorter: "decode_point s = Some (n, t) \<Longrightarrow> length t < length s"
  by (auto simp: decode_point_def Let_def split: list.splits if_splits)

function decode :: "bytes \<Rightarrow> pystr result" where
  "decode s =
     (if s = [] then Inr []
      else (case decode_point s of
              None \<Rightarrow> Inl UnicodeError
            | Some (n, t) \<Rightarrow> (case decode t of Inl e \<Rightarrow> Inl e | Inr ns \<Rightarrow> Inr (n # ns))))"
  by pat_completeness auto
termination
  by (relation "measure length") (auto simp: decode_point_shorter)

declare decode.simps [simp del]

lemma decode_Nil [simp]: "decode [] = Inr []"
  by (simp add: decode.simps)

lemma decode_step:
  assumes "decode_point s = Some (n, t)"
  shows "decode s = (case decode t of Inl e \<Rightarrow> Inl e | Inr ns \<Rightarrow> Inr (n # ns))"
proof -
  have "s \<noteq> []" using assms by (auto simp: decode_point_def)
  with assms show ?thesis by (simp add: decode.simps [of s])
qed

lemma code_small: "n < 256 \<Longrightarrow> code (char_of n) = n"
  by simp

lemma decode_two:
  assumes "2 \<le> x" "x < 32" "y < 64"
  shows "decode_point (char_of (192 + x) # char_of (128 + y) # s) = Some (x * 64 + y, s)"
  using assms by (simp add: decode_point_def cont_def code_small del: of_char_of)

lemma decode_three:
  assumes "x < 16" "y < 64" "z < 64" and "n = x * 4096 + y * 64 + z"
    and "2048 \<le> n" "\<not> (55296 \<le> n \<and> n \<le> 57343)"
  shows "decode_point (char_of (224 + x) # char_of (128 + y) # char_of (128 + z) # s) = Some (n, s)"
  using assms by (simp add: decode_point_def cont_def code_small Let_def del: of_char_of)

lemma decode_four:
  assumes "x < 5" "y < 64" "z < 64" "w < 64" and "n = x * 262144 + y * 4096 + z * 64 + w"
    and "65536 \<le> n" "n < 1114112"
  shows "decode_point (char_of (240 + x) # char_of (128 + y) # char_of (128 + z) #
    char_of (128 + w) # s) = Some (n, s)"
  using assms by (simp add: decode_point_def cont_def code_small Let_def del: of_char_of)

lemma decode_encode_point:
  assumes "encode_point n = Some b"
  shows "decode_point (b @ s) = Some (n, s)"
proof -
  consider (1) "n < 128" | (2) "128 \<le> n" "n < 2048"
    | (3) "2048 \<le> n" "n < 65536" "\<not> (55296 \<le> n \<and> n \<le> 57343)" | (4) "65536 \<le> n" "n < 1114112"
    using assms by (fastforce simp: encode_point_def split: if_splits)
  then show ?thesis
  proof cases
    case 1
    with assms show ?thesis by (auto simp: encode_point_def decode_point_def)
  next
    case 2
    then have "2 \<le> n div 64" "n div 64 < 32" by auto
    then have "decode_point (char_of (192 + n div 64) # char_of (128 + n mod 64) # s) = Some (n, s)"
      using decode_two [of "n div 64" "n mod 64" s] by simp
    with 2 assms show ?thesis by (auto simp: encode_point_def)
  next
    case 3
    then have n: "\<not> n < 128" "\<not> n < 2048" "2048 \<le> n" "\<not> (55296 \<le> n \<and> n \<le> 57343)" by auto
    then have b: "b = [char_of (224 + n div 4096), char_of (128 + n div 64 mod 64),
        char_of (128 + n mod 64)]"
      using 3 assms by (auto simp: encode_point_def split: if_splits)
    have bounds: "n div 4096 < 16" "n div 64 mod 64 < 64" "n mod 64 < 64" using 3 by auto
    have "n div 64 div 64 = n div 4096" by (simp add: div_mult2_eq [symmetric])
    then have "n div 4096 * 64 + n div 64 mod 64 = n div 64"
      using div_mult_mod_eq [of "n div 64" 64] by simp
    then have sum: "n div 4096 * 4096 + n div 64 mod 64 * 64 + n mod 64 = n"
      using div_mult_mod_eq [of n 64] by linarith
    show ?thesis
      using decode_three [OF bounds sum [symmetric] n(3,4)] by (simp add: b)
  next
    case 4
    then have n: "\<not> n < 128" "\<not> n < 2048" "\<not> n < 65536" "\<not> n \<le> 57343" by auto
    then have b: "b = [char_of (240 + n div 262144), char_of (128 + n div 4096 mod 64),
        char_of (128 + n div 64 mod 64), char_of (128 + n mod 64)]"
      using 4 assms by (simp add: encode_point_def)
    have bounds: "n div 262144 < 5" "n div 4096 mod 64 < 64" "n div 64 mod 64 < 64" "n mod 64 < 64"
      using 4 by auto
    have "n div 4096 div 64 = n div 262144" "n div 64 div 64 = n div 4096"
      by (simp_all add: div_mult2_eq [symmetric])
    then have "n div 262144 * 64 + n div 4096 mod 64 = n div 4096"
      and "n div 4096 * 64 + n div 64 mod 64 = n div 64"
      using div_mult_mod_eq [of "n div 4096" 64] div_mult_mod_eq [of "n div 64" 64] by simp_all
    then have sum: "n div 262144 * 262144 + n div 4096 mod 64 * 4096 + n div 64 mod 64 * 64 + n mod 64 = n"
      using div_mult_mod_eq [of n 64] by linarith
    show ?thesis
      using decode_four [OF bounds sum [symmetric] 4] by (simp add: b)
  qed
qed

lemma decode_encode: "encode ns = Inr b \<Longrightarrow> decode b = Inr ns"
proof (induction ns arbitrary: b)
  case Nil
  then show ?case by simp
next
  case (Cons n ns)
  then obtain p bs where p: "encode_point n = Some p" and bs: "encode ns = Inr bs" and "b = p @ bs"
    by (auto split: option.splits sum.splits)
  with decode_step [OF decode_encode_point [OF p, of bs]] Cons.IH show ?case by simp
qed

text \<open>On ASCII both are the identity up to the representation.\<close>

definition ascii :: "bytes \<Rightarrow> bool" where
  "ascii s \<longleftrightarrow> (\<forall>c \<in> set s. code c < 128)"

lemma ascii_simps [simp]: "ascii []" "ascii (c # s) \<longleftrightarrow> code c < 128 \<and> ascii s"
    "ascii (s @ t) \<longleftrightarrow> ascii s \<and> ascii t"
  by (auto simp: ascii_def)

lemma lit_simps [simp]: "lit [] = []" "lit (c # s) = of_char c # lit s" "lit (s @ t) = lit s @ lit t"
  by (simp_all add: lit_def)

lemma encode_lit [simp]: "ascii s \<Longrightarrow> encode (lit s) = Inr s"
  by (induction s) (simp_all add: encode_point_def)

lemma decode_ascii [simp]: "ascii s \<Longrightarrow> decode s = Inr (lit s)"
  by (rule decode_encode) simp

lemma lit_inject [simp]: "lit s = lit t \<longleftrightarrow> s = t"
  by (auto simp: lit_def inj_map_eq_map inj_on_def)

section \<open>Replacing and formatting\<close>

text \<open>\<open>s.replace(c, "")\<close> for one character.\<close>

definition remove_char :: "nat \<Rightarrow> pystr \<Rightarrow> pystr" where
  "remove_char c s = filter (\<lambda>d. d \<noteq> c) s"

type_synonym kwargs = "(pystr \<times> pystr) list"

text \<open>\<open>template.format(**kwargs)\<close> with string values. A field that is a plain name is looked up;
  an empty or numeric field indexes the (empty) positional arguments. A field with a conversion, a
  format specification, an attribute or an index is left to \<open>ext\<close>, which formats the rest of the
  template from there.\<close>

definition digit :: "nat \<Rightarrow> bool" where
  "digit n \<longleftrightarrow> 48 \<le> n \<and> n \<le> 57"

definition plain_field :: "pystr \<Rightarrow> bool" where
  "plain_field f \<longleftrightarrow> (\<forall>c \<in> set f. c \<notin> set (lit ''{[.!:''))"

function py_format :: "(pystr \<Rightarrow> kwargs \<Rightarrow> pystr result) \<Rightarrow> pystr \<Rightarrow> kwargs \<Rightarrow> pystr result" where
  "py_format ext [] kw = Inr []"
| "py_format ext (c # cs) kw =
     (if c = 123 then
        (if take 1 cs = [123] then map_sum id ((#) 123) (py_format ext (drop 1 cs) kw)
         else (let field = takeWhile (\<lambda>d. d \<noteq> 125) cs; rest = dropWhile (\<lambda>d. d \<noteq> 125) cs
               in if \<not> plain_field field then ext (c # cs) kw
                  else if rest = [] then Inl ValueError
                  else if list_all digit field then Inl IndexError
                  else (case map_of kw field of
                          None \<Rightarrow> Inl KeyError
                        | Some v \<Rightarrow> map_sum id ((@) v) (py_format ext (drop 1 rest) kw))))
      else if c = 125 then
        (if take 1 cs = [125] then map_sum id ((#) 125) (py_format ext (drop 1 cs) kw)
         else Inl ValueError)
      else map_sum id ((#) c) (py_format ext cs kw))"
  by pat_completeness auto
termination
proof (relation "measure (\<lambda>(ext, s, kw). length s)", goal_cases)
  case (3 ext c cs kw field rest v)
  then show ?case
    using length_dropWhile_le [of "\<lambda>d. d \<noteq> 125" cs] by simp
qed auto

end
