(* ===== verification/Hyper.thy ===== *)
theory Hyper
  imports HttpSimple PyText
begin

text \<open>
  \<^verbatim>\<open>levin/core/parsers/hyper.py\<close>: the HTTP/2 parser on top of the \<open>h2\<close> package, with the
  upgrade from HTTP/1.1.

  \<open>H2Connection\<close> is not under \<^verbatim>\<open>src/\<close>: its operations are the argument \<open>lib\<close>, on a state of any
  type \<open>'s\<close>. What is modelled is what the parser does with them: which requests it makes of the
  events, and which calls it makes to send a response.
\<close>

section \<open>The library\<close>

datatype h2_event =
    Ev_request int "(pystr \<times> pystr) list" | Ev_data int bytes | Ev_ended int | Ev_reset int
  | Ev_terminated | Ev_other

text \<open>The parser passes header names and values on as \<open>str\<close> or as \<open>bytes\<close>.\<close>

datatype hval = HStr pystr | HBytes bytes

record 's h2_lib =
  h2_initiate :: "'s \<Rightarrow> 's"
  h2_receive :: "bytes \<Rightarrow> 's \<Rightarrow> h2_event list result \<times> 's"
  h2_to_send :: "'s \<Rightarrow> bytes \<times> 's"
  h2_clear :: "'s \<Rightarrow> 's"
  h2_upgrade :: "bytes \<Rightarrow> 's \<Rightarrow> exn option \<times> 's"
  h2_next_id :: "'s \<Rightarrow> int result"
  h2_push :: "int \<Rightarrow> int \<Rightarrow> (hval \<times> hval) list \<Rightarrow> 's \<Rightarrow> exn option \<times> 's"
  h2_end :: "int \<Rightarrow> 's \<Rightarrow> exn option \<times> 's"
  h2_headers :: "int \<Rightarrow> (hval \<times> hval) list \<Rightarrow> 's \<Rightarrow> exn option \<times> 's"
  h2_window :: "int \<Rightarrow> 's \<Rightarrow> int result"
  h2_frame_size :: "'s \<Rightarrow> nat"
  h2_data :: "int \<Rightarrow> bytes \<Rightarrow> bool \<Rightarrow> 's \<Rightarrow> exn option \<times> 's"
  h2_push_enabled :: "'s \<Rightarrow> bool"

text \<open>\<open>StreamClosedError\<close> is a subclass of \<open>ProtocolError\<close>; the latter name stands for all others
  below it.\<close>

definition protocol_error :: "exn \<Rightarrow> bool" where
  "protocol_error e \<longleftrightarrow> e = ProtocolError \<or> e = StreamClosedError"

section \<open>State\<close>

type_synonym streams = "int \<Rightarrow> request option"

record 's hyper =
  hy_conn :: 's
  hy_streams :: streams

definition new_hyper :: "'s \<Rightarrow> 's hyper" where
  "new_hyper s = \<lparr>hy_conn = s, hy_streams = (\<lambda>_. None)\<rparr>"

definition hyper_push_support :: "'s h2_lib \<Rightarrow> 's hyper \<Rightarrow> bool" where
  "hyper_push_support lib hy = h2_push_enabled lib (hy_conn hy)"

definition hyper_connect :: "'s h2_lib \<Rightarrow> 's hyper \<Rightarrow> 's hyper" where
  "hyper_connect lib hy = hy\<lparr>hy_conn := h2_initiate lib (hy_conn hy)\<rparr>"

section \<open>Requests from events\<close>

text \<open>\<open>_get_request_from_event\<close>: the loop over the headers with its three variables.\<close>

fun event_headers ::
  "(pystr \<times> pystr) list \<Rightarrow> bytes \<Rightarrow> bytes \<Rightarrow> (bytes \<times> bytes) list \<Rightarrow>
   (bytes \<times> bytes \<times> (bytes \<times> bytes) list) result" where
  "event_headers [] method path headers = Inr (method, path, headers)"
| "event_headers ((name, value) # rest) method path headers =
     (if take 1 name = lit '':'' then
        (if name = lit '':method'' then
           (case encode value of
              Inl e \<Rightarrow> Inl e | Inr v \<Rightarrow> event_headers rest v path headers)
         else if name = lit '':path'' then
           (case encode value of
              Inl e \<Rightarrow> Inl e | Inr v \<Rightarrow> event_headers rest method v headers)
         else event_headers rest method path headers)
      else
        (case encode name of
           Inl e \<Rightarrow> Inl e
         | Inr n \<Rightarrow>
             (case encode value of
                Inl e \<Rightarrow> Inl e
              | Inr v \<Rightarrow> event_headers rest method path (headers @ [(n, v)]))))"

definition request_from_event :: "int \<Rightarrow> (pystr \<times> pystr) list \<Rightarrow> request result" where
  "request_from_event stream hs =
     (case event_headers hs ''GET'' ''/'' [] of
        Inl e \<Rightarrow> Inl e
      | Inr (method, path, headers) \<Rightarrow>
          Inr (new_request path method (Some []) headers ''HTTP/2'' stream ''http''))"

text \<open>\<open>_parse_event\<close>: what it returns is nothing, \<open>False\<close> or a request.\<close>

datatype event_result = Ev_none | Ev_false | Ev_complete request

fun parse_event :: "h2_event \<Rightarrow> streams \<Rightarrow> event_result result \<times> streams" where
  "parse_event (Ev_request i hs) st =
     (case request_from_event i hs of
        Inl e \<Rightarrow> (Inl e, st)
      | Inr req \<Rightarrow> (Inr Ev_none, st(i \<mapsto> req)))"
| "parse_event (Ev_data i data) st =
     (Inr Ev_none,
      (case st i of
         None \<Rightarrow> st
       | Some req \<Rightarrow> st(i \<mapsto> req\<lparr>rq_body := map_option (\<lambda>b. b @ data) (rq_body req)\<rparr>)))"
| "parse_event (Ev_ended i) st =
     (case st i of
        None \<Rightarrow> (Inl KeyError, st)
      | Some req \<Rightarrow> (Inr (Ev_complete req), st(i := None)))"
| "parse_event Ev_terminated st = (Inr Ev_false, st)"
| "parse_event (Ev_reset i) st = (Inr Ev_none, st)"
| "parse_event Ev_other st = (Inr Ev_none, st)"

fun hyper_events ::
  "h2_event list \<Rightarrow> request list \<Rightarrow> bool \<Rightarrow> streams \<Rightarrow> (request list \<times> bool) result \<times> streams" where
  "hyper_events [] requests close st = (Inr (requests, close), st)"
| "hyper_events (ev # evs) requests close st =
     (case parse_event ev st of
        (Inl e, st') \<Rightarrow> (Inl e, st')
      | (Inr Ev_none, st') \<Rightarrow> hyper_events evs requests close st'
      | (Inr Ev_false, st') \<Rightarrow> hyper_events evs requests True st'
      | (Inr (Ev_complete req), st') \<Rightarrow> hyper_events evs (requests @ [req]) close st')"

section \<open>Upgrading from HTTP/1.1\<close>

definition upgrade_response :: response where
  "upgrade_response =
     new_response 101 [] (Some [(''Connection'', ''Upgrade''), (''Upgrade'', ''h2c'')]) [] False"

definition handle_http1_to_http2 :: "bytes \<Rightarrow> (request option \<times> bytes) result" where
  "handle_http1_to_http2 data =
     (if \<not> occurs_in ''HTTP'' data then Inr (None, [])
      else (case simple_handle_request data of
              Inl e \<Rightarrow> Inl e
            | Inr (_, [request], _) \<Rightarrow>
                (case map_of (rq_headers request) ''http2-settings'' of
                   None \<Rightarrow> Inr (Some request, [])
                 | Some settings \<Rightarrow>
                     if map_of (rq_headers request) ''upgrade'' \<noteq> Some ''h2c'' \<or> settings = []
                     then Inr (Some request, [])
                     else (case fst (simple_handle_response upgrade_response) of
                             (chunks, None) \<Rightarrow> Inr (Some (request\<lparr>rq_stream := 1\<rparr>), concat chunks)
                           | (_, Some e) \<Rightarrow> Inl e))
            | Inr _ \<Rightarrow> Inr (None, [])))"

definition hyper_handle_http1 ::
  "'s h2_lib \<Rightarrow> bytes \<Rightarrow> 's hyper \<Rightarrow> (bytes \<times> request list) result \<times> 's hyper" where
  "hyper_handle_http1 lib data hy =
     (case handle_http1_to_http2 data of
        Inl e \<Rightarrow> (Inl e, hy)
      | Inr (request, to_send) \<Rightarrow>
          (case request of
             None \<Rightarrow> (Inl ParseError, hy)
           | Some req \<Rightarrow>
               if to_send = [] then (Inl ParseError, hy)
               else (case map_of (rq_headers req) ''http2-settings'' of
                       None \<Rightarrow> (Inl KeyError, hy\<lparr>hy_conn := h2_clear lib (hy_conn hy)\<rparr>)
                     | Some settings \<Rightarrow>
                         (case h2_upgrade lib settings (h2_clear lib (hy_conn hy)) of
                            (Some e, s) \<Rightarrow> (Inl e, hy\<lparr>hy_conn := s\<rparr>)
                          | (None, s) \<Rightarrow>
                              (case h2_to_send lib s of
                                 (out, s') \<Rightarrow>
                                   (Inr (to_send @ CRLF @ out, [req]), hy\<lparr>hy_conn := s'\<rparr>))))))"

definition hyper_handle_request ::
  "'s h2_lib \<Rightarrow> 's hyper \<Rightarrow> bytes \<Rightarrow> parsed result \<times> 's hyper" where
  "hyper_handle_request lib hy data =
     (case h2_receive lib data (hy_conn hy) of
        (Inl e, s) \<Rightarrow>
          if protocol_error e then
            (case hyper_handle_http1 lib data (hy\<lparr>hy_conn := s\<rparr>) of
               (Inl e', hy') \<Rightarrow> (Inl e', hy')
             | (Inr (out, reqs), hy') \<Rightarrow> (Inr (out, reqs, False), hy'))
          else (Inl e, hy\<lparr>hy_conn := s\<rparr>)
      | (Inr events, s) \<Rightarrow>
          (case h2_to_send lib s of
             (out, s') \<Rightarrow>
               (case hyper_events events [] False (hy_streams hy) of
                  (Inl e, st) \<Rightarrow> (Inl e, \<lparr>hy_conn = s', hy_streams = st\<rparr>)
                | (Inr (reqs, close), st) \<Rightarrow>
                    (Inr (out, reqs, close), \<lparr>hy_conn = s', hy_streams = st\<rparr>))))"

section \<open>Sending a response\<close>

text \<open>The loop that sends the body, on \<open>stream\<close> and with the window of \<open>parent\<close>. Every turn but the
  last sends at least one byte, provided that frames are not of size \<open>0\<close>, so one more turn than the
  body has bytes is enough.\<close>

primrec send_loop ::
  "nat \<Rightarrow> 's h2_lib \<Rightarrow> int \<Rightarrow> int \<Rightarrow> bool \<Rightarrow> bytes \<Rightarrow> 's \<Rightarrow> yielded \<times> 's" where
  "send_loop 0 lib parent stream pushes data s = (([], None), s)"
| "send_loop (Suc n) lib parent stream pushes data s =
     (case h2_window lib parent s of
        Inl e \<Rightarrow> (([], Some e), s)
      | Inr window \<Rightarrow>
          if window < 1 then (([], None), s)
          else
            (let chunk_size = min (min (nat window) (length data)) (h2_frame_size lib s)
             in case h2_data lib stream (take chunk_size data) (\<not> pushes \<and> length data \<le> chunk_size) s of
                  (Some e, s1) \<Rightarrow> (([], if protocol_error e then None else Some e), s1)
                | (None, s1) \<Rightarrow>
                    (case h2_to_send lib s1 of
                       (chunk, s2) \<Rightarrow>
                         if drop chunk_size data = [] then (([chunk], None), s2)
                         else (case send_loop n lib parent stream pushes (drop chunk_size data) s2 of
                                 ((chunks, e), s3) \<Rightarrow> ((chunk # chunks, e), s3)))))"

definition send_response ::
  "'s h2_lib \<Rightarrow> int \<Rightarrow> int \<Rightarrow> response \<Rightarrow> (hval \<times> hval) list \<Rightarrow> 's \<Rightarrow> yielded \<times> 's" where
  "send_response lib parent stream resp headers s =
     (case h2_headers lib stream headers s of
        (Some e, s1) \<Rightarrow> (([], Some e), s1)
      | (None, s1) \<Rightarrow>
          send_loop (Suc (length (rs_body resp))) lib parent stream (rs_pushes resp \<noteq> [])
            (rs_body resp) s1)"

definition bytes_headers :: "headers \<Rightarrow> (hval \<times> hval) list" where
  "bytes_headers hs = map (\<lambda>(k, v). (HBytes k, HBytes v)) hs"

definition status_headers :: "response \<Rightarrow> (hval \<times> hval) list" where
  "status_headers resp =
     (HStr (lit '':status''), HStr (lit (show_int (rs_status resp)))) # bytes_headers (rs_headers resp)"

definition push_headers :: "request \<Rightarrow> pystr \<Rightarrow> (hval \<times> hval) list" where
  "push_headers req authority =
     [(HBytes '':method'', HBytes (rq_method req)), (HBytes '':path'', HBytes (rq_raw_path req)),
      (HBytes '':scheme'', HBytes (rq_scheme req)), (HBytes '':authority'', HStr authority)] @
     bytes_headers (rq_headers req)"

definition with_h2_length :: "response \<Rightarrow> response" where
  "with_h2_length resp =
     resp\<lparr>rs_headers := AList.update ''content-length'' (show_nat (length (rs_body resp)))
                          (rs_headers resp)\<rparr>"

text \<open>\<open>authority req\<close> is \<open>f"{sockname[0]}:{sockname[1]}"\<close> for the socket name that the transport of
  the request gives.\<close>

definition hyper_handle_response ::
  "'s h2_lib \<Rightarrow> (request \<Rightarrow> pystr result) \<Rightarrow> 's hyper \<Rightarrow> response \<Rightarrow> request \<Rightarrow>
   (yielded \<times> response) \<times> 's hyper" where
  "hyper_handle_response lib authority hy resp req =
     (let resp' = with_h2_length resp; s = hy_conn hy; parent = rq_stream req;
          (y, s') =
            (if \<not> rs_push resp' then send_response lib parent parent resp' (status_headers resp') s
             else (case authority req of
                     Inl e \<Rightarrow> (([], Some e), s)
                   | Inr auth \<Rightarrow>
                       (case h2_next_id lib s of
                          Inl e \<Rightarrow> (([], Some e), s)
                        | Inr stream \<Rightarrow>
                            (case h2_push lib parent stream (push_headers req auth) s of
                               (Some e, s1) \<Rightarrow> (([], if protocol_error e then None else Some e), s1)
                             | (None, s1) \<Rightarrow>
                                 (case h2_end lib parent s1 of
                                    (Some e, s2) \<Rightarrow> (([], Some e), s2)
                                  | (None, s2) \<Rightarrow>
                                      send_response lib parent stream resp' (status_headers resp') s2)))))
      in ((y, resp'), hy\<lparr>hy_conn := s'\<rparr>))"


section \<open>Assembling requests\<close>

text \<open>The events of one stream, and the body they carry.\<close>

fun event_stream :: "h2_event \<Rightarrow> int option" where
  "event_stream (Ev_request i hs) = Some i"
| "event_stream (Ev_data i data) = Some i"
| "event_stream (Ev_ended i) = Some i"
| "event_stream _ = None"

fun stream_data :: "int \<Rightarrow> h2_event list \<Rightarrow> bytes" where
  "stream_data i [] = []"
| "stream_data i (Ev_data j data # evs) = (if i = j then data else []) @ stream_data i evs"
| "stream_data i (_ # evs) = stream_data i evs"

text \<open>No event opens or ends the stream.\<close>

fun only_data :: "int \<Rightarrow> h2_event list \<Rightarrow> bool" where
  "only_data i [] = True"
| "only_data i (Ev_request j hs # evs) \<longleftrightarrow> i \<noteq> j \<and> only_data i evs"
| "only_data i (Ev_ended j # evs) \<longleftrightarrow> i \<noteq> j \<and> only_data i evs"
| "only_data i (_ # evs) = only_data i evs"

lemma hyper_events_append:
  "hyper_events (xs @ ys) reqs close st =
     (case hyper_events xs reqs close st of
        (Inl e, st') \<Rightarrow> (Inl e, st')
      | (Inr (reqs', close'), st') \<Rightarrow> hyper_events ys reqs' close' st')"
  by (induction xs reqs close st rule: hyper_events.induct)
    (auto split: prod.split sum.split event_result.split)

lemma parse_event_data:
  assumes "parse_event ev st = (Inr r, st')" and "only_data i [ev]"
  shows "st' i = map_option (\<lambda>req. req\<lparr>rq_body := map_option (\<lambda>b. b @ stream_data i [ev]) (rq_body req)\<rparr>) (st i)"
  using assms
  by (cases ev) (auto split: sum.splits option.splits simp: option.map_id0 [unfolded id_def] option.map_comp o_def)


definition append_body :: "bytes \<Rightarrow> request \<Rightarrow> request" where
  "append_body data req = req\<lparr>rq_body := map_option (\<lambda>b. b @ data) (rq_body req)\<rparr>"

lemma append_body_append [simp]: "append_body ys (append_body xs req) = append_body (xs @ ys) req"
  by (simp add: append_body_def option.map_comp o_def)

lemma append_body_Nil [simp]: "append_body [] req = req"
  by (simp add: append_body_def option.map_ident)

lemma stream_data_Cons: "stream_data i (ev # evs) = stream_data i [ev] @ stream_data i evs"
  by (cases ev) simp_all

lemma only_data_Cons: "only_data i (ev # evs) \<longleftrightarrow> only_data i [ev] \<and> only_data i evs"
  by (cases ev) simp_all

lemma hyper_events_data:
  assumes "hyper_events evs reqs close st = (Inr out, st')" and "only_data i evs"
  shows "st' i = map_option (append_body (stream_data i evs)) (st i)"
  using assms
proof (induction evs arbitrary: reqs close st)
  case Nil
  then show ?case by (simp add: option.map_ident)
next
  case (Cons ev evs)
  obtain r st1 where ev: "parse_event ev st = (Inr r, st1)"
    and rest: "\<exists>reqs close. hyper_events evs reqs close st1 = (Inr out, st')"
    using Cons.prems(1) by (auto split: prod.splits sum.splits event_result.splits)
  have only: "only_data i [ev]" "only_data i evs" using Cons.prems(2) only_data_Cons by blast+
  have "st1 i = map_option (append_body (stream_data i [ev])) (st i)"
    using parse_event_data [OF ev only(1)] by (simp add: append_body_def [abs_def])
  moreover have "st' i = map_option (append_body (stream_data i evs)) (st1 i)"
    using rest only(2) Cons.IH by blast
  ultimately show ?case
    by (simp add: stream_data_Cons [of i ev evs] option.map_comp o_def)
qed

text \<open>Requests come out in the order in which their streams end, whatever the close flag.\<close>

lemma hyper_events_requests:
  "hyper_events evs reqs close st = (Inr (reqs', close'), st') \<Longrightarrow> \<exists>new. reqs' = reqs @ new"
proof (induction evs arbitrary: reqs close st)
  case Nil
  then show ?case by simp
next
  case (Cons ev evs)
  then show ?case by (force split: prod.splits sum.splits event_result.splits)
qed

section \<open>Delivering a body\<close>

text \<open>What the documentation of \<open>h2\<close> says of the calls of the loop, for one stream: \<open>opn\<close> tells
  whether the server may still send on it and \<open>sent\<close> what was sent. A chunk within the window and
  the frame size is accepted and takes its length from the window; collecting the output
  changes none of these.\<close>

definition h2_sends ::
  "'s h2_lib \<Rightarrow> ('s \<Rightarrow> bool) \<Rightarrow> ('s \<Rightarrow> (bytes \<times> bool) list) \<Rightarrow> int \<Rightarrow> bool" where
  "h2_sends lib opn sent i \<longleftrightarrow>
     (\<forall>s. 0 < h2_frame_size lib s) \<and>
     (\<forall>s. opn (snd (h2_to_send lib s)) = opn s \<and> sent (snd (h2_to_send lib s)) = sent s \<and>
          h2_window lib i (snd (h2_to_send lib s)) = h2_window lib i s) \<and>
     (\<forall>s d fin w. opn s \<longrightarrow> h2_window lib i s = Inr w \<longrightarrow> int (length d) \<le> w \<longrightarrow>
          length d \<le> h2_frame_size lib s \<longrightarrow>
          (case h2_data lib i d fin s of
             (e, s') \<Rightarrow> e = None \<and> opn s' = (\<not> fin) \<and> sent s' = sent s @ [(d, fin)] \<and>
                        h2_window lib i s' = Inr (w - int (length d))))"

lemma h2_sends_data:
  assumes "h2_sends lib opn sent i" "opn s" "h2_window lib i s = Inr w"
    "int (length d) \<le> w" "length d \<le> h2_frame_size lib s"
  obtains s1 where "h2_data lib i d fin s = (None, s1)" "opn s1 = (\<not> fin)"
    "sent s1 = sent s @ [(d, fin)]" "h2_window lib i s1 = Inr (w - int (length d))"
proof -
  obtain e s1 where data: "h2_data lib i d fin s = (e, s1)" by (cases "h2_data lib i d fin s")
  have "case h2_data lib i d fin s of
      (e, s') \<Rightarrow> e = None \<and> opn s' = (\<not> fin) \<and> sent s' = sent s @ [(d, fin)] \<and>
                 h2_window lib i s' = Inr (w - int (length d))"
    using assms(1) [unfolded h2_sends_def, THEN conjunct2, THEN conjunct2, rule_format, OF assms(2-5)] .
  with data show ?thesis by (intro that) auto
qed

lemma h2_sends_collect:
  assumes "h2_sends lib opn sent i" "h2_to_send lib s = (b, s')"
  shows "opn s' = opn s" "sent s' = sent s" "h2_window lib i s' = h2_window lib i s"
proof -
  have "snd (h2_to_send lib s) = s'" using assms(2) by simp
  with assms(1) show "opn s' = opn s" "sent s' = sent s" "h2_window lib i s' = h2_window lib i s"
    unfolding h2_sends_def by metis+
qed

text \<open>The frames of a body: together its first \<open>w\<close> bytes, and the last one ends the stream exactly
  if the whole body was sent and nothing is pushed.\<close>

definition frames_of :: "bytes \<Rightarrow> int \<Rightarrow> bool \<Rightarrow> (bytes \<times> bool) list \<Rightarrow> bool" where
  "frames_of body w pushes log \<longleftrightarrow>
     concat (map fst log) = take (nat w) body \<and>
     map snd log =
       (if 1 \<le> w \<and> int (length body) \<le> w \<and> \<not> pushes
        then replicate (length log - 1) False @ [True] else replicate (length log) False)"

lemma frames_of_step:
  assumes frames: "frames_of (drop k body) (w - int k) pushes log"
    and k: "k < length body" "int k \<le> w" "1 \<le> w"
  shows "frames_of body w pushes ((take k body, False) # log)"
proof -
  have w: "nat w = k + nat (w - int k)" using k(2) by linarith
  have "take (nat w) body = take k body @ take (nat (w - int k)) (drop k body)"
    unfolding w take_add ..
  moreover have "(1 \<le> w \<and> int (length body) \<le> w \<and> \<not> pushes) \<longleftrightarrow>
      (1 \<le> w - int k \<and> int (length (drop k body)) \<le> w - int k \<and> \<not> pushes)"
    using k by auto
  moreover have "log \<noteq> []" if "map snd log = replicate (length log - 1) False @ [True]"
    using that by auto
  ultimately show ?thesis
    using frames by (cases log) (auto simp: frames_of_def)
qed

lemma send_loop_delivers:
  assumes "h2_sends lib opn sent i" and "opn s" and "h2_window lib i s = Inr w"
    and "length body < n"
  shows "\<exists>chunks s' log. send_loop n lib i i pushes body s = ((chunks, None), s') \<and>
    sent s' = sent s @ log \<and> frames_of body w pushes log \<and>
    opn s' = (pushes \<or> w < 1 \<or> w < int (length body)) \<and>
    h2_window lib i s' = Inr (w - int (min (nat w) (length body)))"
  using assms(2-4)
proof (induction n arbitrary: body s w)
  case 0
  then show ?case by simp
next
  case (Suc n)
  show ?case
  proof (cases "w < 1")
    case True
    then show ?thesis using Suc.prems by (simp add: frames_of_def)
  next
    case False
    define k where "k = min (min (nat w) (length body)) (h2_frame_size lib s)"
    define fin where "fin \<longleftrightarrow> \<not> pushes \<and> length body \<le> k"
    have frame: "0 < h2_frame_size lib s" using assms(1) by (simp add: h2_sends_def)
    have k: "int k \<le> w" "k \<le> length body" "k \<le> h2_frame_size lib s"
      using False by (auto simp: k_def)
    obtain s1 where data: "h2_data lib i (take k body) fin s = (None, s1)" "opn s1 = (\<not> fin)"
      "sent s1 = sent s @ [(take k body, fin)]" "h2_window lib i s1 = Inr (w - int k)"
      using h2_sends_data [OF assms(1) Suc.prems(1,2), of "take k body" fin] k by auto
    obtain b s2 where out: "h2_to_send lib s1 = (b, s2)" by (cases "h2_to_send lib s1")
    note s2 = h2_sends_collect [OF assms(1) out]
    have loop: "send_loop (Suc n) lib i i pushes body s =
      (if drop k body = [] then (([b], None), s2)
       else (case send_loop n lib i i pushes (drop k body) s2 of
               ((chunks, e), s3) \<Rightarrow> ((b # chunks, e), s3)))"
      using False Suc.prems(2) data(1) out
      by (simp add: Let_def fin_def [symmetric] k_def [symmetric])
    show ?thesis
    proof (cases "length body \<le> k")
      case True
      with k(2) have "k = length body" by simp
      with False k show ?thesis
        using loop data s2 by (auto simp: frames_of_def fin_def)
    next
      case rest: False
      then have "0 < k" using False frame by (auto simp: k_def)
      then have shorter: "length (drop k body) < n" using Suc.prems(3) rest by simp
      have "opn s2" "h2_window lib i s2 = Inr (w - int k)"
        using data s2 rest by (simp_all add: fin_def)
      from Suc.IH [OF this shorter] obtain chunks s3 log where
        "send_loop n lib i i pushes (drop k body) s2 = ((chunks, None), s3)"
        "sent s3 = sent s2 @ log" "frames_of (drop k body) (w - int k) pushes log"
        "opn s3 = (pushes \<or> w - int k < 1 \<or> w - int k < int (length (drop k body)))"
        "h2_window lib i s3 = Inr (w - int k - int (min (nat (w - int k)) (length (drop k body))))"
        by blast
      moreover have "w - int k - int (min (nat (w - int k)) (length (drop k body))) = w - int (min (nat w) (length body))"
        using k(1,2) by simp
      moreover have "frames_of body w pushes ((take k body, False) # log)"
        using calculation(3) rest k(1) False by (intro frames_of_step) simp_all
      ultimately show ?thesis
        using loop rest data(3) s2 False by (auto simp: fin_def)
    qed
  qed
qed

section \<open>Keeping the response\<close>

lemma hyper_response_keeps:
  assumes "hyper_handle_response lib authority hy resp req = ((y, resp'), hy')"
  shows "resp' = with_h2_length resp"
  using assms by (auto simp: hyper_handle_response_def Let_def split: prod.splits)

lemma with_h2_length_frame [simp]:
  "rs_status (with_h2_length resp) = rs_status resp" "rs_body (with_h2_length resp) = rs_body resp"
  "rs_pushes (with_h2_length resp) = rs_pushes resp" "rs_push (with_h2_length resp) = rs_push resp"
  by (simp_all add: with_h2_length_def)

lemma hyper_response_frames:
  assumes "h2_sends lib opn sent (rq_stream req)" and "\<not> rs_push resp"
    and "h2_headers lib (rq_stream req) (status_headers (with_h2_length resp)) (hy_conn hy) = (None, s)"
    and "opn s" and "h2_window lib (rq_stream req) s = Inr w"
  shows "\<exists>chunks hy' log.
    hyper_handle_response lib authority hy resp req = (((chunks, None), with_h2_length resp), hy') \<and>
    sent (hy_conn hy') = sent s @ log \<and> frames_of (rs_body resp) w (rs_pushes resp \<noteq> []) log \<and>
    opn (hy_conn hy') = (rs_pushes resp \<noteq> [] \<or> w < 1 \<or> w < int (length (rs_body resp))) \<and>
    h2_window lib (rq_stream req) (hy_conn hy') = Inr (w - int (min (nat w) (length (rs_body resp))))"
proof -
  from send_loop_delivers [OF assms(1,4,5) lessI, of "rs_body resp" "rs_pushes resp \<noteq> []"]
  obtain chunks s' log where
    "send_loop (Suc (length (rs_body resp))) lib (rq_stream req) (rq_stream req) (rs_pushes resp \<noteq> [])
       (rs_body resp) s = ((chunks, None), s')"
    "sent s' = sent s @ log" "frames_of (rs_body resp) w (rs_pushes resp \<noteq> []) log"
    "opn s' = (rs_pushes resp \<noteq> [] \<or> w < 1 \<or> w < int (length (rs_body resp)))"
    "h2_window lib (rq_stream req) s' = Inr (w - int (min (nat w) (length (rs_body resp))))"
    by blast
  with assms(2,3) show ?thesis
    by (intro exI [of _ chunks] exI [of _ "hy\<lparr>hy_conn := s'\<rparr>"] exI [of _ log])
      (simp add: hyper_handle_response_def send_response_def Let_def del: send_loop.simps)
qed

section \<open>The upgrade\<close>

definition switching :: bytes where
  "switching =
     ''HTTP/1.1 101 Switching Protocols'' @ CRLF @ ''Connection: Upgrade'' @ CRLF @ ''Upgrade: h2c'' @ CRLF"

lemma upgrade_wire:
  "fst (simple_handle_response upgrade_response) =
     ([''HTTP/1.1 101 Switching Protocols'' @ CRLF,
       ''Connection: Upgrade'' @ CRLF @ ''Upgrade: h2c'', CRLF], None)"
  by code_simp

text \<open>The request asks for the upgrade.\<close>

definition wants_h2c :: "request \<Rightarrow> bytes option" where
  "wants_h2c req =
     (case map_of (rq_headers req) ''http2-settings'' of
        None \<Rightarrow> None
      | Some settings \<Rightarrow>
          if map_of (rq_headers req) ''upgrade'' = Some ''h2c'' \<and> settings \<noteq> [] then Some settings
          else None)"

lemma handle_http1_cases:
  "handle_http1_to_http2 data =
     (if \<not> occurs_in ''HTTP'' data then Inr (None, [])
      else case simple_handle_request data of
             Inl e \<Rightarrow> Inl e
           | Inr (out, reqs, close) \<Rightarrow>
               Inr (if wants_h2c (hd reqs) \<noteq> None
                    then (Some ((hd reqs)\<lparr>rq_stream := 1\<rparr>), switching) else (Some (hd reqs), [])))"
proof (cases "simple_handle_request data")
  case (Inl e)
  then show ?thesis by (simp add: handle_http1_to_http2_def)
next
  case (Inr parsed)
  obtain out reqs close where parsed: "parsed = (out, reqs, close)" by (cases parsed)
  with Inr simple_success_shape [of data out reqs close] obtain req where "reqs = [req]"
    by (auto simp: length_Suc_conv)
  with Inr parsed show ?thesis
    by (auto simp: handle_http1_to_http2_def wants_h2c_def upgrade_wire switching_def split: option.split)
qed

section \<open>A library for the examples\<close>

text \<open>A connection that accepts everything on one stream: the window that is left, whether the
  stream is open, the frames sent.\<close>

record toy =
  ty_window :: int
  ty_open :: bool
  ty_sent :: "(bytes \<times> bool) list"

definition toy_lib :: "toy h2_lib" where
  "toy_lib =
     \<lparr>h2_initiate = (\<lambda>s. s), h2_receive = (\<lambda>data s. (Inl ProtocolError, s)),
      h2_to_send = (\<lambda>s. (''frames'', s)), h2_clear = (\<lambda>s. s), h2_upgrade = (\<lambda>settings s. (None, s)),
      h2_next_id = (\<lambda>s. Inr 2), h2_push = (\<lambda>i j hs s. (None, s)), h2_end = (\<lambda>i s. (None, s)),
      h2_headers = (\<lambda>i hs s. (None, s)), h2_window = (\<lambda>i s. Inr (ty_window s)),
      h2_frame_size = (\<lambda>s. 2),
      h2_data = (\<lambda>i d fin s. (None, s\<lparr>ty_window := ty_window s - int (length d), ty_open := \<not> fin,
                                      ty_sent := ty_sent s @ [(d, fin)]\<rparr>)),
      h2_push_enabled = (\<lambda>s. True)\<rparr>"

lemma toy_sends: "h2_sends toy_lib ty_open ty_sent 1"
  by (simp add: h2_sends_def toy_lib_def)

section \<open>Properties\<close>

text \<open>C25: A request is handed out when its stream ends, and its body is exactly the data received on
  that stream since its headers, in order, whatever events of other streams come in between.\<close>

theorem stream_body_assembled:
  assumes "hyper_events (Ev_request i hs # evs @ [Ev_ended i]) reqs close st = (Inr (reqs', close'), st')"
    and "only_data i evs" and "request_from_event i hs = Inr req"
  shows "(\<exists>new. reqs' = reqs @ new @ [append_body (stream_data i evs) req]) \<and> st' i = None"
proof -
  let ?st = "st(i \<mapsto> req)"
  have run: "hyper_events (evs @ [Ev_ended i]) reqs close ?st = (Inr (reqs', close'), st')"
    using assms(1,3) by simp
  then obtain reqs1 close1 st1 where evs: "hyper_events evs reqs close ?st = (Inr (reqs1, close1), st1)"
    by (auto simp: hyper_events_append split: prod.splits sum.splits)
  have "st1 i = Some (append_body (stream_data i evs) req)"
    using hyper_events_data [OF evs assms(2)] by simp
  with run evs have "reqs' = reqs1 @ [append_body (stream_data i evs) req]" "st' i = None"
    by (auto simp: hyper_events_append)
  with hyper_events_requests [OF evs] show ?thesis by auto
qed

theorem stream_body_assembled_witness:
  "let r = hyper_events (Ev_request 3 [(lit '':method'', lit ''POST'')] #
             [Ev_data 3 ''a'', Ev_request 5 [], Ev_data 5 ''x'', Ev_data 3 ''b''] @ [Ev_ended 3])
             [] False (\<lambda>_. None)
   in (\<exists>new. fst (case fst r of Inr x \<Rightarrow> x | Inl e \<Rightarrow> ([], False)) =
         [] @ new @ [append_body ''ab'' (new_request ''/'' ''POST'' (Some []) [] ''HTTP/2'' 3 ''http'')]) \<and>
      snd r 3 = None"
proof -
  let ?evs = "[Ev_data 3 ''a'', Ev_request 5 [], Ev_data 5 ''x'', Ev_data 3 ''b'']"
  let ?r = "hyper_events (Ev_request 3 [(lit '':method'', lit ''POST'')] # ?evs @ [Ev_ended 3])
    [] False (\<lambda>_. None)"
  have req: "request_from_event 3 [(lit '':method'', lit ''POST'')] =
      Inr (new_request ''/'' ''POST'' (Some []) [] ''HTTP/2'' 3 ''http'')"
    by code_simp
  have "case fst ?r of Inl e \<Rightarrow> False | Inr x \<Rightarrow> True" by code_simp
  then obtain reqs' close' st' where r: "?r = (Inr (reqs', close'), st')"
    by (cases ?r) (auto split: sum.splits)
  have "only_data 3 ?evs" "stream_data 3 ?evs = ''ab''" by simp_all
  with stream_body_assembled [OF r _ req] show ?thesis
    unfolding r by (simp add: Let_def)
qed

text \<open>C17: Sending a response whose headers are accepted delivers, in frames, exactly as many bytes of
  the body as the flow-control window has when it starts, without an error; the rest is never sent,
  and the stream is ended exactly if the whole body fits, the window is not empty and the response
  has no pushes.\<close>

theorem response_cut_at_window:
  assumes "h2_sends lib opn sent (rq_stream req)" and "\<not> rs_push resp"
    and "h2_headers lib (rq_stream req) (status_headers (with_h2_length resp)) (hy_conn hy) = (None, s)"
    and "opn s" and "h2_window lib (rq_stream req) s = Inr w"
  shows "\<exists>chunks hy' log.
    hyper_handle_response lib authority hy resp req = (((chunks, None), with_h2_length resp), hy') \<and>
    sent (hy_conn hy') = sent s @ log \<and> frames_of (rs_body resp) w (rs_pushes resp \<noteq> []) log \<and>
    opn (hy_conn hy') = (rs_pushes resp \<noteq> [] \<or> w < 1 \<or> w < int (length (rs_body resp)))"
  using hyper_response_frames [OF assms] by blast

theorem response_cut_at_window_witness:
  "\<exists>chunks hy' log.
    hyper_handle_response toy_lib (\<lambda>r. Inr []) (new_hyper \<lparr>ty_window = 3, ty_open = True, ty_sent = []\<rparr>)
      (new_response 200 ''hello'' None [] False) (new_request ''/'' ''GET'' None [] [] 1 []) =
      (((chunks, None), with_h2_length (new_response 200 ''hello'' None [] False)), hy') \<and>
    ty_sent (hy_conn hy') = log \<and> concat (map fst log) = ''hel'' \<and> ty_open (hy_conn hy')"
proof -
  let ?s = "\<lparr>ty_window = 3, ty_open = True, ty_sent = []\<rparr>"
  have "h2_sends toy_lib ty_open ty_sent (rq_stream (new_request ''/'' ''GET'' None [] [] 1 []))"
    using toy_sends by (simp add: new_request_def)
  from response_cut_at_window [OF this, of "new_response 200 ''hello'' None [] False" "new_hyper ?s" ?s 3
      "\<lambda>r. Inr []"]
  show ?thesis by (auto simp: new_response_def toy_lib_def new_hyper_def frames_of_def)
qed

text \<open>The number of turns the loop is given is enough: with frames of positive size, more turns
  give the same result.\<close>

theorem send_loop_enough:
  assumes "\<forall>s. 0 < h2_frame_size lib s" and "length body < n"
  shows "send_loop (Suc n) lib parent stream pushes body s = send_loop n lib parent stream pushes body s"
  using assms(2)
proof (induction n arbitrary: body s)
  case 0
  then show ?case by simp
next
  case (Suc n)
  have next_turn: "send_loop (Suc n) lib parent stream pushes (drop k body) t =
      send_loop n lib parent stream pushes (drop k body) t"
    if "drop k body \<noteq> []" and "0 < k" for k t
    using that Suc.prems by (intro Suc.IH) simp
  have "0 < min (min (nat w) (length body)) (h2_frame_size lib s)"
    if "\<not> w < 1" and "drop (min (min (nat w) (length body)) (h2_frame_size lib s)) body \<noteq> []" for w
    using that assms(1) by auto
  with next_turn show ?case
    unfolding send_loop.simps(2) [of "Suc n"] send_loop.simps(2) [of n lib parent stream pushes body]
    by (auto simp: Let_def split: sum.split prod.split option.split simp del: send_loop.simps)
qed

theorem send_loop_enough_witness:
  "send_loop 7 toy_lib 1 1 False ''hello'' \<lparr>ty_window = 9, ty_open = True, ty_sent = []\<rparr> =
     send_loop 6 toy_lib 1 1 False ''hello'' \<lparr>ty_window = 9, ty_open = True, ty_sent = []\<rparr>"
proof -
  have "\<forall>s. 0 < h2_frame_size toy_lib s" by (simp add: toy_lib_def)
  from send_loop_enough [OF this, of "''hello''" 6] show ?thesis by (simp add: numeral_eq_Suc del: send_loop.simps)
qed

text \<open>Data that the HTTP/2 library refuses is taken exactly if it is an HTTP/1.1 request that asks
  for \<open>h2c\<close> with settings: then the answer is the switch of protocols followed by what the library has
  to send, and the request continues as stream 1. Otherwise the error is that of the HTTP/1 parser, or
  \<open>ParseError\<close>.\<close>

theorem upgrade_outcome:
  assumes "h2_receive lib data (hy_conn hy) = (Inl e, s)" and "protocol_error e"
    and "occurs_in ''HTTP'' data"
  shows "fst (hyper_handle_request lib hy data) =
    (case simple_handle_request data of
       Inl e \<Rightarrow> Inl e
     | Inr (_, reqs, _) \<Rightarrow>
         (case wants_h2c (hd reqs) of
            None \<Rightarrow> Inl ParseError
          | Some settings \<Rightarrow>
              (case h2_upgrade lib settings (h2_clear lib s) of
                 (Some e, _) \<Rightarrow> Inl e
               | (None, s1) \<Rightarrow>
                   Inr (switching @ CRLF @ fst (h2_to_send lib s1), [(hd reqs)\<lparr>rq_stream := 1\<rparr>], False))))"
proof (cases "simple_handle_request data")
  case (Inl e')
  with assms show ?thesis
    by (simp add: hyper_handle_request_def hyper_handle_http1_def handle_http1_cases)
next
  case (Inr parsed)
  have some: "wants_h2c r = Some settings \<Longrightarrow> map_of (rq_headers r) ''http2-settings'' = Some settings"
    for r settings
    by (auto simp: wants_h2c_def split: option.splits if_splits)
  have "switching \<noteq> []" by (simp add: switching_def)
  with Inr assms some show ?thesis
    by (cases "wants_h2c (hd (fst (snd parsed)))")
      (auto simp: hyper_handle_request_def hyper_handle_http1_def handle_http1_cases
        split: prod.splits option.splits)
qed

definition h2c_request :: bytes where
  "h2c_request = ''GET / HTTP/1.1'' @ CRLF @ ''Upgrade: h2c'' @ CRLF @ ''HTTP2-Settings: AAMA'' @ CRLF @ CRLF"

theorem upgrade_outcome_witness:
  "fst (hyper_handle_request toy_lib (new_hyper \<lparr>ty_window = 3, ty_open = True, ty_sent = []\<rparr>) h2c_request) =
     Inr (switching @ CRLF @ ''frames'',
          [new_request ''/'' ''GET'' (Some []) [(''upgrade'', ''h2c''), (''http2-settings'', ''AAMA'')]
             ''HTTP/1.1'' 1 ''http''], False)"
proof -
  have parsed: "simple_handle_request h2c_request =
      Inr ([], [new_request ''/'' ''GET'' (Some []) [(''upgrade'', ''h2c''), (''http2-settings'', ''AAMA'')]
                  ''HTTP/1.1'' 0 ''http''], False)"
    by code_simp
  have wants: "wants_h2c (new_request ''/'' ''GET'' (Some [])
      [(''upgrade'', ''h2c''), (''http2-settings'', ''AAMA'')] ''HTTP/1.1'' 0 ''http'') = Some ''AAMA''"
    by code_simp
  have "occurs_in ''HTTP'' h2c_request" by code_simp
  from upgrade_outcome [of toy_lib h2c_request "new_hyper \<lparr>ty_window = 3, ty_open = True, ty_sent = []\<rparr>"
      ProtocolError "\<lparr>ty_window = 3, ty_open = True, ty_sent = []\<rparr>", OF _ _ this]
  show ?thesis
    by (simp add: parsed wants) (simp add: toy_lib_def protocol_error_def new_hyper_def new_request_def)
qed

end
