(* ===== verification/HttpTools.thy ===== *)
theory HttpTools
  imports HttpSimple PyText
begin

text \<open>
  \<^verbatim>\<open>levin/core/parsers/http_tools.py\<close>: the HTTP/1 parser on top of the \<open>httptools\<close> package.

  \<open>HttpRequestParser\<close> is not under \<^verbatim>\<open>src/\<close>: it is an argument. \<open>feed_data\<close> on a fresh parser
  makes a sequence of calls on the object it was given (of the callbacks that \<open>_PRequest\<close>
  defines), may end with an exception, and leaves a method and a version to be asked for; all of
  this is a function of the data, because a parser lives for one call of \<open>handle_request\<close>.
\<close>

section \<open>The library parser\<close>

datatype tools_call = On_url bytes | On_header bytes bytes | On_body bytes | On_message_complete

record tools_feed =
  tf_calls :: "tools_call list"
  tf_error :: "exn option"
  tf_method :: bytes
  tf_version :: pystr

type_synonym httptools = "bytes \<Rightarrow> tools_feed"

section \<open>Collecting the request\<close>

record p_request =
  pq_headers :: "(bytes \<times> bytes) list"
  pq_path :: "bytes option"
  pq_body :: bytes
  pq_ready :: bool

definition new_p_request :: p_request where
  "new_p_request = \<lparr>pq_headers = [], pq_path = None, pq_body = [], pq_ready = False\<rparr>"

fun tools_callback :: "tools_call \<Rightarrow> p_request \<Rightarrow> p_request" where
  "tools_callback (On_url url) pq = pq\<lparr>pq_path := Some url\<rparr>"
| "tools_callback (On_header name value) pq = pq\<lparr>pq_headers := pq_headers pq @ [(lower name, value)]\<rparr>"
| "tools_callback (On_body body) pq = pq\<lparr>pq_body := body\<rparr>"
| "tools_callback On_message_complete pq = pq\<lparr>pq_ready := True\<rparr>"

definition tools_collect :: "tools_call list \<Rightarrow> p_request" where
  "tools_collect calls = foldl (\<lambda>pq c. tools_callback c pq) new_p_request calls"

text \<open>\<open>Parser.handle_request\<close>. A message is complete only after its URL was seen, so the path is
  there when it is read; \<open>[]\<close> stands in its place otherwise.\<close>

definition tools_handle_request :: "httptools \<Rightarrow> bytes \<Rightarrow> parsed result" where
  "tools_handle_request ht data =
     (let feed = ht data; pq = tools_collect (tf_calls feed)
      in (case tf_error feed of
            Some e \<Rightarrow> Inl (if e = HttpParserInvalidMethodError then ParseError else e)
          | None \<Rightarrow>
              if pq_ready pq then
                (case encode (tf_version feed) of
                   Inl e \<Rightarrow> Inl e
                 | Inr version \<Rightarrow>
                     Inr ([], [new_request (case pq_path pq of Some p \<Rightarrow> p | None \<Rightarrow> []) (tf_method feed)
                                 (Some (pq_body pq)) (pq_headers pq) (''HTTP/'' @ version) 0 ''http''],
                          False))
              else Inl ParseError))"

section \<open>What the collector keeps\<close>

definition header_calls :: "tools_call list \<Rightarrow> (bytes \<times> bytes) list" where
  "header_calls calls = concat (map (\<lambda>c. case c of On_header n v \<Rightarrow> [(n, v)] | _ \<Rightarrow> []) calls)"

definition body_calls :: "tools_call list \<Rightarrow> bytes list" where
  "body_calls calls = concat (map (\<lambda>c. case c of On_body b \<Rightarrow> [b] | _ \<Rightarrow> []) calls)"

definition url_calls :: "tools_call list \<Rightarrow> bytes list" where
  "url_calls calls = concat (map (\<lambda>c. case c of On_url u \<Rightarrow> [u] | _ \<Rightarrow> []) calls)"

definition last_of :: "'a \<Rightarrow> 'a list \<Rightarrow> 'a" where
  "last_of d xs = (if xs = [] then d else last xs)"

lemma last_of_simps [simp]: "last_of d [] = d" "last_of d (xs @ [x]) = x" "last_of d [x] = x"
  by (simp_all add: last_of_def)

lemma tools_collect_eq:
  "tools_collect calls =
     \<lparr>pq_headers = map (\<lambda>(n, v). (lower n, v)) (header_calls calls),
      pq_path = last_of None (map Some (url_calls calls)),
      pq_body = last_of [] (body_calls calls),
      pq_ready = (On_message_complete \<in> set calls)\<rparr>"
proof (induction calls rule: rev_induct)
  case Nil
  show ?case
    by (simp add: tools_collect_def new_p_request_def header_calls_def url_calls_def body_calls_def)
next
  case (snoc c calls)
  have "tools_collect (calls @ [c]) = tools_callback c (tools_collect calls)"
    by (simp add: tools_collect_def)
  then show ?case
    unfolding snoc.IH
    by (cases c) (simp_all add: header_calls_def url_calls_def body_calls_def)
qed

text \<open>Lowering a header name twice changes nothing, so the dictionary is that of the names sent.\<close>

lemma values_of_lowered: "values_of (map (\<lambda>(n, v). (lower n, v)) hs) k = values_of hs k"
  by (induction hs) (auto simp: values_of_def)

definition tools_request :: "tools_feed \<Rightarrow> bytes \<Rightarrow> request" where
  "tools_request feed version =
     new_request (last_of [] (url_calls (tf_calls feed))) (tf_method feed)
       (Some (last_of [] (body_calls (tf_calls feed))))
       (map (\<lambda>(n, v). (lower n, v)) (header_calls (tf_calls feed))) (''HTTP/'' @ version) 0 ''http''"

lemma tools_request_fields [simp]:
  "rq_body (tools_request feed version) = Some (last_of [] (body_calls (tf_calls feed)))"
  "rq_raw_path (tools_request feed version) = last_of [] (url_calls (tf_calls feed))"
  "rq_method (tools_request feed version) = tf_method feed"
  "rq_protocol (tools_request feed version) = ''HTTP/'' @ version"
  by (simp_all add: tools_request_def new_request_def)

lemma tools_request_headers:
  "map_of (rq_headers (tools_request feed version)) k =
     (if values_of (header_calls (tf_calls feed)) k = [] then None
      else Some (join ''; '' (values_of (header_calls (tf_calls feed)) k)))"
  by (simp add: tools_request_def new_request_def headers_map_lookup values_of_lowered)

lemma tools_handle_request_eq:
  "tools_handle_request ht data =
     (case tf_error (ht data) of
        Some e \<Rightarrow> Inl (if e = HttpParserInvalidMethodError then ParseError else e)
      | None \<Rightarrow>
          if On_message_complete \<in> set (tf_calls (ht data)) then
            (case encode (tf_version (ht data)) of
               Inl e \<Rightarrow> Inl e
             | Inr version \<Rightarrow> Inr ([], [tools_request (ht data) version], False))
          else Inl ParseError)"
proof -
  have path: "(case last_of None (map Some us) of Some p \<Rightarrow> p | None \<Rightarrow> []) = last_of [] us"
    for us :: "bytes list"
    by (cases us rule: rev_cases) simp_all
  have sel: "pq_ready (tools_collect calls) = (On_message_complete \<in> set calls)"
      "pq_headers (tools_collect calls) = map (\<lambda>(n, v). (lower n, v)) (header_calls calls)"
      "pq_body (tools_collect calls) = last_of [] (body_calls calls)"
      "(case pq_path (tools_collect calls) of Some p \<Rightarrow> p | None \<Rightarrow> []) = last_of [] (url_calls calls)"
    for calls
    unfolding tools_collect_eq p_request.simps path by simp_all
  show ?thesis
    unfolding tools_handle_request_def Let_def sel tools_request_def by simp
qed


section \<open>Properties\<close>

text \<open>The parser keeps only the last chunk of the body and the last URL the library reports: a
  body delivered in two chunks, or a second request in the same data, loses what came first, while
  the headers of all messages are merged into one request.\<close>

theorem tools_keeps_last:
  assumes "tools_handle_request ht data = Inr (out, requests, close)"
    and "tf_calls (ht data) = us @ On_body b # vs" and "body_calls vs = []"
    and "url_calls (tf_calls (ht data)) = urls @ [url]"
  shows "\<exists>req. requests = [req] \<and> rq_body req = Some b \<and> rq_raw_path req = url \<and>
    (\<forall>k. map_of (rq_headers req) k =
      (if values_of (header_calls (tf_calls (ht data))) k = [] then None
       else Some (join ''; '' (values_of (header_calls (tf_calls (ht data))) k))))"
proof -
  have body: "last_of [] (body_calls (tf_calls (ht data))) = b"
  proof -
    have "body_calls (us @ On_body b # vs) = body_calls us @ b # body_calls vs"
      by (simp add: body_calls_def)
    with assms(2,3) show ?thesis by simp
  qed
  obtain version where "requests = [tools_request (ht data) version]"
    using assms(1) by (auto simp: tools_handle_request_eq split: option.splits if_splits sum.splits)
  then show ?thesis by (simp add: body assms(4) tools_request_headers)
qed

definition two_chunks :: tools_feed where
  "two_chunks =
     \<lparr>tf_calls = [On_url ''/a'', On_header ''Host'' ''x'', On_body ''first'', On_body ''second'',
                  On_message_complete],
      tf_error = None, tf_method = ''POST'', tf_version = lit ''1.1''\<rparr>"

theorem tools_keeps_last_witness:
  "\<exists>req. [tools_request two_chunks ''1.1''] = [req] \<and> rq_body req = Some ''second'' \<and>
    rq_raw_path req = ''/a'' \<and>
    (\<forall>k. map_of (rq_headers req) k =
      (if values_of (header_calls (tf_calls two_chunks)) k = [] then None
       else Some (join ''; '' (values_of (header_calls (tf_calls two_chunks)) k))))"
proof (rule tools_keeps_last [of "\<lambda>_. two_chunks" "[]" "[]" _ False
      "[On_url ''/a'', On_header ''Host'' ''x'', On_body ''first'']" _ "[On_message_complete]" "[]"])
  have "encode (tf_version two_chunks) = Inr ''1.1''" by (simp add: two_chunks_def del: lit_simps)
  then show "tools_handle_request (\<lambda>_. two_chunks) [] = Inr ([], [tools_request two_chunks ''1.1''], False)"
    by (simp add: tools_handle_request_eq) (simp add: two_chunks_def)
qed (simp_all add: two_chunks_def body_calls_def url_calls_def)

text \<open>When the parser takes the data: exactly if the library reports no error and a complete
  message; an unknown method and an incomplete message are parse errors, any other error of the
  library passes through.\<close>

theorem tools_outcome:
  assumes "encode (tf_version (ht data)) = Inr version"
  shows "tools_handle_request ht data =
     (case tf_error (ht data) of
        Some e \<Rightarrow> Inl (if e = HttpParserInvalidMethodError then ParseError else e)
      | None \<Rightarrow> if On_message_complete \<in> set (tf_calls (ht data))
                then Inr ([], [tools_request (ht data) version], False) else Inl ParseError)"
  using assms by (simp add: tools_handle_request_eq split: option.split)

theorem tools_outcome_witness:
  "tools_handle_request
     (\<lambda>_. two_chunks\<lparr>tf_calls := [On_url ''/a'', On_body ''first'']\<rparr>) [] = Inl ParseError"
  using tools_outcome [of "\<lambda>_. two_chunks\<lparr>tf_calls := [On_url ''/a'', On_body ''first'']\<rparr>" "[]" "''1.1''"]
  by (simp add: two_chunks_def del: lit_simps)

end
