(* ===== verification/Component.thy ===== *)
theory Component
  imports Prelude
begin

text \<open>
  \<^verbatim>\<open>levin/core/component.py\<close>: components and their configurable parameters.

  A class is the dictionary of what its own body defines (\<open>vars(cls)\<close>, in order, without
  what it inherits); a component is an instance with its identity, its name, its class, its
  instance dictionary and, when it has one, a middleware. The bodies of \<open>init\<close>, \<open>start\<close>
  and \<open>stop\<close> belong to the subclasses; here they are an argument (\<open>hook\<close>) that says which
  exception the call raises, if any.
\<close>

section \<open>Classes and instances\<close>

text \<open>A class attribute: a plain function (a method of the instances), a property, or any other
  value, static methods and nested classes among them.\<close>

datatype class_attr = AFunction | AProperty | AValue pyval

text \<open>The value of an instance attribute: \<open>inspect.ismethod\<close> holds of bound methods only.\<close>

datatype inst_value = BoundMethod nat | Value pyval

record component =
  co_id :: nat
  co_name :: name
  co_vars :: "(name \<times> class_attr) list"
  co_enable_default :: bool
  co_dict :: "(name \<times> inst_value) list"
  co_middleware :: "nat option"

text \<open>\<open>inspect.ismethod(getattr(self, param))\<close> for a name of the class: the instance dictionary
  shadows functions and values.\<close>

definition attr_is_method :: "component \<Rightarrow> name \<Rightarrow> class_attr \<Rightarrow> bool" where
  "attr_is_method c p a =
     (case map_of (co_dict c) p of
        Some (BoundMethod m) \<Rightarrow> True
      | Some (Value v) \<Rightarrow> False
      | None \<Rightarrow> a = AFunction)"

definition skip_param :: "component \<Rightarrow> name \<Rightarrow> class_attr \<Rightarrow> bool" where
  "skip_param c p a \<longleftrightarrow>
     take 1 p = ''_'' \<or> p = ''name'' \<or> p = ''middleware'' \<or> a = AProperty \<or> attr_is_method c p a"

definition get_configure_params :: "component \<Rightarrow> name list" where
  "get_configure_params c =
     map fst (filter (\<lambda>(p, a). \<not> skip_param c p a) (co_vars c)) @ [''enable'']"

text \<open>\<open>setattr\<close> on the instance.\<close>

definition set_attr :: "component \<Rightarrow> name \<Rightarrow> inst_value \<Rightarrow> component" where
  "set_attr c p v = c\<lparr>co_dict := AList.update p v (co_dict c)\<rparr>"

definition set_from :: "(name \<times> inst_value) list \<Rightarrow> name \<Rightarrow> component \<Rightarrow> component" where
  "set_from kwargs p c = (case map_of kwargs p of None \<Rightarrow> c | Some v \<Rightarrow> set_attr c p v)"

text \<open>\<open>configure\<close>: the generator is asked for the next parameter after the previous one is set.\<close>

fun configure_vars ::
  "(name \<times> inst_value) list \<Rightarrow> (name \<times> class_attr) list \<Rightarrow> component \<Rightarrow> component" where
  "configure_vars kwargs [] c = c"
| "configure_vars kwargs ((p, a) # vars) c =
     configure_vars kwargs vars (if skip_param c p a then c else set_from kwargs p c)"

definition configure :: "(name \<times> inst_value) list \<Rightarrow> component \<Rightarrow> component" where
  "configure kwargs c = set_from kwargs ''enable'' (configure_vars kwargs (co_vars c) c)"

definition co_enabled :: "component \<Rightarrow> bool" where
  "co_enabled c =
     (case map_of (co_dict c) ''enable'' of
        None \<Rightarrow> co_enable_default c
      | Some (Value v) \<Rightarrow> truthy v
      | Some (BoundMethod m) \<Rightarrow> True)"

text \<open>\<open>_start\<close>: the exception that leaves it, if any.\<close>

definition component_start :: "(component \<Rightarrow> exn option) \<Rightarrow> component \<Rightarrow> exn option" where
  "component_start hook c = (if \<not> co_enabled c then Some DisableComponentError else hook c)"

text \<open>\<open>MiddlewareComponent\<close>: its class, and the instance that \<open>create_component_from\<close> builds of a
  callable (identity and name) and of the hooks. \<open>name or middleware.__name__\<close> takes the
  callable's name when the given one is missing or empty.\<close>

definition middleware_vars :: "(name \<times> class_attr) list" where
  "middleware_vars =
     [(''__module__'', AValue (PStr [])), (''on_start'', AValue PNone), (''on_stop'', AValue PNone),
      (''middleware'', AValue PNone), (''__init__'', AFunction), (''start'', AFunction),
      (''stop'', AFunction), (''__doc__'', AValue PNone)]"

definition create_component_from ::
  "nat \<Rightarrow> nat \<times> name \<Rightarrow> inst_value \<Rightarrow> inst_value \<Rightarrow> name option \<Rightarrow> component" where
  "create_component_from ident middleware on_start on_stop name =
     configure [(''on_start'', on_start), (''on_stop'', on_stop)]
       \<lparr>co_id = ident,
        co_name = (case name of
                     None \<Rightarrow> snd middleware
                   | Some n \<Rightarrow> if n = [] then snd middleware else n),
        co_vars = middleware_vars, co_enable_default = True, co_dict = [],
        co_middleware = Some (fst middleware)\<rparr>"

section \<open>Lemmas\<close>

lemma set_attr_frame [simp]:
  "co_id (set_attr c p v) = co_id c" "co_name (set_attr c p v) = co_name c"
  "co_vars (set_attr c p v) = co_vars c" "co_middleware (set_attr c p v) = co_middleware c"
  "co_enable_default (set_attr c p v) = co_enable_default c"
  by (simp_all add: set_attr_def)

lemma set_from_frame [simp]:
  "co_id (set_from kw p c) = co_id c" "co_name (set_from kw p c) = co_name c"
  "co_vars (set_from kw p c) = co_vars c" "co_middleware (set_from kw p c) = co_middleware c"
  "co_enable_default (set_from kw p c) = co_enable_default c"
  by (simp_all add: set_from_def split: option.split)

lemma configure_vars_frame [simp]:
  "co_id (configure_vars kw vars c) = co_id c" "co_name (configure_vars kw vars c) = co_name c"
  "co_vars (configure_vars kw vars c) = co_vars c"
  "co_middleware (configure_vars kw vars c) = co_middleware c"
  "co_enable_default (configure_vars kw vars c) = co_enable_default c"
  by (induction kw vars c rule: configure_vars.induct) auto

lemma configure_frame [simp]:
  "co_id (configure kw c) = co_id c" "co_name (configure kw c) = co_name c"
  "co_vars (configure kw c) = co_vars c" "co_middleware (configure kw c) = co_middleware c"
  by (simp_all add: configure_def)

lemma lookup_set_from:
  "map_of (co_dict (set_from kw p c)) q =
     (if q = p \<and> map_of kw p \<noteq> None then map_of kw p else map_of (co_dict c) q)"
  by (auto simp: set_from_def set_attr_def map_of_update split: option.split)

lemma skip_param_cong:
  "map_of (co_dict c) p = map_of (co_dict c') p \<Longrightarrow> skip_param c p a = skip_param c' p a"
  by (simp add: skip_param_def attr_is_method_def)

lemma lookup_configure_vars:
  assumes "distinct (map fst vars)"
  shows "map_of (co_dict (configure_vars kw vars c)) p =
     (case map_of vars p of
        Some a \<Rightarrow> if \<not> skip_param c p a \<and> map_of kw p \<noteq> None then map_of kw p
                  else map_of (co_dict c) p
      | None \<Rightarrow> map_of (co_dict c) p)"
  using assms
proof (induction vars arbitrary: c)
  case Nil
  then show ?case by simp
next
  case (Cons qa vars)
  obtain q a where qa: "qa = (q, a)" by (cases qa)
  define d where "d = (if skip_param c q a then c else set_from kw q c)"
  have dist: "distinct (map fst vars)" and fresh: "map_of vars q = None"
    using Cons.prems qa by (simp_all add: map_of_eq_None_iff)
  have step: "configure_vars kw (qa # vars) c = configure_vars kw vars d"
    by (simp add: qa d_def)
  show ?case
  proof (cases "p = q")
    case True
    then show ?thesis
      using Cons.IH [OF dist, of d] step qa fresh by (simp add: d_def lookup_set_from)
  next
    case False
    then have same: "map_of (co_dict d) p = map_of (co_dict c) p"
      by (simp add: d_def lookup_set_from)
    then have "skip_param d p = skip_param c p" by (intro ext skip_param_cong)
    with same show ?thesis
      using Cons.IH [OF dist, of d] step qa False by (simp split: option.split)
  qed
qed

lemma in_configure_params:
  assumes "distinct (map fst (co_vars c))"
  shows "p \<in> set (get_configure_params c) \<longleftrightarrow>
     p = ''enable'' \<or> (\<exists>a. map_of (co_vars c) p = Some a \<and> \<not> skip_param c p a)"
  using assms by (force simp: get_configure_params_def)

lemma lookup_configure:
  assumes "distinct (map fst (co_vars c))"
  shows "map_of (co_dict (configure kw c)) p =
     (if p \<in> set (get_configure_params c) \<and> map_of kw p \<noteq> None then map_of kw p
      else map_of (co_dict c) p)"
  unfolding configure_def lookup_set_from lookup_configure_vars [OF assms] in_configure_params [OF assms]
  by (auto split: option.split)

section \<open>Properties\<close>

text \<open>\<open>configure\<close> sets exactly the given attributes that are parameters of the component (own
  class attributes that are neither private nor methods nor properties, and \<open>enable\<close>); it ignores
  the others without an error, and every other attribute keeps its value.\<close>

theorem configure_sets_params:
  assumes "distinct (map fst (co_vars c))"
  shows "map_of (co_dict (configure kwargs c)) p =
     (if p \<in> set (get_configure_params c) \<and> map_of kwargs p \<noteq> None then map_of kwargs p
      else map_of (co_dict c) p)"
  using assms by (rule lookup_configure)

definition sample_component :: component where
  "sample_component =
     \<lparr>co_id = 1, co_name = ''handler_timeout'',
      co_vars = [(''name'', AValue (PStr [])), (''timeout'', AValue (PInt 10)), (''start'', AFunction)],
      co_enable_default = True, co_dict = [], co_middleware = Some 1\<rparr>"

theorem configure_sets_params_witness:
  "map_of (co_dict (configure [(''timeout'', Value (PInt 3)), (''start'', Value PNone)] sample_component))
     ''timeout'' = Some (Value (PInt 3)) \<and>
   map_of (co_dict (configure [(''timeout'', Value (PInt 3)), (''start'', Value PNone)] sample_component))
     ''start'' = None"
  by (simp add: configure_sets_params sample_component_def get_configure_params_def skip_param_def
      attr_is_method_def)

text \<open>A parameter that is once configured with a bound method stops being a parameter, since
  \<open>get_configure_params\<close> skips names whose instance value is a method: every later
  \<open>configure\<close> of it is ignored.\<close>

theorem bound_method_sticks:
  assumes "distinct (map fst (co_vars c))" and "p \<in> set (get_configure_params c)" and "p \<noteq> ''enable''"
  shows "map_of (co_dict (configure later (configure [(p, BoundMethod m)] c))) p = Some (BoundMethod m)"
proof -
  let ?c = "configure [(p, BoundMethod m)] c"
  have first: "map_of (co_dict ?c) p = Some (BoundMethod m)"
    using assms by (simp add: lookup_configure)
  then have "skip_param ?c p a" for a by (simp add: skip_param_def attr_is_method_def)
  then have "p \<notin> set (get_configure_params ?c)"
    using assms(1,3) by (simp add: in_configure_params)
  with first assms(1) show ?thesis by (simp add: lookup_configure)
qed

theorem bound_method_sticks_witness:
  "map_of (co_dict (configure [(''timeout'', Value (PInt 3))]
     (configure [(''timeout'', BoundMethod 7)] sample_component))) ''timeout'' = Some (BoundMethod 7)"
  by (rule bound_method_sticks)
    (simp_all add: sample_component_def get_configure_params_def skip_param_def attr_is_method_def)

end
