(* ===== verification/Application.thy ===== *)
theory Application
  imports Component
begin

text \<open>
  \<^verbatim>\<open>levin/core/app.py\<close>: the application, its list of components, the chain of middlewares
  and the lifecycle (\<open>init\<close> on \<open>add\<close>, \<open>start\<close>, \<open>stop\<close>).

  The hooks of the components are arguments that give the exception a call raises, if any. The log
  records which hooks were called, by component identity. Operations return the exception that
  leaves them, if any, and the application as they leave it.
\<close>

section \<open>The chain of middlewares\<close>

text \<open>\<open>partial(component.middleware, call_next=call_next)\<close>, down to \<open>_call_next\<close>.\<close>

datatype chain = CallNext | Layer component chain

text \<open>The loop of \<open>_create_handler\<close> over \<open>self._components[::-1]\<close>.\<close>

definition create_chain :: "component list \<Rightarrow> chain" where
  "create_chain components =
     foldl (\<lambda>call_next c. if co_middleware c \<noteq> None then Layer c call_next else call_next)
       CallNext (rev components)"

text \<open>Calling the chain: \<open>mw\<close> says what the middleware of a component does with the request, the
  handler and the rest of the chain; \<open>base\<close> is \<open>_call_next\<close>.\<close>

primrec run_chain ::
  "(component \<Rightarrow> ('h \<Rightarrow> 'm) \<Rightarrow> 'h \<Rightarrow> 'm) \<Rightarrow> ('h \<Rightarrow> 'm) \<Rightarrow> chain \<Rightarrow> 'h \<Rightarrow> 'm" where
  "run_chain mw base CallNext h = base h"
| "run_chain mw base (Layer c call_next) h = mw c (run_chain mw base call_next) h"

section \<open>State and operations\<close>

datatype event = Init nat | Start nat | Stop nat

record 'h app =
  ap_components :: "component list"
  ap_default :: 'h
  ap_handler :: "(chain \<times> 'h) option"
  ap_started :: bool
  ap_log :: "event list"

text \<open>\<open>list.insert(i, x)\<close>: a negative index counts from the end, and both ends are clamped.\<close>

definition py_insert :: "int \<Rightarrow> 'a \<Rightarrow> 'a list \<Rightarrow> 'a list" where
  "py_insert i x xs =
     (let n = int (length xs);
          j = (if i < 0 then max 0 (i + n) else min i n)
      in take (nat j) xs @ x # drop (nat j) xs)"

text \<open>What \<open>add\<close> accepts: a component, a callable (identity and name), or a \<open>str\<close>, which has
  no \<open>__name__\<close>. \<open>fresh\<close> is the identity of the component made of a callable.\<close>

datatype component_arg = AComponent component | ACallable nat name | AString pystr

definition to_component :: "nat \<Rightarrow> component_arg \<Rightarrow> component result" where
  "to_component fresh arg =
     (case arg of
        AComponent c \<Rightarrow> Inr c
      | ACallable f n \<Rightarrow> Inr (create_component_from fresh (f, n) (Value PNone) (Value PNone) None)
      | AString s \<Rightarrow> Inl AttributeError)"

text \<open>\<open>position or len(self._components)\<close>: \<open>None\<close> and \<open>0\<close> are both false.\<close>

definition insert_position :: "int option \<Rightarrow> component list \<Rightarrow> int" where
  "insert_position position components =
     (case position of
        None \<Rightarrow> int (length components)
      | Some i \<Rightarrow> if i = 0 then int (length components) else i)"

definition add_component ::
  "(component \<Rightarrow> exn option) \<Rightarrow> nat \<Rightarrow> component_arg \<Rightarrow> int option \<Rightarrow> 'h app \<Rightarrow> exn option \<times> 'h app" where
  "add_component init fresh arg position app =
     (case to_component fresh arg of
        Inl e \<Rightarrow> (Some e, app)
      | Inr c \<Rightarrow>
          (init c,
           app\<lparr>ap_components := py_insert (insert_position position (ap_components app)) c (ap_components app),
               ap_log := ap_log app @ [Init (co_id c)]\<rparr>))"

fun init_components ::
  "(component \<Rightarrow> exn option) \<Rightarrow> component list \<Rightarrow> 'h app \<Rightarrow> exn option \<times> 'h app" where
  "init_components init [] app = (None, app)"
| "init_components init (c # cs) app =
     (case add_component init 0 (AComponent c) None app of
        (Some e, app') \<Rightarrow> (Some e, app')
      | (None, app') \<Rightarrow> init_components init cs app')"

definition new_app ::
  "(component \<Rightarrow> exn option) \<Rightarrow> component list \<Rightarrow> 'h \<Rightarrow> exn option \<times> 'h app" where
  "new_app init components default_handler =
     init_components init components
       \<lparr>ap_components = [], ap_default = default_handler, ap_handler = None,
        ap_started = False, ap_log = []\<rparr>"

definition create_handler :: "'h \<Rightarrow> 'h app \<Rightarrow> 'h app" where
  "create_handler handler app = app\<lparr>ap_handler := Some (create_chain (ap_components app), handler)\<rparr>"

text \<open>The first loop of \<open>start\<close>: the exception that ends it, the components to remove and the
  events. \<open>component.start\<close> is entered only by an enabled component.\<close>

fun start_loop ::
  "(component \<Rightarrow> exn option) \<Rightarrow> component list \<Rightarrow> exn option \<times> component list \<times> event list" where
  "start_loop hook [] = (None, [], [])"
| "start_loop hook (c # cs) =
     (let called = (if co_enabled c then [Start (co_id c)] else [])
      in (case component_start hook c of
            None \<Rightarrow> (case start_loop hook cs of (e, rm, ev) \<Rightarrow> (e, rm, called @ ev))
          | Some e \<Rightarrow>
              if e = DisableComponentError
              then (case start_loop hook cs of (e', rm, ev) \<Rightarrow> (e', c # rm, called @ ev))
              else (Some e, [], called)))"

definition remove_all :: "component list \<Rightarrow> component list \<Rightarrow> component list" where
  "remove_all to_remove components = foldl (\<lambda>cs c. remove1 c cs) components to_remove"

definition app_start :: "(component \<Rightarrow> exn option) \<Rightarrow> 'h app \<Rightarrow> exn option \<times> 'h app" where
  "app_start hook app =
     (if ap_started app then (None, app)
      else
        (case start_loop hook (ap_components app) of
           (Some e, _, ev) \<Rightarrow> (Some e, app\<lparr>ap_started := True, ap_log := ap_log app @ ev\<rparr>)
         | (None, rm, ev) \<Rightarrow>
             (None, create_handler (ap_default app)
                (app\<lparr>ap_started := True, ap_log := ap_log app @ ev,
                     ap_components := remove_all rm (ap_components app)\<rparr>))))"

fun stop_loop :: "(component \<Rightarrow> exn option) \<Rightarrow> component list \<Rightarrow> exn option \<times> event list" where
  "stop_loop hook [] = (None, [])"
| "stop_loop hook (c # cs) =
     (case hook c of
        Some e \<Rightarrow> (Some e, [Stop (co_id c)])
      | None \<Rightarrow> (case stop_loop hook cs of (e, ev) \<Rightarrow> (e, Stop (co_id c) # ev)))"

definition app_stop :: "(component \<Rightarrow> exn option) \<Rightarrow> 'h app \<Rightarrow> exn option \<times> 'h app" where
  "app_stop hook app =
     (if \<not> ap_started app then (None, app)
      else (case stop_loop hook (ap_components app) of
              (e, ev) \<Rightarrow> (e, app\<lparr>ap_log := ap_log app @ ev\<rparr>)))"

definition get_component :: "name \<Rightarrow> 'h app \<Rightarrow> component option" where
  "get_component name app = find (\<lambda>c. co_name c = name) (ap_components app)"

text \<open>\<open>__getattr__\<close>: what \<open>app.<name>\<close> gives for a name that is no attribute.\<close>

definition app_getattr :: "name \<Rightarrow> 'h app \<Rightarrow> component result" where
  "app_getattr item app =
     (case find (\<lambda>c. co_name c = item) (ap_components app) of
        Some c \<Rightarrow> Inr c
      | None \<Rightarrow> Inl AttributeError)"

text \<open>A component is one object, wherever it stands in the list.\<close>

definition update_component :: "nat \<Rightarrow> (component \<Rightarrow> component) \<Rightarrow> 'h app \<Rightarrow> 'h app" where
  "update_component ident f app =
     app\<lparr>ap_components := map (\<lambda>c. if co_id c = ident then f c else c) (ap_components app)\<rparr>"

fun app_configure ::
  "(name \<times> (name \<times> inst_value) list) list \<Rightarrow> 'h app \<Rightarrow> exn option \<times> 'h app" where
  "app_configure [] app = (None, app)"
| "app_configure ((component_name, config) # configs) app =
     (case get_component component_name app of
        None \<Rightarrow> (Some ValueError, app)
      | Some c \<Rightarrow> app_configure configs (update_component (co_id c) (configure config) app))"

section \<open>Lemmas\<close>

lemma create_chain_Nil [simp]: "create_chain [] = CallNext"
  by (simp add: create_chain_def)

lemma create_chain_Cons [simp]:
  "create_chain (c # cs) =
     (if co_middleware c \<noteq> None then Layer c (create_chain cs) else create_chain cs)"
  by (simp add: create_chain_def)

lemma run_create_chain:
  "run_chain mw base (create_chain cs) =
     foldr (\<lambda>c next. if co_middleware c \<noteq> None then mw c next else next) cs base"
  by (induction cs) (auto intro!: ext)

lemma remove_all_skip: "c \<notin> set rm \<Longrightarrow> remove_all rm (c # cs) = c # remove_all rm cs"
  by (induction rm arbitrary: cs) (auto simp: remove_all_def)

lemma remove_all_filter: "remove_all (filter P cs) cs = filter (\<lambda>c. \<not> P c) cs"
proof (induction cs)
  case Nil
  then show ?case by (simp add: remove_all_def)
next
  case (Cons c cs)
  show ?case
  proof (cases "P c")
    case True
    then have "remove_all (filter P (c # cs)) (c # cs) = remove_all (filter P cs) cs"
      by (simp add: remove_all_def)
    with True Cons.IH show ?thesis by simp
  next
    case False
    then have "c \<notin> set (filter P cs)" by simp
    with False Cons.IH show ?thesis by (simp add: remove_all_skip)
  qed
qed

text \<open>A component is refused when it is disabled or when its \<open>start\<close> says so.\<close>

definition refused :: "(component \<Rightarrow> exn option) \<Rightarrow> component \<Rightarrow> bool" where
  "refused hook c \<longleftrightarrow> component_start hook c = Some DisableComponentError"

definition start_fails :: "(component \<Rightarrow> exn option) \<Rightarrow> component \<Rightarrow> bool" where
  "start_fails hook c \<longleftrightarrow> component_start hook c \<notin> {None, Some DisableComponentError}"

definition start_events :: "component list \<Rightarrow> event list" where
  "start_events cs = map (\<lambda>c. Start (co_id c)) (filter co_enabled cs)"

lemma start_loop_ok:
  assumes "list_all (\<lambda>c. \<not> start_fails hook c) cs"
  shows "start_loop hook cs = (None, filter (refused hook) cs, start_events cs)"
  using assms
proof (induction cs)
  case Nil
  then show ?case by (simp add: start_events_def)
next
  case (Cons c cs)
  then have "component_start hook c = None \<or> component_start hook c = Some DisableComponentError"
    by (auto simp: start_fails_def)
  with Cons show ?case by (auto simp: refused_def start_events_def)
qed

lemma start_loop_fails:
  assumes "list_ex (start_fails hook) cs"
  shows "\<exists>e rm ev. start_loop hook cs = (Some e, rm, ev) \<and> e \<noteq> DisableComponentError"
  using assms
proof (induction cs)
  case Nil
  then show ?case by simp
next
  case (Cons c cs)
  show ?case
  proof (cases "start_fails hook c")
    case True
    then obtain e where "component_start hook c = Some e" "e \<noteq> DisableComponentError"
      by (cases "component_start hook c") (auto simp: start_fails_def)
    then show ?thesis by simp
  next
    case False
    with Cons.prems have "list_ex (start_fails hook) cs" by simp
    from Cons.IH [OF this] obtain e rm ev where
      "start_loop hook cs = (Some e, rm, ev)" "e \<noteq> DisableComponentError" by blast
    moreover from False have "component_start hook c = None \<or>
        component_start hook c = Some DisableComponentError"
      by (auto simp: start_fails_def)
    ultimately show ?thesis by auto
  qed
qed

lemma start_loop_events:
  "start_loop hook cs = (e, rm, ev) \<Longrightarrow> x \<in> set ev \<Longrightarrow> \<exists>c \<in> set cs. x = Start (co_id c)"
  by (induction cs arbitrary: e rm ev)
    (force simp: Let_def split: option.splits if_splits prod.splits)+

lemma stop_loop_events:
  "stop_loop hook cs = (e, ev) \<Longrightarrow> x \<in> set ev \<Longrightarrow> \<exists>c \<in> set cs. x = Stop (co_id c)"
  by (induction cs arbitrary: e ev) (force split: option.splits prod.splits)+

lemma start_loop_subset:
  "start_loop hook cs = (e, rm, ev) \<Longrightarrow> set rm \<subseteq> set cs"
  by (induction cs arbitrary: e rm ev)
    (force simp: Let_def split: option.splits if_splits prod.splits)+

lemma remove_all_subset: "set (remove_all rm cs) \<subseteq> set cs"
proof (induction rm arbitrary: cs)
  case Nil
  then show ?case by (simp add: remove_all_def)
next
  case (Cons c rm)
  have "set (remove_all rm (remove1 c cs)) \<subseteq> set (remove1 c cs)" by (rule Cons.IH)
  also have "\<dots> \<subseteq> set cs" by (rule set_remove1_subset)
  finally show ?case by (simp add: remove_all_def)
qed

lemma set_py_insert: "set (py_insert i x xs) = insert x (set xs)"
proof -
  have "set (take n xs @ x # drop n xs) = insert x (set xs)" for n
    by (metis append_take_drop_id set_append Un_insert_right list.simps(15))
  then show ?thesis by (simp add: py_insert_def Let_def)
qed

lemma py_insert_end: "py_insert (int (length xs)) x xs = xs @ [x]"
  by (simp add: py_insert_def Let_def)

section \<open>The lifecycle as a state machine\<close>

text \<open>The operations that a program performs on an application, with any hooks.\<close>

inductive app_step :: "'h app \<Rightarrow> 'h app \<Rightarrow> bool" where
  add: "add_component init fresh arg position app = (e, app') \<Longrightarrow> app_step app app'"
| start: "app_start hook app = (e, app') \<Longrightarrow> app_step app app'"
| stop: "app_stop hook app = (e, app') \<Longrightarrow> app_step app app'"
| configure: "app_configure config app = (e, app') \<Longrightarrow> app_step app app'"

inductive app_reachable :: "'h app \<Rightarrow> bool" where
  new: "app_reachable \<lparr>ap_components = [], ap_default = h, ap_handler = None,
          ap_started = False, ap_log = []\<rparr>"
| step: "app_reachable app \<Longrightarrow> app_step app app' \<Longrightarrow> app_reachable app'"

text \<open>In every prefix of the log a component is initialised before it is started or stopped, and
  every component in the list has been initialised; nothing is started or stopped, and there is
  no handler, before \<open>start\<close>.\<close>

definition inits :: "event list \<Rightarrow> nat set" where
  "inits ev = {i. Init i \<in> set ev}"

fun ordered_log :: "nat set \<Rightarrow> event list \<Rightarrow> bool" where
  "ordered_log ready [] = True"
| "ordered_log ready (Init i # ev) = ordered_log (insert i ready) ev"
| "ordered_log ready (Start i # ev) \<longleftrightarrow> i \<in> ready \<and> ordered_log ready ev"
| "ordered_log ready (Stop i # ev) \<longleftrightarrow> i \<in> ready \<and> ordered_log ready ev"

definition app_inv :: "'h app \<Rightarrow> bool" where
  "app_inv app \<longleftrightarrow>
     ordered_log {} (ap_log app) \<and> co_id ` set (ap_components app) \<subseteq> inits (ap_log app) \<and>
     (\<not> ap_started app \<longrightarrow> ap_handler app = None \<and> (\<forall>i. Start i \<notin> set (ap_log app) \<and> Stop i \<notin> set (ap_log app)))"

lemma inits_append [simp]: "inits (xs @ ys) = inits xs \<union> inits ys"
  by (auto simp: inits_def)

lemma ordered_log_append:
  "ordered_log ready (xs @ ys) \<longleftrightarrow> ordered_log ready xs \<and> ordered_log (ready \<union> inits xs) ys"
proof (induction xs arbitrary: ready)
  case Nil
  then show ?case by (simp add: inits_def)
next
  case (Cons x xs)
  have "inits (x # xs) = (case x of Init i \<Rightarrow> {i} | _ \<Rightarrow> {}) \<union> inits xs"
    by (cases x) (auto simp: inits_def)
  with Cons show ?case by (cases x) (simp_all add: Un_ac)
qed

lemma ordered_no_init:
  "\<forall>x \<in> set ev. \<exists>i \<in> ready. x = Start i \<or> x = Stop i \<Longrightarrow> ordered_log ready ev"
  by (induction ev) auto

lemma app_inv_add:
  assumes "app_inv app" and "add_component init fresh arg position app = (e, app')"
  shows "app_inv app'"
proof (cases "to_component fresh arg")
  case (Inl e')
  with assms show ?thesis by (simp add: add_component_def)
next
  case (Inr c)
  have "inits [Init (co_id c)] = {co_id c}" by (auto simp: inits_def)
  with Inr assms show ?thesis
    by (fastforce simp: add_component_def app_inv_def set_py_insert ordered_log_append)
qed

lemma app_inv_start:
  assumes inv: "app_inv app" and st: "app_start hook app = (e, app')"
  shows "app_inv app'"
proof (cases "ap_started app")
  case True
  with assms show ?thesis by (simp add: app_start_def)
next
  case False
  obtain e1 rm ev where loop: "start_loop hook (ap_components app) = (e1, rm, ev)"
    by (cases "start_loop hook (ap_components app)") auto
  have "\<forall>x \<in> set ev. \<exists>i \<in> inits (ap_log app). x = Start i \<or> x = Stop i"
    using start_loop_events [OF loop] inv by (fastforce simp: app_inv_def)
  then have "ordered_log (inits (ap_log app)) ev" by (rule ordered_no_init)
  with inv have "ordered_log {} (ap_log app @ ev)"
    by (simp add: ordered_log_append app_inv_def)
  moreover have "co_id ` set (remove_all rm (ap_components app)) \<subseteq> inits (ap_log app @ ev)"
    using inv remove_all_subset [of rm "ap_components app"] by (auto simp: app_inv_def)
  ultimately show ?thesis
    using st inv False loop
    by (cases e1) (fastforce simp: app_start_def app_inv_def create_handler_def)+
qed

lemma app_inv_stop:
  assumes inv: "app_inv app" and st: "app_stop hook app = (e, app')"
  shows "app_inv app'"
proof (cases "ap_started app")
  case False
  with assms show ?thesis by (simp add: app_stop_def)
next
  case True
  obtain e1 ev where loop: "stop_loop hook (ap_components app) = (e1, ev)"
    by (cases "stop_loop hook (ap_components app)") auto
  have "\<forall>x \<in> set ev. \<exists>i \<in> inits (ap_log app). x = Start i \<or> x = Stop i"
    using stop_loop_events [OF loop] inv by (fastforce simp: app_inv_def)
  then have "ordered_log (inits (ap_log app)) ev" by (rule ordered_no_init)
  with inv have "ordered_log {} (ap_log app @ ev)"
    by (simp add: ordered_log_append app_inv_def)
  then have "app_inv (app\<lparr>ap_log := ap_log app @ ev\<rparr>)"
    using inv True by (fastforce simp: app_inv_def)
  then show ?thesis using st True loop by (simp add: app_stop_def)
qed

lemma update_component_ids:
  "co_id ` set (ap_components (update_component i (configure kw) app)) = co_id ` set (ap_components app)"
proof -
  have "co_id ` set (map f cs) = co_id ` set cs" if "\<And>c. co_id (f c) = co_id c" for f :: "component \<Rightarrow> component" and cs
    using that by (simp add: image_image)
  from this [of "\<lambda>c. if co_id c = i then configure kw c else c" "ap_components app"]
  show ?thesis by (simp add: update_component_def del: set_map)
qed

lemma app_inv_configure:
  "app_inv app \<Longrightarrow> app_configure config app = (e, app') \<Longrightarrow> app_inv app'"
proof (induction config arbitrary: app)
  case Nil
  then show ?case by simp
next
  case (Cons nc config)
  obtain n kw where nc: "nc = (n, kw)" by (cases nc)
  show ?case
  proof (cases "get_component n app")
    case None
    with Cons.prems nc show ?thesis by simp
  next
    case (Some c)
    let ?app = "update_component (co_id c) (configure kw) app"
    have "app_inv ?app"
      using Cons.prems(1) update_component_ids [of "co_id c" kw app]
      by (simp add: app_inv_def) (simp add: update_component_def)
    moreover have "app_configure config ?app = (e, app')"
      using Cons.prems(2) nc Some by simp
    ultimately show ?thesis by (rule Cons.IH)
  qed
qed

lemma app_step_inv: "app_step app app' \<Longrightarrow> app_inv app \<Longrightarrow> app_inv app'"
  by (induction rule: app_step.induct)
    (auto intro: app_inv_add app_inv_start app_inv_stop app_inv_configure)

lemma app_reachable_inv: "app_reachable app \<Longrightarrow> app_inv app"
proof (induction rule: app_reachable.induct)
  case (new h)
  show ?case by (simp add: app_inv_def)
next
  case (step app app')
  then show ?case by (blast intro: app_step_inv)
qed

lemma ordered_log_split:
  "ordered_log ready (xs @ x # ys) \<Longrightarrow> x = Start i \<or> x = Stop i \<Longrightarrow> i \<in> ready \<or> Init i \<in> set xs"
  by (auto simp: ordered_log_append inits_def)

section \<open>Properties\<close>

text \<open>Calling the handler that \<open>_create_handler\<close> builds runs the middlewares in the order of
  the component list, the first component outermost, and skips components without a middleware.\<close>

theorem chain_order:
  "run_chain mw base (create_chain components) h =
     foldr (\<lambda>c next. if co_middleware c \<noteq> None then mw c next else next) components base h"
  by (simp add: run_create_chain)

text \<open>C15: \<open>start\<close>, when no hook fails: every enabled component is started once, in order, exactly
  the disabled or refusing components are removed, whatever their number and position, and the
  handler is the chain of the rest around the default handler.\<close>

theorem start_keeps_enabled:
  assumes "\<not> ap_started app" and "list_all (\<lambda>c. \<not> start_fails hook c) (ap_components app)"
  shows "app_start hook app =
    (None, app\<lparr>ap_started := True,
               ap_log := ap_log app @ map (\<lambda>c. Start (co_id c)) (filter co_enabled (ap_components app)),
               ap_components := filter (\<lambda>c. \<not> refused hook c) (ap_components app),
               ap_handler := Some (create_chain (filter (\<lambda>c. \<not> refused hook c) (ap_components app)),
                                   ap_default app)\<rparr>)"
  using assms by (simp add: app_start_def start_loop_ok remove_all_filter create_handler_def start_events_def)

definition plain_component :: "nat \<Rightarrow> bool \<Rightarrow> component" where
  "plain_component i enabled =
     \<lparr>co_id = i, co_name = ''c'', co_vars = [], co_enable_default = enabled, co_dict = [],
      co_middleware = Some i\<rparr>"

definition sample_app :: "nat app" where
  "sample_app =
     \<lparr>ap_components = [plain_component 1 True, plain_component 2 False, plain_component 3 True],
      ap_default = 0, ap_handler = None, ap_started = False, ap_log = [Init 1, Init 2, Init 3]\<rparr>"

lemmas sample_app_simps =
  sample_app_def plain_component_def component_start_def co_enabled_def start_fails_def refused_def

theorem start_keeps_enabled_witness:
  "map co_id (ap_components (snd (app_start (\<lambda>_. None) sample_app))) = [1, 3]"
proof -
  have "\<not> ap_started sample_app"
    and "list_all (\<lambda>c. \<not> start_fails (\<lambda>_. None) c) (ap_components sample_app)"
    by (simp_all add: sample_app_simps)
  from start_keeps_enabled [OF this] show ?thesis by (simp add: sample_app_simps)
qed

text \<open>When a \<open>start\<close> hook fails with another exception, the application is already marked as
  started: the exception is raised once, no handler is built, and every later \<open>start\<close> returns
  without doing anything, so the application never gets a handler.\<close>

theorem failed_start_sticks:
  assumes "\<not> ap_started app" and "ap_handler app = None"
    and "list_ex (start_fails hook) (ap_components app)"
  shows "\<exists>e app'. app_start hook app = (Some e, app') \<and> e \<noteq> DisableComponentError \<and>
    ap_handler app' = None \<and> (\<forall>hook'. app_start hook' app' = (None, app'))"
proof -
  from start_loop_fails [OF assms(3)] obtain e rm ev where
    "start_loop hook (ap_components app) = (Some e, rm, ev)" "e \<noteq> DisableComponentError" by blast
  with assms(1,2) show ?thesis by (simp add: app_start_def)
qed

theorem failed_start_sticks_witness:
  "\<exists>e app'. app_start (\<lambda>c. if co_id c = 3 then Some KeyError else None) sample_app = (Some e, app') \<and>
    e \<noteq> DisableComponentError \<and> ap_handler app' = None \<and>
    (\<forall>hook'. app_start hook' app' = (None, app'))"
  by (rule failed_start_sticks) (simp_all add: sample_app_simps)

text \<open>C14: The lifecycle order. Whatever operations are performed on an application, with whatever
  hooks failing, no component is started or stopped before it was initialised, and none is
  started or stopped before the application is started.\<close>

theorem lifecycle_order:
  assumes "app_reachable app"
  shows "(\<forall>xs i ys. ap_log app = xs @ Start i # ys \<longrightarrow> Init i \<in> set xs) \<and>
    (\<forall>xs i ys. ap_log app = xs @ Stop i # ys \<longrightarrow> Init i \<in> set xs) \<and>
    (\<not> ap_started app \<longrightarrow> ap_handler app = None \<and>
       (\<forall>i. Start i \<notin> set (ap_log app) \<and> Stop i \<notin> set (ap_log app)))"
proof -
  have "app_inv app" using assms by (rule app_reachable_inv)
  then show ?thesis
    using ordered_log_split [of "{}"] by (fastforce simp: app_inv_def)
qed

theorem lifecycle_order_witness:
  "let added = snd (add_component (\<lambda>_. None) 0 (AComponent (plain_component 1 True)) None
         \<lparr>ap_components = [], ap_default = 0 :: nat, ap_handler = None, ap_started = False, ap_log = []\<rparr>);
       started = snd (app_start (\<lambda>_. None) added)
   in ap_log started = [Init 1] @ Start 1 # [] \<and> Init 1 \<in> set [Init (1 :: nat)]"
proof -
  let ?new = "\<lparr>ap_components = [], ap_default = 0 :: nat, ap_handler = None, ap_started = False,
    ap_log = []\<rparr>"
  let ?added = "snd (add_component (\<lambda>_. None) 0 (AComponent (plain_component 1 True)) None ?new)"
  let ?started = "snd (app_start (\<lambda>_. None) ?added)"
  have "app_reachable ?added"
    by (rule app_reachable.step [OF app_reachable.new], rule app_step.add) (rule surjective_pairing)
  then have reach: "app_reachable ?started"
    by (rule app_reachable.step) (rule app_step.start, rule surjective_pairing)
  have log: "ap_log ?started = [Init 1] @ Start 1 # []"
    by (simp add: add_component_def to_component_def insert_position_def py_insert_def app_start_def
        create_handler_def component_start_def co_enabled_def plain_component_def)
  from lifecycle_order [OF reach, THEN conjunct1, rule_format, OF log] log show ?thesis
    by (simp add: Let_def)
qed

text \<open>\<open>add(component, position=0)\<close> appends: \<open>position or len(...)\<close> does not distinguish
  the first position from no position. Any other position within the list is respected.\<close>

theorem add_position:
  assumes "i \<le> length (ap_components app)"
  shows "ap_components (snd (add_component init fresh (AComponent c) (Some (int i)) app)) =
    (if i = 0 then ap_components app @ [c]
     else take i (ap_components app) @ c # drop i (ap_components app))"
  using assms by (simp add: add_component_def to_component_def insert_position_def py_insert_def Let_def)

theorem add_position_witness:
  "map co_id (ap_components (snd (add_component (\<lambda>_. None) 9 (AComponent (plain_component 4 True))
     (Some 0) sample_app))) = [1, 2, 3, 4] \<and>
   map co_id (ap_components (snd (add_component (\<lambda>_. None) 9 (AComponent (plain_component 4 True))
     (Some 1) sample_app))) = [1, 4, 2, 3]"
  using add_position [of 0 sample_app "\<lambda>_. None" 9 "plain_component 4 True"]
    add_position [of 1 sample_app "\<lambda>_. None" 9 "plain_component 4 True"]
  by (simp add: sample_app_simps)

text \<open>\<open>configure\<close> works through its dictionary in order and stops at the first name that no
  component has: the error is raised, and the entries before it stay configured.\<close>

theorem configure_stops_at_unknown:
  assumes "app_configure before app = (None, app')" and "get_component component_name app' = None"
  shows "app_configure (before @ (component_name, config) # after) app = (Some ValueError, app')"
  using assms
proof (induction before arbitrary: app)
  case Nil
  then show ?case by simp
next
  case (Cons nc before)
  obtain n kw where nc: "nc = (n, kw)" by (cases nc)
  with Cons show ?case by (auto split: option.splits)
qed

theorem configure_stops_at_unknown_witness:
  "app_configure ([(''c'', [(''enable'', Value (PBool False))])] @ (''cache'', []) # []) sample_app =
     (Some ValueError, snd (app_configure [(''c'', [(''enable'', Value (PBool False))])] sample_app))"
  by (rule configure_stops_at_unknown) (simp_all add: sample_app_simps get_component_def
      update_component_def configure_def set_from_def set_attr_def)

end
