(* ===== verification/Server.thy ===== *)
theory Server
  imports Connection Hyper HttpTools Application
begin

text \<open>
  \<^verbatim>\<open>levin/core/server.py\<close>: the parsers of a connection behind one interface, the servers that
  \<open>run_apps\<close> makes of its arguments, and the life of a group of servers (\<open>run\<close>, \<open>_manage\<close>,
  \<open>_stop\<close>).

  The event loop is not modelled: \<open>run\<close> is the sequence of the calls it makes, and what becomes of
  the task of a server (\<open>get_task\<close>) by the time the stop event is set is an argument.
\<close>

section \<open>The parsers\<close>

text \<open>\<open>parsers_class=(Http2Parser, Http1Parser, Http1ParserHttpTools)\<close>\<close>

datatype 's parser = P_hyper "'s hyper" | P_simple | P_tools

definition default_parsers :: "'s \<Rightarrow> 's parser list" where
  "default_parsers s0 = [P_hyper (new_hyper s0), P_simple, P_tools]"

definition parser_connect :: "'s h2_lib \<Rightarrow> 's parser \<Rightarrow> 's parser" where
  "parser_connect lib p = (case p of P_hyper hy \<Rightarrow> P_hyper (hyper_connect lib hy) | _ \<Rightarrow> p)"

definition parser_request ::
  "'s h2_lib \<Rightarrow> httptools \<Rightarrow> 's parser \<Rightarrow> bytes \<Rightarrow> parsed result \<times> 's parser" where
  "parser_request lib ht p data =
     (case p of
        P_hyper hy \<Rightarrow> (case hyper_handle_request lib hy data of (res, hy') \<Rightarrow> (res, P_hyper hy'))
      | P_simple \<Rightarrow> (simple_handle_request data, P_simple)
      | P_tools \<Rightarrow> (tools_handle_request ht data, P_tools))"

definition parser_response ::
  "'s h2_lib \<Rightarrow> (request \<Rightarrow> pystr result) \<Rightarrow> 's parser \<Rightarrow> response \<Rightarrow> request \<Rightarrow>
   (yielded \<times> response) \<times> 's parser" where
  "parser_response lib authority p resp req =
     (case p of
        P_hyper hy \<Rightarrow>
          (case hyper_handle_response lib authority hy resp req of (res, hy') \<Rightarrow> (res, P_hyper hy'))
      | _ \<Rightarrow> (simple_handle_response resp, p))"

text \<open>\<open>getattr(self._parser, "push_support", False)\<close>\<close>

definition parser_push_support :: "'s h2_lib \<Rightarrow> 's parser \<Rightarrow> bool" where
  "parser_push_support lib p = (case p of P_hyper hy \<Rightarrow> hyper_push_support lib hy | _ \<Rightarrow> False)"

definition levin_protocol ::
  "'s h2_lib \<Rightarrow> httptools \<Rightarrow> (request \<Rightarrow> pystr result) \<Rightarrow> 's parser protocol" where
  "levin_protocol lib ht authority =
     \<lparr>pr_connect = parser_connect lib, pr_request = parser_request lib ht,
      pr_response = parser_response lib authority, pr_push_support = parser_push_support lib\<rparr>"

lemma levin_protocol_simps [simp]:
  "pr_connect (levin_protocol lib ht authority) = parser_connect lib"
  "pr_request (levin_protocol lib ht authority) = parser_request lib ht"
  "pr_response (levin_protocol lib ht authority) = parser_response lib authority"
  "pr_push_support (levin_protocol lib ht authority) = parser_push_support lib"
  by (simp_all add: levin_protocol_def)

lemma simple_response_pair: "simple_handle_response resp = (y, resp') \<Longrightarrow> resp' = with_length resp"
  using simple_response_state [of resp] by simp

lemma parser_response_keeps:
  assumes "parser_response lib authority p resp req = ((y, resp'), p')"
  shows "resp' = with_length resp \<or> resp' = with_h2_length resp"
  using assms
  by (auto simp: parser_response_def split: parser.splits prod.splits
      dest: simple_response_pair hyper_response_keeps)

interpretation levin: parser_protocol "levin_protocol lib ht authority"
  for lib :: "'s h2_lib" and ht :: httptools and authority :: "request \<Rightarrow> pystr result"
proof
  fix p p' :: "'s parser" and resp resp' y and req :: request
  assume "pr_response (levin_protocol lib ht authority) p resp req = ((y, resp'), p')"
  then have "resp' = with_length resp \<or> resp' = with_h2_length resp"
    by (auto dest: parser_response_keeps)
  then show "rs_status resp' = rs_status resp \<and> rs_body resp' = rs_body resp \<and>
    rs_pushes resp' = rs_pushes resp \<and> rs_push resp' = rs_push resp" by auto
qed

section \<open>Servers\<close>

text \<open>\<open>Server(app, host, port, ssl=ssl)\<close>; apps and ports are any values.\<close>

record ('a, 'v) server =
  sv_app :: 'a
  sv_host :: pystr
  sv_port :: 'v
  sv_ssl :: "(pystr \<times> pystr) option"

text \<open>\<open>handle_connection\<close>: a connection with parsers of its own.\<close>

definition handle_connection :: "'s \<Rightarrow> bool \<Rightarrow> response \<Rightarrow> 's parser conn" where
  "handle_connection s0 ssl resp500 = new_conn (default_parsers s0) ssl resp500"

text \<open>The loop of \<open>run_apps\<close> over the enumerated arguments: a list or tuple is unpacked into the app
  and the port; otherwise the parity of the index decides. \<open>None\<close> is the initial value of both
  variables.\<close>

datatype 'v run_arg = ArgTuple "'v list" | ArgValue 'v

fun run_apps_loop ::
  "nat \<Rightarrow> 'v run_arg list \<Rightarrow> 'v option \<Rightarrow> 'v option \<Rightarrow> ('v option, 'v option) server list result" where
  "run_apps_loop i [] app port = Inr []"
| "run_apps_loop i (arg # args) app port =
     (let unpacked =
            (case arg of
               ArgTuple [a, p] \<Rightarrow> Inr (Some a, Some p)
             | ArgTuple _ \<Rightarrow> Inl ValueError
             | ArgValue v \<Rightarrow> if i mod 2 = 0 then Inr (Some v, None) else Inr (app, Some v))
      in (case unpacked of
            Inl e \<Rightarrow> Inl e
          | Inr (app', port') \<Rightarrow>
              map_sum id ((#) \<lparr>sv_app = app', sv_host = lit ''0.0.0.0'', sv_port = port', sv_ssl = None\<rparr>)
                (run_apps_loop (Suc i) args app' port')))"

definition run_apps_servers :: "'v run_arg list \<Rightarrow> ('v option, 'v option) server list result" where
  "run_apps_servers args = run_apps_loop 0 args None None"

section \<open>The life of a group of servers\<close>

text \<open>What became of the task that binds a server: still binding, failed (the task sets the stop event
  and returns \<open>None\<close>), or serving.\<close>

datatype task = Task_pending | Task_failed | Task_serving

fun start_servers ::
  "('a \<Rightarrow> 'w \<Rightarrow> exn option \<times> 'w) \<Rightarrow> ('a, 'v) server list \<Rightarrow> 'w \<Rightarrow> exn option \<times> 'w" where
  "start_servers start [] w = (None, w)"
| "start_servers start (s # ss) w =
     (case start (sv_app s) w of
        (Some e, w') \<Rightarrow> (Some e, w')
      | (None, w') \<Rightarrow> start_servers start ss w')"

fun stop_servers ::
  "('a \<Rightarrow> 'w \<Rightarrow> exn option \<times> 'w) \<Rightarrow> ('a, 'v) server list \<Rightarrow> 'w \<Rightarrow> exn option \<times> 'w" where
  "stop_servers stop [] w = (None, w)"
| "stop_servers stop (s # ss) w =
     (case stop (sv_app s) w of
        (Some e, w') \<Rightarrow> (Some e, w')
      | (None, w') \<Rightarrow> stop_servers stop ss w')"

text \<open>The last loop of \<open>_manage\<close>: the servers it closes, by position. \<open>result()\<close> of a task that is not
  done raises \<open>InvalidStateError\<close>, so the \<open>cancel\<close> after it is never reached.\<close>

fun close_tasks :: "nat \<Rightarrow> task list \<Rightarrow> exn option \<times> nat list" where
  "close_tasks i [] = (None, [])"
| "close_tasks i (Task_pending # ts) = (Some InvalidStateError, [])"
| "close_tasks i (Task_failed # ts) = close_tasks (Suc i) ts"
| "close_tasks i (Task_serving # ts) = (case close_tasks (Suc i) ts of (e, cs) \<Rightarrow> (e, i # cs))"

definition manage ::
  "('a \<Rightarrow> 'w \<Rightarrow> exn option \<times> 'w) \<Rightarrow> ('a, 'v) server list \<Rightarrow> task list \<Rightarrow> 'w \<Rightarrow>
   exn option \<times> nat list \<times> 'w" where
  "manage stop servers tasks w =
     (case stop_servers stop servers w of
        (Some e, w') \<Rightarrow> (Some e, [], w')
      | (None, w') \<Rightarrow> (case close_tasks 0 tasks of (e, cs) \<Rightarrow> (e, cs, w')))"

text \<open>\<open>run\<close>: an exception of a \<open>start\<close> leaves it at once, with the loop open; exceptions of
  \<open>_manage\<close> are dropped, and the loop is closed. The result is the exception, the servers closed,
  whether the loop is closed, and the world.\<close>

definition run_servers ::
  "('a \<Rightarrow> 'w \<Rightarrow> exn option \<times> 'w) \<Rightarrow> ('a \<Rightarrow> 'w \<Rightarrow> exn option \<times> 'w) \<Rightarrow> ('a, 'v) server list \<Rightarrow>
   task list \<Rightarrow> 'w \<Rightarrow> exn option \<times> nat list \<times> bool \<times> 'w" where
  "run_servers start stop servers tasks w =
     (case start_servers start servers w of
        (Some e, w') \<Rightarrow> (Some e, [], False, w')
      | (None, w') \<Rightarrow> (case manage stop servers tasks w' of (_, cs, w'') \<Rightarrow> (None, cs, True, w'')))"

section \<open>Lemmas\<close>

lemma run_apps_pairs:
  "i mod 2 = 0 \<Longrightarrow>
   run_apps_loop i (concat (map (\<lambda>(a, p). [ArgValue a, ArgValue p]) pairs)) app port =
     Inr (concat (map (\<lambda>(a, p).
       [\<lparr>sv_app = Some a, sv_host = lit ''0.0.0.0'', sv_port = None, sv_ssl = None\<rparr>,
        \<lparr>sv_app = Some a, sv_host = lit ''0.0.0.0'', sv_port = Some p, sv_ssl = None\<rparr>]) pairs))"
proof (induction pairs arbitrary: i app port)
  case Nil
  then show ?case by simp
next
  case (Cons ap pairs)
  obtain a p where ap: "ap = (a, p)" by (cases ap)
  have "Suc (Suc i) mod 2 = 0" "Suc i mod 2 \<noteq> 0" using Cons.prems by presburger+
  with Cons ap show ?case by (simp add: Let_def)
qed

lemma run_apps_tuples:
  "run_apps_loop i (map (\<lambda>(a, p). ArgTuple [a, p]) pairs) app port =
     Inr (map (\<lambda>(a, p). \<lparr>sv_app = Some a, sv_host = lit ''0.0.0.0'', sv_port = Some p, sv_ssl = None\<rparr>) pairs)"
  by (induction pairs arbitrary: i app port) (auto simp: Let_def)

lemma close_tasks_serving:
  "Task_pending \<notin> set ts \<Longrightarrow>
   close_tasks i ts = (None, filter (\<lambda>j. ts ! (j - i) = Task_serving) [i..<i + length ts])"
proof (induction ts arbitrary: i)
  case Nil
  then show ?case by simp
next
  case (Cons t ts)
  have shift: "filter (\<lambda>j. (t # ts) ! (j - i) = Task_serving) [Suc i..<Suc i + length ts] =
      filter (\<lambda>j. ts ! (j - Suc i) = Task_serving) [Suc i..<Suc i + length ts]"
    by (rule filter_cong) (auto simp: nth_Cons')
  have "[i..<i + length (t # ts)] = i # [Suc i..<Suc i + length ts]"
    using upt_conv_Cons [of i "i + length (t # ts)"] by simp
  with Cons shift show ?case by (cases t) simp_all
qed


section \<open>Applications behind servers\<close>

text \<open>The applications are objects of a store; the hooks of their components are given.\<close>

definition store_start ::
  "(component \<Rightarrow> exn option) \<Rightarrow> 'k \<Rightarrow> ('k \<Rightarrow> 'h app) \<Rightarrow> exn option \<times> ('k \<Rightarrow> 'h app)" where
  "store_start hook a w = (case app_start hook (w a) of (e, app) \<Rightarrow> (e, w(a := app)))"

definition store_stop ::
  "(component \<Rightarrow> exn option) \<Rightarrow> 'k \<Rightarrow> ('k \<Rightarrow> 'h app) \<Rightarrow> exn option \<times> ('k \<Rightarrow> 'h app)" where
  "store_stop hook a w = (case app_stop hook (w a) of (e, app) \<Rightarrow> (e, w(a := app)))"

lemma stop_loop_ok:
  "stop_loop (\<lambda>_. None) cs = (None, map (\<lambda>c. Stop (co_id c)) cs)"
  by (induction cs) simp_all

lemma app_stop_ok:
  "ap_started app \<Longrightarrow> app_stop (\<lambda>_. None) app =
     (None, app\<lparr>ap_log := ap_log app @ map (\<lambda>c. Stop (co_id c)) (ap_components app)\<rparr>)"
  by (simp add: app_stop_def stop_loop_ok)

section \<open>Answering on an HTTP/1 connection\<close>

lemma simple_answer:
  assumes "cn_parser c = Some i" and "i < length (cn_parsers c)" and "cn_parsers c ! i = P_simple"
    and "pending c f" and "\<not> closes c f"
    and "rs_status resp \<in> fst ` set HTTP_STATUSES" and "rs_pushes resp = []"
  shows "\<exists>c'. handler_returned (levin_protocol lib ht authority) f resp c = c' \<and>
    concat (cn_out c') = concat (cn_out c) @ wire resp \<and> cn_parser c' = Some i \<and>
    cn_parsers c' = cn_parsers c \<and> (\<forall>k. k \<noteq> f \<longrightarrow> pending c' k = pending c k) \<and>
    (\<forall>k. closes c' k = closes c k) \<and> cn_futures c' = remove1 f (cn_futures c)"
proof -
  let ?pr = "levin_protocol lib ht authority"
  let ?g = "\<lambda>fu. fu\<lparr>fu_stage := Over\<rparr>"
  obtain fu where fu: "cn_table c f = Some fu" using pending_table [OF assms(4)] by blast
  obtain phrase where "map_of HTTP_STATUSES (rs_status resp) = Some phrase"
    using assms(6) by (metis map_of_eq_None_iff not_None_eq)
  then obtain chunks where printed: "simple_handle_response resp = ((chunks, None), with_length resp)"
    by (simp add: simple_handle_response_def Let_def)
  define c1 where "c1 = (set_fut f ?g c)\<lparr>cn_out := cn_out c @ chunks, cn_parsers := cn_parsers c\<rparr>"
  have "write_response ?pr resp (fu_request fu) (set_fut f ?g c) = (None, with_length resp, c1)"
    using assms(1,2,3) printed list_update_id [of "cn_parsers c" i]
    by (simp add: write_response_def parser_response_def c1_def)
  moreover have c1: "pending c1 f" "\<not> closes c1 f" "cn_parser c1 = Some i" "cn_parsers c1 = cn_parsers c"
    "cn_table c1 f = Some (?g fu)" "cn_out c1 = cn_out c @ chunks" "\<And>k. pending c1 k = pending c k"
    "\<And>k. closes c1 k = closes c k" "cn_futures c1 = cn_futures c"
    using assms(1,4,5) fu by (auto simp: c1_def pending_def closes_def set_fut_def split: option.splits)
  ultimately have "handler_returned ?pr f resp c = settle ?pr f Done c1"
    using fu assms(7) complete_settle [OF c1(1,2)] by (simp add: handler_returned_def)
  moreover have "cn_parsers (settle ?pr f Done c1) = cn_parsers c1" "cn_parser (settle ?pr f Done c1) = cn_parser c1"
    using c1(5) by (simp_all add: settle_def done_callback_def Let_def set_fut_def)
  moreover have "wire resp = concat chunks" using printed by (simp add: wire_def)
  ultimately show ?thesis
    using settle_out [OF c1(5), of ?pr Done] c1 by (simp add: pending_settle settle_futures)
qed

section \<open>Properties\<close>

text \<open>\<open>run_apps(app1, port1, app2, port2, ...)\<close> makes two servers for every pair, one of them
  without a port, because the loop appends a server at the application already.\<close>

theorem run_apps_two_servers:
  "run_apps_servers (concat (map (\<lambda>(a, p). [ArgValue a, ArgValue p]) pairs)) =
     Inr (concat (map (\<lambda>(a, p).
       [\<lparr>sv_app = Some a, sv_host = lit ''0.0.0.0'', sv_port = None, sv_ssl = None\<rparr>,
        \<lparr>sv_app = Some a, sv_host = lit ''0.0.0.0'', sv_port = Some p, sv_ssl = None\<rparr>]) pairs))"
  unfolding run_apps_servers_def by (rule run_apps_pairs) simp

text \<open>\<open>run_apps((app1, port1), (app2, port2), ...)\<close> makes one server for each tuple, in order.\<close>

theorem run_apps_tuple_servers:
  "run_apps_servers (map (\<lambda>(a, p). ArgTuple [a, p]) pairs) =
     Inr (map (\<lambda>(a, p). \<lparr>sv_app = Some a, sv_host = lit ''0.0.0.0'', sv_port = Some p, sv_ssl = None\<rparr>) pairs)"
  unfolding run_apps_servers_def by (rule run_apps_tuples)

text \<open>The application that \<open>run_apps(app, port)\<close> serves is started once and stopped twice: when
  no hook fails, its log gets the start of every enabled component, and then two stops of every
  component that is left.\<close>

theorem run_apps_stops_twice:
  assumes "\<not> ap_started (w a)" and "Task_pending \<notin> set tasks"
    and "run_apps_servers [ArgValue a, ArgValue p] = Inr servers"
  shows "\<exists>w'. run_servers (store_start (\<lambda>_. None)) (store_stop (\<lambda>_. None))
      (map (\<lambda>s. \<lparr>sv_app = the (sv_app s), sv_host = sv_host s, sv_port = sv_port s, sv_ssl = sv_ssl s\<rparr>) servers)
      tasks w =
      (None, filter (\<lambda>j. tasks ! j = Task_serving) [0..<length tasks], True, w') \<and>
    ap_log (w' a) = ap_log (w a) @ map (\<lambda>c. Start (co_id c)) (filter co_enabled (ap_components (w a))) @
      map (\<lambda>c. Stop (co_id c)) (filter co_enabled (ap_components (w a))) @
      map (\<lambda>c. Stop (co_id c)) (filter co_enabled (ap_components (w a)))"
proof -
  let ?hook = "\<lambda>_ :: component. None :: exn option"
  have servers: "servers = [\<lparr>sv_app = Some a, sv_host = lit ''0.0.0.0'', sv_port = None, sv_ssl = None\<rparr>,
      \<lparr>sv_app = Some a, sv_host = lit ''0.0.0.0'', sv_port = Some p, sv_ssl = None\<rparr>]"
    using run_apps_pairs [of 0 "[(a, p)]"] assms(3) by (simp add: run_apps_servers_def)
  have refused: "refused ?hook = (\<lambda>c. \<not> co_enabled c)"
    by (rule ext) (simp add: refused_def component_start_def)
  have "\<not> start_fails ?hook c" for c by (simp add: start_fails_def component_start_def)
  then have loop: "start_loop ?hook (ap_components (w a)) =
      (None, filter (\<lambda>c. \<not> co_enabled c) (ap_components (w a)), start_events (ap_components (w a)))"
    using start_loop_ok [of ?hook "ap_components (w a)"] by (simp add: list_all_iff refused)
  define app1 where "app1 = snd (app_start ?hook (w a))"
  have start1: "app_start ?hook (w a) = (None, app1)" and started: "ap_started app1"
    and log1: "ap_log app1 = ap_log (w a) @ start_events (ap_components (w a))"
    and comps1: "ap_components app1 = filter co_enabled (ap_components (w a))"
    using loop assms(1) by (simp_all add: app1_def app_start_def create_handler_def remove_all_filter)
  have start2: "app_start ?hook app1 = (None, app1)" using started by (simp add: app_start_def)
  show ?thesis
    using start1 start2 app_stop_ok [of app1] started log1 comps1
      app_stop_ok [of "app1\<lparr>ap_log := ap_log app1 @ map (\<lambda>c. Stop (co_id c)) (ap_components app1)\<rparr>"]
      close_tasks_serving [OF assms(2), of 0]
    by (simp add: servers run_servers_def manage_def store_start_def store_stop_def start_events_def)
qed

theorem run_apps_stops_twice_witness:
  "\<exists>w'. run_servers (store_start (\<lambda>_. None)) (store_stop (\<lambda>_. None))
      [\<lparr>sv_app = 0 :: nat, sv_host = lit ''0.0.0.0'', sv_port = None, sv_ssl = None\<rparr>,
       \<lparr>sv_app = 0, sv_host = lit ''0.0.0.0'', sv_port = Some (8000 :: nat), sv_ssl = None\<rparr>]
      [Task_serving, Task_failed] (\<lambda>_. sample_app) = (None, [0], True, w') \<and>
    ap_log (w' 0) = [Init 1, Init 2, Init 3, Start 1, Start 3, Stop 1, Stop 3, Stop 1, Stop 3]"
proof -
  have "run_apps_servers [ArgValue 0, ArgValue (8000 :: nat)] =
    Inr [\<lparr>sv_app = Some 0, sv_host = lit ''0.0.0.0'', sv_port = None, sv_ssl = None\<rparr>,
         \<lparr>sv_app = Some 0, sv_host = lit ''0.0.0.0'', sv_port = Some 8000, sv_ssl = None\<rparr>]"
    by (simp add: run_apps_servers_def)
  from run_apps_stops_twice [OF _ _ this, of "\<lambda>_. sample_app" "[Task_serving, Task_failed]"]
  show ?thesis by (simp add: sample_app_simps upt_rec)
qed

text \<open>The error response of the module stays an error response: on every connection with the
  parsers of the server that starts from a fresh \<open>response_500\<close>, whatever was written with it, its
  status is 500, its body is \<open>Sorry\<close> and it has no pushes.\<close>

theorem error_response_stays:
  assumes "conn_reachable (levin_protocol lib ht authority) c"
  shows "rs_status (cn_resp500 c) = 500 \<and> rs_body (cn_resp500 c) = ''Sorry'' \<and>
    rs_pushes (cn_resp500 c) = [] \<and> \<not> rs_push (cn_resp500 c)"
  using levin.reachable_resp500 [OF assms] by (simp add: resp500_ok_def)

theorem error_response_stays_witness:
  "let c = connection_lost (levin_protocol toy_lib (\<lambda>_. two_chunks) (\<lambda>_. Inr []))
             (new_conn (default_parsers \<lparr>ty_window = 3, ty_open = True, ty_sent = []\<rparr>) False response_500)
   in rs_status (cn_resp500 c) = 500 \<and> rs_body (cn_resp500 c) = ''Sorry''"
proof -
  let ?pr = "levin_protocol toy_lib (\<lambda>_. two_chunks) (\<lambda>_. Inr [])"
  let ?c = "new_conn (default_parsers \<lparr>ty_window = 3, ty_open = True, ty_sent = []\<rparr>) False response_500"
  have "conn_reachable ?pr (connection_lost ?pr ?c)"
    by (rule conn_reachable.step [OF conn_reachable.start conn_step.lost])
  from error_response_stays [OF this] show ?thesis by (simp add: Let_def)
qed

text \<open>C35: On an HTTP/1 connection the responses are written in the order in which the handlers finish:
  when the handler of a later request returns first, its response goes out first, although HTTP/1 has
  no other way than the order to tell which request a response answers.\<close>

theorem pipelined_responses_swap:
  assumes "cn_parser c = Some i" and "i < length (cn_parsers c)" and "cn_parsers c ! i = P_simple"
    and "pending c f" "pending c g" "f \<noteq> g" and "\<not> closes c f" "\<not> closes c g"
    and "rs_status ra \<in> fst ` set HTTP_STATUSES" "rs_status rb \<in> fst ` set HTTP_STATUSES"
    and "rs_pushes ra = []" "rs_pushes rb = []"
  shows "concat (cn_out (handler_returned (levin_protocol lib ht authority) f ra
      (handler_returned (levin_protocol lib ht authority) g rb c))) =
    concat (cn_out c) @ wire rb @ wire ra"
proof -
  let ?pr = "levin_protocol lib ht authority"
  have one: "cn_parser d = Some i \<Longrightarrow> i < length (cn_parsers d) \<Longrightarrow> cn_parsers d ! i = P_simple \<Longrightarrow>
      pending d h \<Longrightarrow> \<not> closes d h \<Longrightarrow> rs_status r \<in> fst ` set HTTP_STATUSES \<Longrightarrow> rs_pushes r = [] \<Longrightarrow>
      \<exists>d'. handler_returned ?pr h r d = d' \<and> concat (cn_out d') = concat (cn_out d) @ wire r \<and>
        cn_parser d' = Some i \<and> cn_parsers d' = cn_parsers d \<and> (\<forall>k. k \<noteq> h \<longrightarrow> pending d' k = pending d k) \<and>
        (\<forall>k. closes d' k = closes d k) \<and> cn_futures d' = remove1 h (cn_futures d)" for d h r
    by (rule simple_answer)
  obtain d where d: "handler_returned ?pr g rb c = d" "concat (cn_out d) = concat (cn_out c) @ wire rb"
    "cn_parser d = Some i" "cn_parsers d = cn_parsers c" "\<forall>k. k \<noteq> g \<longrightarrow> pending d k = pending c k"
    "\<forall>k. closes d k = closes c k"
    using one [of c g rb] assms by blast
  obtain d' where "handler_returned ?pr f ra d = d'" "concat (cn_out d') = concat (cn_out d) @ wire ra"
    using one [of d f ra] d assms by auto
  with d show ?thesis by simp
qed

definition two_waiting :: "toy parser conn" where
  "two_waiting = schedule get_a (schedule get_a
     ((handle_connection \<lparr>ty_window = 3, ty_open = True, ty_sent = []\<rparr> False response_500)
        \<lparr>cn_connected := True, cn_parser := Some 1\<rparr>))"

theorem pipelined_responses_swap_witness:
  "concat (cn_out (handler_returned (levin_protocol toy_lib (\<lambda>_. two_chunks) (\<lambda>_. Inr [])) 0
      (new_response 200 ''first'' None [] False)
      (handler_returned (levin_protocol toy_lib (\<lambda>_. two_chunks) (\<lambda>_. Inr [])) 1
        (new_response 200 ''second'' None [] False) two_waiting))) =
    wire (new_response 200 ''second'' None [] False) @ wire (new_response 200 ''first'' None [] False)"
proof -
  let ?ra = "new_response 200 ''first'' None [] False" and ?rb = "new_response 200 ''second'' None [] False"
  have "cn_parser two_waiting = Some 1" "1 < length (cn_parsers two_waiting)"
    "cn_parsers two_waiting ! 1 = P_simple" "pending two_waiting 0" "pending two_waiting 1" "(0 :: nat) \<noteq> 1"
    "\<not> closes two_waiting 0" "\<not> closes two_waiting 1" "cn_out two_waiting = []"
    by (simp_all add: two_waiting_def schedule_def handle_connection_def new_conn_def default_parsers_def
        pending_def closes_def begin_request_def)
  moreover have "rs_status ?ra \<in> fst ` set HTTP_STATUSES" "rs_status ?rb \<in> fst ` set HTTP_STATUSES"
    "rs_pushes ?ra = []" "rs_pushes ?rb = []"
    by (simp_all add: new_response_def HTTP_STATUSES_def)
  ultimately show ?thesis
    using pipelined_responses_swap [of two_waiting 1 0 1 ?ra ?rb toy_lib "\<lambda>_. two_chunks" "\<lambda>_. Inr []"]
    by simp
qed

lemma http1_served:
  assumes "h2_receive lib (request_text m p v hs body) (h2_initiate lib s0) = (Inl e, s1)"
    and "protocol_error e"
    and "token_ok m" "token_ok p" "token_ok v" and "occurs_in ''HTTP'' v" and "\<forall>nv \<in> set hs. header_ok nv"
    and "wants_h2c (new_request p m (Some (surviving (splitlines body))) (map clean_header hs) v 0 ''http'') = None"
    and "rs_status resp \<in> fst ` set HTTP_STATUSES" and "rs_pushes resp = []"
  shows "let pr = levin_protocol lib ht authority;
      c = snd (data_received pr (request_text m p v hs body)
                (connection_made pr (handle_connection s0 ssl response_500)))
    in cn_futures c = [0] \<and>
       cn_table c 0 = Some (begin_request
         (new_request p m (Some (surviving (splitlines body))) (map clean_header hs) v 0 ''http'')) \<and>
       concat (cn_out (handler_returned pr 0 resp c)) = wire resp \<and> cn_futures (handler_returned pr 0 resp c) = []"
proof -
  let ?data = "request_text m p v hs body"
  let ?req = "new_request p m (Some (surviving (splitlines body))) (map clean_header hs) v 0 ''http''"
  let ?pr = "levin_protocol lib ht authority"
  let ?hy = "hyper_connect lib (new_hyper s0)"
  let ?c0 = "connection_made ?pr (handle_connection s0 ssl response_500)"
  have parsed: "simple_handle_request ?data = Inr ([], [?req], False)"
    using assms(3-7) by (rule simple_request_text)
  have "h2_receive lib ?data (hy_conn ?hy) = (Inl e, s1)"
    using assms(1) by (simp add: hyper_connect_def new_hyper_def)
  then have "fst (hyper_handle_request lib ?hy ?data) = Inl ParseError"
    using assms(2,8) parsed
    by (simp add: hyper_handle_request_def hyper_handle_http1_def handle_http1_cases)
  then have refuse: "list_all (\<lambda>q. fst (pr_request ?pr q ?data) = Inl ParseError) [P_hyper ?hy]"
    by (cases "hyper_handle_request lib ?hy ?data") (simp add: parser_request_def)
  have take_it: "pr_request ?pr P_simple ?data = (Inr ([], [?req], False), P_simple)"
    using parsed by (simp add: parser_request_def)
  have c0: "cn_parsers ?c0 = [P_hyper ?hy] @ P_simple # [P_tools]" "cn_parser ?c0 = None"
    by (simp_all add: connection_made_def handle_connection_def new_conn_def default_parsers_def
        parser_connect_def)
  obtain hy' where "conn_parse ?pr ?data ?c0 =
      (Inr (Some ([], [?req], False)), ?c0\<lparr>cn_parsers := [hy', P_simple, P_tools], cn_parser := Some 1\<rparr>)"
    using parse_loop_first [OF refuse take_it, of 0 "[P_tools]"] c0 by (simp add: conn_parse_def)
  then have c: "snd (data_received ?pr ?data ?c0) =
      schedule ?req (?c0\<lparr>cn_parsers := [hy', P_simple, P_tools], cn_parser := Some 1\<rparr>)"
    by (simp add: data_received_def)
  let ?c = "snd (data_received ?pr ?data ?c0)"
  have facts: "cn_futures ?c = [0]" "cn_table ?c 0 = Some (begin_request ?req)" "cn_out ?c = []"
    "cn_parser ?c = Some 1" "cn_parsers ?c ! 1 = P_simple" "1 < length (cn_parsers ?c)"
    "pending ?c 0" "\<not> closes ?c 0"
    unfolding c
    by (simp_all add: schedule_def connection_made_def handle_connection_def new_conn_def pending_def
        closes_def begin_request_def)
  from simple_answer [OF facts(4,6,5,7,8) assms(9,10)] facts(1-3) show ?thesis
    by (auto simp: Let_def)
qed

text \<open>C5: From bytes to bytes: on a new connection, an HTTP/1 request that the HTTP/2 library refuses and
  that does not ask for an upgrade starts exactly one handler, on the request that was sent, and the
  response of that handler is written as the HTTP/1 printer prints it.\<close>

theorem http1_request_served:
  assumes "h2_receive lib (request_text m p v hs body) (h2_initiate lib s0) = (Inl e, s1)"
    and "protocol_error e"
    and "token_ok m" "token_ok p" "token_ok v" and "occurs_in ''HTTP'' v" and "\<forall>nv \<in> set hs. header_ok nv"
    and "wants_h2c (new_request p m (Some (surviving (splitlines body))) (map clean_header hs) v 0 ''http'') = None"
    and "rs_status resp \<in> fst ` set HTTP_STATUSES" and "rs_pushes resp = []"
  shows "let pr = levin_protocol lib ht authority;
      c = snd (data_received pr (request_text m p v hs body)
                (connection_made pr (handle_connection s0 ssl response_500)))
    in cn_futures c = [0] \<and>
       cn_table c 0 = Some (begin_request
         (new_request p m (Some (surviving (splitlines body))) (map clean_header hs) v 0 ''http'')) \<and>
       concat (cn_out (handler_returned pr 0 resp c)) = wire resp \<and> cn_futures (handler_returned pr 0 resp c) = []"
  using assms by (rule http1_served)

theorem http1_request_served_witness:
  "let pr = levin_protocol toy_lib (\<lambda>_. two_chunks) (\<lambda>_. Inr []);
      c = snd (data_received pr (request_text ''GET'' ''/a'' ''HTTP/1.1'' [] [])
                (connection_made pr (handle_connection \<lparr>ty_window = 3, ty_open = True, ty_sent = []\<rparr>
                   False response_500)))
    in concat (cn_out (handler_returned pr 0 (new_response 204 [] None [] False) c)) =
       wire (new_response 204 [] None [] False)"
proof -
  let ?s = "\<lparr>ty_window = 3, ty_open = True, ty_sent = []\<rparr>"
  have "h2_receive toy_lib (request_text ''GET'' ''/a'' ''HTTP/1.1'' [] []) (h2_initiate toy_lib ?s) =
      (Inl ProtocolError, ?s)" "protocol_error ProtocolError"
    by (simp_all add: toy_lib_def protocol_error_def)
  moreover have "token_ok ''GET''" "token_ok ''/a''" "token_ok ''HTTP/1.1''" "occurs_in ''HTTP'' ''HTTP/1.1''"
    by (simp_all add: token_ok_def is_space_def)
  moreover have "wants_h2c (new_request ''/a'' ''GET'' (Some (surviving (splitlines []))) (map clean_header [])
      ''HTTP/1.1'' 0 ''http'') = None"
    by (simp add: wants_h2c_def new_request_def create_headers_map_def)
  moreover have "rs_status (new_response 204 [] None [] False) \<in> fst ` set HTTP_STATUSES"
    "rs_pushes (new_response 204 [] None [] False) = []"
    by (simp_all add: new_response_def HTTP_STATUSES_def)
  ultimately show ?thesis
    using http1_request_served [of toy_lib "''GET''" "''/a''" "''HTTP/1.1''" "[]" "[]" ?s ProtocolError ?s
        "new_response 204 [] None [] False" "\<lambda>_. two_chunks" "\<lambda>_. Inr []" False]
    by (simp add: Let_def)
qed

end
