(* ===== verification/Patch.thy ===== *)
theory Patch
  imports Common PyText
begin

text \<open>
  \<^verbatim>\<open>levin/components/common.py\<close>: \<open>PatchRequest\<close>, which offers the path without its query, the
  query parameters, the content type, the encoding and the JSON body as lazy attributes of the
  request, and \<open>ErrorHandle\<close>, which turns exceptions into responses.

  The functions that the component takes as parameters (\<open>json_loads\<close>, \<open>parse_url\<close>,
  \<open>parse_query_params\<close>) are fields of its configuration, as they are attributes that \<open>configure\<close>
  can replace; \<open>parse_url\<close> has the model \<open>url_parse\<close> of its default value on request targets that
  start with one slash.
\<close>

section \<open>Configuration\<close>

record patch_config =
  pc_json_loads :: "pystr \<Rightarrow> pyval result"
  pc_json_content_type :: bytes
  pc_parse_url :: "bytes \<Rightarrow> (bytes \<times> bytes) result"
  pc_parse_query :: "bytes \<Rightarrow> pyval result"
  pc_codec :: "pystr \<Rightarrow> bytes \<Rightarrow> pystr result"

text \<open>\<open>urllib.parse.urlparse\<close> of a target that starts with a single slash: no scheme and no host;
  what follows \<open>#\<close> and \<open>?\<close> is cut off, and in the last segment what follows \<open>;\<close>. The result is the path
  and the query. Bytes must be ASCII. \<open>ext\<close> is the function on other targets.\<close>

definition last_segment :: "bytes \<Rightarrow> bytes \<times> bytes" where
  "last_segment s =
     (let seg = rev (takeWhile (\<lambda>c. c \<noteq> CHR ''/'') (rev s)) in (take (length s - length seg) s, seg))"

definition url_parse :: "(bytes \<Rightarrow> (bytes \<times> bytes) result) \<Rightarrow> bytes \<Rightarrow> (bytes \<times> bytes) result" where
  "url_parse ext url =
     (if \<not> ascii url then Inl UnicodeError
      else if take 1 url = ''/'' \<and> take 2 url \<noteq> ''//'' then
        (let target = takeWhile (\<lambda>c. c \<noteq> CHR ''#'') url;
             path = takeWhile (\<lambda>c. c \<noteq> CHR ''?'') target;
             query = drop 1 (dropWhile (\<lambda>c. c \<noteq> CHR ''?'') target)
         in case last_segment path of
              (front, seg) \<Rightarrow> Inr (front @ takeWhile (\<lambda>c. c \<noteq> CHR '';'') seg, query))
      else ext url)"

text \<open>\<open>bytes.decode(encoding)\<close>.\<close>

definition DEFAULT_ENCODING :: pystr where
  "DEFAULT_ENCODING = lit ''iso-8859-1''"

definition decode_with :: "patch_config \<Rightarrow> pystr \<Rightarrow> bytes \<Rightarrow> pystr result" where
  "decode_with cfg encoding body =
     (if encoding = DEFAULT_ENCODING then Inr (lit body)
      else if encoding = lit ''utf-8'' then decode body
      else pc_codec cfg encoding body)"

section \<open>The lazy attributes\<close>

definition content_type_of :: "request \<Rightarrow> pyval" where
  "content_type_of r =
     (case map_of (rq_headers r) ''content-type'' of
        None \<Rightarrow> PNone
      | Some ct \<Rightarrow> if ct = [] then PNone else PBytes (fst (split1 (CHR '';'') ct)))"

text \<open>The loop of \<open>_encoding\<close>: it returns the name of the parameter it found.\<close>

fun find_charset :: "bytes list \<Rightarrow> pystr result" where
  "find_charset [] = Inr DEFAULT_ENCODING"
| "find_charset (m # ms) =
     (let name = strip (fst (split1 (CHR ''='') (strip m)))
      in if CHR ''='' \<notin> set m \<or> name \<noteq> ''charset'' then find_charset ms else decode (lower name))"

definition encoding_of :: "request \<Rightarrow> pystr result" where
  "encoding_of r =
     (case map_of (rq_headers r) ''content-type'' of
        None \<Rightarrow> Inr DEFAULT_ENCODING
      | Some ct \<Rightarrow>
          if ct = [] \<or> CHR '';'' \<notin> set ct then Inr DEFAULT_ENCODING
          else find_charset (tl (split_on (CHR '';'') ct)))"

text \<open>\<open>_parse_url\<close>: its writes to the scope do not replace the lazy attributes.\<close>

definition patch_parse_url :: "patch_config \<Rightarrow> request \<Rightarrow> (bytes \<times> pyval) result \<times> request" where
  "patch_parse_url cfg r =
     (case pc_parse_url cfg (rq_raw_path r) of
        Inl e \<Rightarrow> (Inl e, r)
      | Inr (path, query) \<Rightarrow>
          (let r1 = rq_set ''path'' (Plain (PBytes path)) False r
           in case pc_parse_query cfg query of
                Inl e \<Rightarrow> (Inl e, r1)
              | Inr params \<Rightarrow>
                  (Inr (path, params), rq_set ''query_params'' (Plain params) False r1)))"

definition patch_path :: "patch_config \<Rightarrow> request \<Rightarrow> pyval result \<times> request" where
  "patch_path cfg r =
     (if CHR ''?'' \<notin> set (rq_raw_path r) then (Inr (PBytes (rq_raw_path r)), r)
      else (case patch_parse_url cfg r of (res, r') \<Rightarrow> (map_sum id (\<lambda>pq. PBytes (fst pq)) res, r')))"

definition patch_query_params :: "patch_config \<Rightarrow> request \<Rightarrow> pyval result \<times> request" where
  "patch_query_params cfg r =
     (if CHR ''?'' \<notin> set (rq_raw_path r) then (Inr (PDict []), r)
      else (case patch_parse_url cfg r of (res, r') \<Rightarrow> (map_sum id snd res, r')))"

text \<open>\<open>_json\<close> reads two other attributes of the request, through \<open>call\<close>.\<close>

definition patch_json :: "patch_config \<Rightarrow> lazy_call \<Rightarrow> request \<Rightarrow> pyval result \<times> request" where
  "patch_json cfg call r =
     (case rq_getattr call ''content_type'' r of
        (Inl e, r1) \<Rightarrow> (Inl e, r1)
      | (Inr ct, r1) \<Rightarrow>
          if ct \<noteq> PBytes (pc_json_content_type cfg) then (Inr PNone, r1)
          else (case rq_body r1 of
                  None \<Rightarrow> (Inl AttributeError, r1)
                | Some body \<Rightarrow>
                    (case rq_getattr call ''encoding'' r1 of
                       (Inl e, r2) \<Rightarrow> (Inl e, r2)
                     | (Inr (PStr enc), r2) \<Rightarrow>
                         (case decode_with cfg enc body of
                            Inl e \<Rightarrow> (Inl e, r2)
                          | Inr s \<Rightarrow> (pc_json_loads cfg s, r2))
                     | (Inr _, r2) \<Rightarrow> (Inl TypeError, r2))))"

text \<open>What the lazy functions compute, with \<open>other\<close> for those of other components. The number bounds
  the depth of attributes that read attributes, as the interpreter's recursion limit does.\<close>

primrec patch_call :: "nat \<Rightarrow> patch_config \<Rightarrow> lazy_call \<Rightarrow> lazy_call" where
  "patch_call 0 cfg other f r = (Inl RecursionError, r)"
| "patch_call (Suc n) cfg other f r =
     (case f of
        F_data \<Rightarrow> (Inr PNone, r)
      | F_path \<Rightarrow> patch_path cfg r
      | F_query_params \<Rightarrow> patch_query_params cfg r
      | F_json \<Rightarrow> patch_json cfg (patch_call n cfg other) r
      | F_content_type \<Rightarrow> (Inr (content_type_of r), r)
      | F_encoding \<Rightarrow> (map_sum id PStr (encoding_of r), r)
      | _ \<Rightarrow> other f r)"

definition patch_attrs :: "(name \<times> attr) list" where
  "patch_attrs =
     [(''data'', Lazy F_data), (''path'', Lazy F_path), (''query_params'', Lazy F_query_params),
      (''json'', Lazy F_json), (''content_type'', Lazy F_content_type), (''encoding'', Lazy F_encoding)]"

definition patch_middleware :: "('h \<Rightarrow> request \<Rightarrow> 'a) \<Rightarrow> 'h \<Rightarrow> request \<Rightarrow> 'a" where
  "patch_middleware call_next handler r = call_next handler (put_all rq_set patch_attrs r)"

section \<open>Errors as responses\<close>

text \<open>\<open>ErrorHandle.middleware\<close>: \<open>on_error\<close> is its parameter; the default one makes a 500 of the
  formatted traceback. Every exception is caught, the cancellation of the request too.\<close>

definition default_on_error :: "(exn \<Rightarrow> bytes) \<Rightarrow> request \<Rightarrow> exn \<Rightarrow> response result \<times> request" where
  "default_on_error format r e = (Inr (new_response 500 (format e) None [] False), r)"

definition error_middleware ::
  "(request \<Rightarrow> exn \<Rightarrow> 'a result \<times> request) \<Rightarrow> ('h \<Rightarrow> request \<Rightarrow> 'a result \<times> request) \<Rightarrow>
   'h \<Rightarrow> request \<Rightarrow> 'a result \<times> request" where
  "error_middleware on_error call_next handler r =
     (case call_next handler r of
        (Inr v, r') \<Rightarrow> (Inr v, r')
      | (Inl e, r') \<Rightarrow> on_error r' e)"

section \<open>Lemmas\<close>

lemma patched_scope:
  "look_scope (put_all rq_set patch_attrs r) k =
     (case look_scope r k of Some a \<Rightarrow> Some a | None \<Rightarrow> map_of patch_attrs k)"
  by (rule scope.look_put_all)

text \<open>A read of a lazy attribute.\<close>

lemma getattr_lazy:
  assumes "k \<notin> set request_slots" and "look_scope r k = Some (Lazy f)" and "call f r = (Inr v, r')"
    and "v \<noteq> EMPTY"
  shows "rq_getattr call k r = (Inr v, r'\<lparr>rq_scope := AList.update k (Plain v) (rq_scope r')\<rparr>)"
  using assms by (simp add: rq_getattr_def rq_get_lazy)

text \<open>The encoding is the default, or the word \<open>charset\<close> itself.\<close>

definition charset_given :: "bytes list \<Rightarrow> bool" where
  "charset_given ms \<longleftrightarrow>
     (\<exists>m \<in> set ms. CHR ''='' \<in> set m \<and> strip (fst (split1 (CHR ''='') (strip m))) = ''charset'')"

lemma find_charset_eq:
  "find_charset ms = Inr (if charset_given ms then lit ''charset'' else DEFAULT_ENCODING)"
proof (induction ms)
  case Nil
  then show ?case by (simp add: charset_given_def)
next
  case (Cons m ms)
  have "lower ''charset'' = ''charset''" by (simp add: lower_def lower_char_def)
  then have "decode (lower ''charset'') = Inr (lit ''charset'')" by (simp del: lit_simps)
  with Cons show ?case by (auto simp: charset_given_def Let_def)
qed

definition names_charset :: "request \<Rightarrow> bool" where
  "names_charset r \<longleftrightarrow>
     (case map_of (rq_headers r) ''content-type'' of
        None \<Rightarrow> False | Some ct \<Rightarrow> charset_given (tl (split_on (CHR '';'') ct)))"

lemma encoding_of_eq:
  "encoding_of r = Inr (if names_charset r then lit ''charset'' else DEFAULT_ENCODING)"
proof (cases "map_of (rq_headers r) ''content-type''")
  case None
  then show ?thesis by (simp add: encoding_of_def names_charset_def)
next
  case (Some ct)
  have "CHR '';'' \<notin> set ct \<Longrightarrow> split_on (CHR '';'') ct = [ct]" by (rule split_on_fresh)
  with Some show ?thesis
    by (auto simp: encoding_of_def names_charset_def find_charset_eq charset_given_def)
qed


lemma last_segment_join: "last_segment s = (front, seg) \<Longrightarrow> front @ seg = s"
proof -
  assume ls: "last_segment s = (front, seg)"
  let ?P = "\<lambda>c. c \<noteq> CHR ''/''"
  have s: "s = rev (dropWhile ?P (rev s)) @ rev (takeWhile ?P (rev s))"
    by (metis rev_append rev_rev_ident takeWhile_dropWhile_id)
  then have "take (length s - length (takeWhile ?P (rev s))) s = rev (dropWhile ?P (rev s))"
    by (metis append_eq_conv_conj diff_add_inverse2 length_append length_rev)
  with ls s show "front @ seg = s" by (auto simp: last_segment_def Let_def)
qed

definition plain_target :: "bytes \<Rightarrow> bool" where
  "plain_target url \<longleftrightarrow>
     ascii url \<and> take 1 url = ''/'' \<and> take 2 url \<noteq> ''//'' \<and> CHR ''#'' \<notin> set url \<and>
     CHR '';'' \<notin> set (takeWhile (\<lambda>c. c \<noteq> CHR ''?'') url)"

lemma url_parse_plain:
  assumes "plain_target url"
  shows "url_parse ext url =
    Inr (takeWhile (\<lambda>c. c \<noteq> CHR ''?'') url, drop 1 (dropWhile (\<lambda>c. c \<noteq> CHR ''?'') url))"
proof -
  let ?path = "takeWhile (\<lambda>c. c \<noteq> CHR ''?'') url"
  have "\<forall>c \<in> set url. c \<noteq> CHR ''#''" using assms by (auto simp: plain_target_def)
  then have target: "takeWhile (\<lambda>c. c \<noteq> CHR ''#'') url = url" by (simp add: takeWhile_eq_all_conv)
  obtain front seg where ls: "last_segment ?path = (front, seg)" by (cases "last_segment ?path")
  have path: "front @ seg = ?path" using ls by (rule last_segment_join)
  moreover have "CHR '';'' \<notin> set ?path" using assms by (simp add: plain_target_def)
  ultimately have "CHR '';'' \<notin> set seg" by (metis Un_iff set_append)
  then have seg: "takeWhile (\<lambda>c. c \<noteq> CHR '';'') seg = seg" by (auto simp: takeWhile_eq_all_conv)
  from assms ls path show ?thesis by (simp add: url_parse_def Let_def target seg plain_target_def)
qed

text \<open>Reading the path while it is lazy: the value replaces the lazy attribute, and nothing else
  changes, since the writes of \<open>_parse_url\<close> find their keys taken.\<close>

lemma lazy_path_read:
  assumes "look_scope r ''path'' = Some (Lazy F_path)" and "look_scope r ''query_params'' \<noteq> None"
    and "CHR ''?'' \<in> set (rq_raw_path r) \<Longrightarrow> plain_target (rq_raw_path r)"
    and "pc_parse_url cfg = url_parse ext" and "\<And>q. pc_parse_query cfg q \<in> range Inr"
  shows "rq_path (patch_call (Suc n) cfg other) r =
    (Inr (PBytes (takeWhile (\<lambda>c. c \<noteq> CHR ''?'') (rq_raw_path r))),
     r\<lparr>rq_scope := AList.update ''path'' (Plain (PBytes (takeWhile (\<lambda>c. c \<noteq> CHR ''?'') (rq_raw_path r)))) (rq_scope r)\<rparr>)"
proof (cases "CHR ''?'' \<in> set (rq_raw_path r)")
  case False
  then have whole: "takeWhile (\<lambda>c. c \<noteq> CHR ''?'') (rq_raw_path r) = rq_raw_path r"
    by (auto simp: takeWhile_eq_all_conv)
  from False show ?thesis by (simp add: rq_path_def rq_get_lazy [OF assms(1)] patch_path_def whole)
next
  case True
  obtain params where "pc_parse_query cfg (drop 1 (dropWhile (\<lambda>c. c \<noteq> CHR ''?'') (rq_raw_path r))) = Inr params"
    using assms(5) by (metis imageE)
  moreover have "''path'' \<in> fst ` set (rq_scope r)" "''query_params'' \<in> fst ` set (rq_scope r)"
    using assms(1,2) by (auto simp: look_scope_def map_of_eq_None_iff) (metis map_of_eq_None_iff option.distinct(1))
  then have "rq_set ''path'' a False r = r" "rq_set ''query_params'' a False r = r" for a
    by (simp_all add: rq_set_def)
  ultimately show ?thesis
    using True url_parse_plain [OF assms(3) [OF True], of ext]
    by (simp add: rq_path_def rq_get_lazy [OF assms(1)] patch_path_def patch_parse_url_def assms(4) Let_def)
qed

lemma patched_rq_path:
  assumes "look_scope r ''path'' = None"
    and "CHR ''?'' \<in> set (rq_raw_path r) \<Longrightarrow> plain_target (rq_raw_path r)"
    and "pc_parse_url cfg = url_parse ext" and "\<And>q. pc_parse_query cfg q \<in> range Inr"
  shows "\<exists>r'. rq_path (patch_call (Suc n) cfg other) (put_all rq_set patch_attrs r) =
      (Inr (PBytes (takeWhile (\<lambda>c. c \<noteq> CHR ''?'') (rq_raw_path r))), r') \<and>
    rq_method r' = rq_method r \<and> rq_raw_path r' = rq_raw_path r"
proof -
  have "look_scope (put_all rq_set patch_attrs r) ''path'' = Some (Lazy F_path)"
    "look_scope (put_all rq_set patch_attrs r) ''query_params'' \<noteq> None"
    using assms(1) unfolding patched_scope by (simp_all add: patch_attrs_def split: option.split)
  from lazy_path_read [OF this, of cfg ext n other] assms(2-4) show ?thesis by simp
qed

text \<open>Reading the JSON body of a patched request: the content type, then the encoding, then the body.\<close>

lemma patched_json:
  assumes "look_scope r ''content_type'' = None" "look_scope r ''encoding'' = None"
    and "content_type_of r = PBytes (pc_json_content_type cfg)" and "rq_body r = Some body"
    and "encoding_of r = Inr enc"
  shows "\<exists>r'. patch_call (Suc (Suc n)) cfg other F_json (put_all rq_set patch_attrs r) =
    (case decode_with cfg enc body of Inl e \<Rightarrow> Inl e | Inr s \<Rightarrow> pc_json_loads cfg s, r')"
proof -
  let ?r = "put_all rq_set patch_attrs r" and ?call = "patch_call (Suc n) cfg other"
  have ct: "look_scope ?r ''content_type'' = Some (Lazy F_content_type)"
    and en: "look_scope ?r ''encoding'' = Some (Lazy F_encoding)"
    using assms(1,2) unfolding patched_scope by (simp_all add: patch_attrs_def)
  have headers: "content_type_of ?r = content_type_of r" "encoding_of ?r = encoding_of r" "rq_body ?r = rq_body r"
    by (simp_all add: content_type_of_def encoding_of_def)
  obtain r1 where r1: "rq_getattr ?call ''content_type'' ?r = (Inr (PBytes (pc_json_content_type cfg)), r1)"
    "look_scope r1 ''encoding'' = Some (Lazy F_encoding)" "rq_body r1 = rq_body r" "encoding_of r1 = encoding_of r"
    using getattr_lazy [of "''content_type''" ?r F_content_type ?call "content_type_of r" ?r] ct en assms(3) headers
    by (simp add: request_slots_def EMPTY_def encoding_of_def)
  obtain r2 where "rq_getattr ?call ''encoding'' r1 = (Inr (PStr enc), r2)"
    using getattr_lazy [of "''encoding''" r1 F_encoding ?call "PStr enc" r1] r1(2,4) assms(5)
    by (simp add: request_slots_def EMPTY_def)
  with r1 assms(4) show ?thesis
    by (auto simp: patch_json_def split: sum.split)
qed

lemma patched_json_scope:
  "look_scope r ''json'' = None \<Longrightarrow> look_scope (put_all rq_set patch_attrs r) ''json'' = Some (Lazy F_json)"
  unfolding patched_scope by (simp add: patch_attrs_def)

section \<open>Properties\<close>

definition sample_config :: patch_config where
  "sample_config =
     \<lparr>pc_json_loads = (\<lambda>s. Inr (PStr s)), pc_json_content_type = ''application/json'',
      pc_parse_url = url_parse (\<lambda>u. Inl ValueError), pc_parse_query = (\<lambda>q. Inr (PBytes q)),
      pc_codec = (\<lambda>enc b. Inl LookupError)\<rparr>"

text \<open>On a request that went through \<open>PatchRequest\<close>, the path is the request target up to the
  first \<open>?\<close> (for targets with a query: those that start with one slash and have no fragment and no
  parameters), and reading it changes neither the method nor the target.\<close>

theorem patched_path_without_query:
  assumes "look_scope r ''path'' = None"
    and "CHR ''?'' \<in> set (rq_raw_path r) \<Longrightarrow> plain_target (rq_raw_path r)"
    and "pc_parse_url cfg = url_parse ext" and "\<And>q. pc_parse_query cfg q \<in> range Inr"
  shows "\<exists>r'. rq_path (patch_call (Suc n) cfg other) (put_all rq_set patch_attrs r) =
      (Inr (PBytes (takeWhile (\<lambda>c. c \<noteq> CHR ''?'') (rq_raw_path r))), r') \<and>
    rq_method r' = rq_method r \<and> rq_raw_path r' = rq_raw_path r"
  using assms by (rule patched_rq_path)

theorem patched_path_without_query_witness:
  "\<exists>r'. rq_path (patch_call 1 sample_config (\<lambda>f r. (Inl KeyError, r)))
      (put_all rq_set patch_attrs (new_request ''/a/b?x=1;y=2'' ''GET'' None [] [] 0 [])) =
      (Inr (PBytes ''/a/b''), r') \<and> rq_method r' = ''GET'' \<and> rq_raw_path r' = ''/a/b?x=1;y=2''"
  using patched_path_without_query [of "new_request ''/a/b?x=1;y=2'' ''GET'' None [] [] 0 []" sample_config
      "\<lambda>u. Inl ValueError" 0 "\<lambda>f r. (Inl KeyError, r)"]
  by (simp add: new_request_def look_scope_def plain_target_def sample_config_def)

text \<open>A charset parameter of the content type is not honoured: \<open>_encoding\<close> returns the name of the
  parameter it finds, \<open>charset\<close>, and never its value.\<close>

theorem encoding_ignores_value:
  "encoding_of r = Inr (if names_charset r then lit ''charset'' else lit ''iso-8859-1'')"
  by (simp add: encoding_of_eq DEFAULT_ENCODING_def del: lit_simps)

text \<open>Reading \<open>json\<close> on a patched request with the JSON content type, a body and a charset
  parameter raises the error that Python gives for the unknown encoding \<open>charset\<close>.\<close>

theorem json_with_charset_fails:
  assumes "look_scope r ''json'' = None" "look_scope r ''content_type'' = None"
      "look_scope r ''encoding'' = None"
    and "content_type_of r = PBytes (pc_json_content_type cfg)" and "names_charset r"
    and "rq_body r = Some body" and "pc_codec cfg (lit ''charset'') body = Inl e"
  shows "fst (rq_getattr (patch_call (Suc (Suc n)) cfg other) ''json'' (put_all rq_set patch_attrs r)) = Inl e"
proof -
  have "encoding_of r = Inr (lit ''charset'')" using assms(5) by (simp add: encoding_of_eq)
  from patched_json [OF assms(2-4,6) this, of n other] obtain r' where
    "patch_call (Suc (Suc n)) cfg other F_json (put_all rq_set patch_attrs r) =
      (case decode_with cfg (lit ''charset'') body of Inl e \<Rightarrow> Inl e | Inr s \<Rightarrow> pc_json_loads cfg s, r')" ..
  moreover have "decode_with cfg (lit ''charset'') body = Inl e"
    using assms(7) by (simp add: decode_with_def DEFAULT_ENCODING_def)
  ultimately show ?thesis
    by (simp add: rq_getattr_def rq_get_lazy [OF patched_json_scope [OF assms(1)]] request_slots_def
        del: patch_call.simps)
qed

definition json_request :: request where
  "json_request =
     new_request ''/a'' ''POST'' (Some ''{}'') [(''content-type'', ''application/json; charset=utf-8'')]
       ''HTTP/1.1'' 0 ''http''"

theorem json_with_charset_fails_witness:
  "fst (rq_getattr (patch_call 2 sample_config (\<lambda>f r. (Inl KeyError, r))) ''json''
     (put_all rq_set patch_attrs json_request)) = Inl LookupError"
proof -
  have "split_on (CHR '';'') ''application/json; charset=utf-8'' = [''application/json'', '' charset=utf-8'']"
    "strip '' charset=utf-8'' = ''charset=utf-8''"
    by (simp_all add: bytes_simps is_space_def)
  moreover have "map_of (rq_headers json_request) ''content-type'' = Some ''application/json; charset=utf-8''"
    by code_simp
  ultimately have "names_charset json_request"
    by (simp add: names_charset_def charset_given_def bytes_simps is_space_def)
  moreover have "content_type_of json_request = PBytes ''application/json''" by code_simp
  moreover have "look_scope json_request k = None" "rq_body json_request = Some ''{}''" for k
    by (simp_all add: json_request_def new_request_def look_scope_def)
  ultimately show ?thesis
    using json_with_charset_fails [of json_request sample_config "''{}''" LookupError 0 "\<lambda>f r. (Inl KeyError, r)"]
    by (simp add: sample_config_def numeral_2_eq_2 del: patch_call.simps)
qed

text \<open>Without a charset parameter the JSON body is decoded as ISO 8859-1 and parsed, whatever bytes
  it has, and the value is kept in the scope.\<close>

theorem json_parsed_once:
  assumes "look_scope r ''json'' = None" "look_scope r ''content_type'' = None"
      "look_scope r ''encoding'' = None"
    and "content_type_of r = PBytes (pc_json_content_type cfg)" and "\<not> names_charset r"
    and "rq_body r = Some body" and "pc_json_loads cfg (lit body) = Inr v" and "v \<noteq> EMPTY"
  shows "\<exists>r'. rq_getattr (patch_call (Suc (Suc n)) cfg other) ''json'' (put_all rq_set patch_attrs r) = (Inr v, r') \<and>
    look_scope r' ''json'' = Some (Plain v)"
proof -
  have "encoding_of r = Inr DEFAULT_ENCODING" using assms(5) by (simp add: encoding_of_eq)
  from patched_json [OF assms(2-4,6) this, of n other] assms(7)
  obtain r' where
    "patch_call (Suc (Suc n)) cfg other F_json (put_all rq_set patch_attrs r) = (Inr v, r')"
    by (auto simp: decode_with_def)
  with getattr_lazy [OF _ patched_json_scope [OF assms(1)], of "patch_call (Suc (Suc n)) cfg other" v r'] assms(8)
  show ?thesis by (simp add: request_slots_def del: patch_call.simps)
qed

theorem json_parsed_once_witness:
  "\<exists>r'. rq_getattr (patch_call 2 sample_config (\<lambda>f r. (Inl KeyError, r))) ''json''
      (put_all rq_set patch_attrs
        (new_request ''/a'' ''POST'' (Some ''{}'') [(''content-type'', ''application/json'')] [] 0 [])) =
      (Inr (PStr (lit ''{}'')), r') \<and> look_scope r' ''json'' = Some (Plain (PStr (lit ''{}'')))"
proof -
  let ?r = "new_request ''/a'' ''POST'' (Some ''{}'') [(''content-type'', ''application/json'')] [] 0 []"
  have "\<not> names_charset ?r" "content_type_of ?r = PBytes ''application/json''" by code_simp+
  moreover have "look_scope ?r k = None" "rq_body ?r = Some ''{}''" for k
    by (simp_all add: new_request_def look_scope_def)
  ultimately show ?thesis
    using json_parsed_once [of ?r sample_config "''{}''" "PStr (lit ''{}'')" 0 "\<lambda>f r. (Inl KeyError, r)"]
    by (simp add: sample_config_def EMPTY_def numeral_2_eq_2 del: patch_call.simps lit_simps)
qed

end
