(* ===== verification/Formatting.thy ===== *)
theory Formatting
  imports Common PyText
begin

text \<open>
  \<^verbatim>\<open>levin/components/formating.py\<close>: what becomes of the value that a handler returns.
  \<open>JsonFormat\<close>, \<open>TextFormat\<close> and \<open>TemplateFormat\<close> turn dictionaries, lists, tuples, text and
  templates into responses; everything else passes through.

  \<open>json.dumps\<close> is modelled on the values of the model, with and without the function
  \<open>_default\<close> for \<open>bytes\<close>; \<open>string.Template.safe_substitute\<close> is modelled in full. The files that
  \<open>os.walk\<close> finds are an argument.
\<close>

section \<open>Replies\<close>

text \<open>What a handler, or a middleware, returns: a response, a template object, or another value.
  \<open>R_odd\<close> is a response whose status, taken from the scope, is not an integer.\<close>

datatype reply =
    R_response response
  | R_odd pyval bytes headers
  | R_template pystr "(pyval \<times> pyval) list"
  | R_value pyval

definition made_response :: "pyval \<Rightarrow> bytes \<Rightarrow> headers \<Rightarrow> reply" where
  "made_response status body headers =
     (case status of
        PInt i \<Rightarrow> R_response (new_response i body (Some headers) [] False)
      | PBool b \<Rightarrow> R_response (new_response (if b then 1 else 0) body (Some headers) [] False)
      | _ \<Rightarrow> R_odd status body headers)"

type_synonym 'h handler_chain = "'h \<Rightarrow> request \<Rightarrow> reply result \<times> request"

text \<open>\<open>Response(status=request.get("status", 200), body=..., headers=...)\<close>: the status is read before
  the body is computed.\<close>

definition reply_with ::
  "lazy_call \<Rightarrow> (request \<Rightarrow> bytes result) \<Rightarrow> bytes \<Rightarrow> request \<Rightarrow> reply result \<times> request" where
  "reply_with call body content_type r =
     (case rq_get call ''status'' (PInt 200) r of
        (Inl e, r') \<Rightarrow> (Inl e, r')
      | (Inr status, r') \<Rightarrow>
          (case body r' of
             Inl e \<Rightarrow> (Inl e, r')
           | Inr b \<Rightarrow> (Inr (made_response status b [(''content-type'', content_type)]), r')))"

section \<open>JSON\<close>

definition hex_digit :: "nat \<Rightarrow> nat" where
  "hex_digit n = (if n < 10 then 48 + n else 87 + n)"

definition u_escape :: "nat \<Rightarrow> pystr" where
  "u_escape n =
     [92, 117, hex_digit (n div 4096 mod 16), hex_digit (n div 256 mod 16),
      hex_digit (n div 16 mod 16), hex_digit (n mod 16)]"

text \<open>One character of a string, with \<open>ensure_ascii\<close>.\<close>

definition json_char :: "nat \<Rightarrow> pystr" where
  "json_char n =
     (if n = 34 then [92, 34] else if n = 92 then [92, 92]
      else if n = 10 then [92, 110] else if n = 13 then [92, 114] else if n = 9 then [92, 116]
      else if n = 12 then [92, 102] else if n = 8 then [92, 98]
      else if 32 \<le> n \<and> n < 127 then [n]
      else if n < 65536 then u_escape n
      else u_escape (55296 + (n - 65536) div 1024) @ u_escape (56320 + (n - 65536) mod 1024))"

definition json_string :: "pystr \<Rightarrow> pystr" where
  "json_string s = [34] @ concat (map json_char s) @ [34]"

fun separated_by :: "'a \<Rightarrow> 'a list \<Rightarrow> 'a list" where
  "separated_by sep [] = []"
| "separated_by sep [x] = [x]"
| "separated_by sep (x # y # ys) = x # sep # separated_by sep (y # ys)"

text \<open>A dictionary key: text as it is, the other allowed types by their JSON text.\<close>

fun json_key :: "pyval \<Rightarrow> pystr result" where
  "json_key (PStr s) = Inr (json_string s)"
| "json_key (PBool b) = Inr (json_string (if b then lit ''true'' else lit ''false''))"
| "json_key PNone = Inr (json_string (lit ''null''))"
| "json_key (PInt i) = Inr (json_string (lit (show_int i)))"
| "json_key _ = Inl TypeError"

text \<open>\<open>json.dumps(value, default=_default)\<close>, or without \<open>default\<close>. Items are separated by \<open>", "\<close>,
  keys and values by \<open>": "\<close>.\<close>

fun json_value :: "bool \<Rightarrow> pyval \<Rightarrow> pystr result"
  and json_items :: "bool \<Rightarrow> pyval list \<Rightarrow> pystr list result"
  and json_pairs :: "bool \<Rightarrow> (pyval \<times> pyval) list \<Rightarrow> pystr list result" where
  "json_value d PNone = Inr (lit ''null'')"
| "json_value d (PBool b) = Inr (if b then lit ''true'' else lit ''false'')"
| "json_value d (PInt i) = Inr (lit (show_int i))"
| "json_value d (PStr s) = Inr (json_string s)"
| "json_value d (PBytes b) = (if d then map_sum id json_string (decode b) else Inl TypeError)"
| "json_value d (PList xs) = map_sum id (\<lambda>ss. lit ''['' @ concat (separated_by (lit '', '') ss) @ lit '']'') (json_items d xs)"
| "json_value d (PTuple xs) = map_sum id (\<lambda>ss. lit ''['' @ concat (separated_by (lit '', '') ss) @ lit '']'') (json_items d xs)"
| "json_value d (PDict kvs) = map_sum id (\<lambda>ss. lit ''{'' @ concat (separated_by (lit '', '') ss) @ lit ''}'') (json_pairs d kvs)"
| "json_value d (PPush p m) = Inl TypeError"
| "json_value d (PObj k i) = Inl TypeError"
| "json_items d [] = Inr []"
| "json_items d (x # xs) =
     (case json_value d x of
        Inl e \<Rightarrow> Inl e
      | Inr s \<Rightarrow> map_sum id ((#) s) (json_items d xs))"
| "json_pairs d [] = Inr []"
| "json_pairs d ((k, v) # kvs) =
     (case json_key k of
        Inl e \<Rightarrow> Inl e
      | Inr sk \<Rightarrow>
          (case json_value d v of
             Inl e \<Rightarrow> Inl e
           | Inr sv \<Rightarrow> map_sum id ((#) (sk @ lit '': '' @ sv)) (json_pairs d kvs)))"


section \<open>Middlewares for values\<close>

record json_config =
  jc_dumps :: "bool \<Rightarrow> pyval \<Rightarrow> pystr result"
  jc_default :: bool
  jc_content_type :: bytes
  jc_types :: "pyval \<Rightarrow> bool"

fun is_container :: "pyval \<Rightarrow> bool" where
  "is_container (PDict d) = True"
| "is_container (PList xs) = True"
| "is_container (PTuple xs) = True"
| "is_container _ = False"

definition default_json :: json_config where
  "default_json =
     \<lparr>jc_dumps = json_value, jc_default = True, jc_content_type = ''application/json'',
      jc_types = is_container\<rparr>"

definition json_middleware :: "json_config \<Rightarrow> lazy_call \<Rightarrow> 'h handler_chain \<Rightarrow> 'h handler_chain" where
  "json_middleware cfg call call_next h r =
     (case call_next h r of
        (Inr (R_value v), r') \<Rightarrow>
          if jc_types cfg v then
            (case jc_dumps cfg (jc_default cfg) v of
               Inl e \<Rightarrow> (Inl e, r')
             | Inr s \<Rightarrow> reply_with call (\<lambda>_. encode s) (jc_content_type cfg) r')
          else (Inr (R_value v), r')
      | res \<Rightarrow> res)"

definition text_middleware :: "bytes \<Rightarrow> lazy_call \<Rightarrow> 'h handler_chain \<Rightarrow> 'h handler_chain" where
  "text_middleware content_type call call_next h r =
     (case call_next h r of
        (Inr (R_value (PStr s)), r') \<Rightarrow>
          (case encode s of
             Inl e \<Rightarrow> (Inl e, r')
           | Inr b \<Rightarrow> reply_with call (\<lambda>_. Inr b) content_type r')
      | (Inr (R_value (PBytes b)), r') \<Rightarrow> reply_with call (\<lambda>_. Inr b) content_type r'
      | res \<Rightarrow> res)"

section \<open>Templates\<close>

text \<open>\<open>string.Template(template).safe_substitute(mapping)\<close>: \<open>$$\<close>, \<open>$name\<close> and \<open>${name}\<close>; what is not in
  the mapping, and any other \<open>$\<close>, stays.\<close>

definition id_start :: "nat \<Rightarrow> bool" where
  "id_start c \<longleftrightarrow> c = 95 \<or> (65 \<le> c \<and> c \<le> 90) \<or> (97 \<le> c \<and> c \<le> 122)"

definition id_char :: "nat \<Rightarrow> bool" where
  "id_char c \<longleftrightarrow> id_start c \<or> (48 \<le> c \<and> c \<le> 57)"

definition ident_prefix :: "pystr \<Rightarrow> pystr" where
  "ident_prefix s = (if s \<noteq> [] \<and> id_start (hd s) then takeWhile id_char s else [])"

function substitute :: "(pystr \<Rightarrow> pystr option) \<Rightarrow> pystr \<Rightarrow> pystr" where
  "substitute look [] = []"
| "substitute look (c # cs) =
     (if c \<noteq> 36 then c # substitute look cs
      else if take 1 cs = [36] then 36 # substitute look (drop 1 cs)
      else if ident_prefix cs \<noteq> [] then
        (case look (ident_prefix cs) of Some v \<Rightarrow> v | None \<Rightarrow> 36 # ident_prefix cs) @
        substitute look (drop (length (ident_prefix cs)) cs)
      else if take 1 cs = [123] \<and> ident_prefix (drop 1 cs) \<noteq> [] \<and>
              take 1 (drop (Suc (length (ident_prefix (drop 1 cs)))) cs) = [125] then
        (case look (ident_prefix (drop 1 cs)) of
           Some v \<Rightarrow> v | None \<Rightarrow> [36, 123] @ ident_prefix (drop 1 cs) @ [125]) @
        substitute look (drop (Suc (Suc (length (ident_prefix (drop 1 cs))))) cs)
      else 36 # substitute look cs)"
  by pat_completeness auto
termination by (relation "measure (\<lambda>(look, s). length s)") auto

record template_config =
  tc_formats :: "pystr list"
  tc_content_type :: bytes
  tc_str :: "attr \<Rightarrow> pystr"

type_synonym templates = "((pystr \<times> pystr) \<times> pystr) list"

text \<open>\<open>init\<close>: \<open>walk\<close> is what \<open>os.walk\<close> gives for the configured directories, one after the other, each
  directory with its files and their contents.\<close>

definition ends_in :: "pystr \<Rightarrow> pystr \<Rightarrow> bool" where
  "ends_in suffix s \<longleftrightarrow> length suffix \<le> length s \<and> drop (length s - length suffix) s = suffix"

fun check_and_save ::
  "template_config \<Rightarrow> (pystr \<times> pystr) list \<Rightarrow> pystr \<Rightarrow> templates \<Rightarrow> templates" where
  "check_and_save cfg [] root ts = ts"
| "check_and_save cfg ((file, content) # files) root ts =
     check_and_save cfg files root
       (if list_ex (\<lambda>f. ends_in f file) (tc_formats cfg) then AList.update (root, file) content ts else ts)"

definition template_init ::
  "template_config \<Rightarrow> (pystr \<times> (pystr \<times> pystr) list) list \<Rightarrow> templates \<Rightarrow> templates" where
  "template_init cfg walk ts = foldl (\<lambda>ts (root, files). check_and_save cfg files root ts) ts walk"

definition get_template :: "templates \<Rightarrow> pystr \<Rightarrow> pystr option" where
  "get_template ts name = map_option snd (find (\<lambda>((root, file), content). file = name) ts)"

definition template_list :: "templates \<Rightarrow> (pystr \<times> pystr) list" where
  "template_list ts = map fst ts"

text \<open>\<open>str(value)\<close> of a substituted value; \<open>tc_str\<close> is the text of the objects that are not text or
  numbers, lazy attributes among them.\<close>

fun template_text :: "template_config \<Rightarrow> attr \<Rightarrow> pystr" where
  "template_text cfg (Plain (PStr s)) = s"
| "template_text cfg (Plain (PInt i)) = lit (show_int i)"
| "template_text cfg (Plain (PBool b)) = (if b then lit ''True'' else lit ''False'')"
| "template_text cfg (Plain PNone) = lit ''None''"
| "template_text cfg a = tc_str cfg a"

text \<open>\<open>{k: v.decode() if isinstance(v, bytes) else v ...}\<close>\<close>

fun decode_values :: "(pyval \<times> attr) list \<Rightarrow> (pyval \<times> attr) list result" where
  "decode_values [] = Inr []"
| "decode_values ((k, a) # kvs) =
     (case a of
        Plain (PBytes b) \<Rightarrow>
          (case decode b of
             Inl e \<Rightarrow> Inl e
           | Inr s \<Rightarrow> map_sum id ((#) (k, Plain (PStr s))) (decode_values kvs))
      | _ \<Rightarrow> map_sum id ((#) (k, a)) (decode_values kvs))"

text \<open>\<open>context.update(request._scope)\<close>, when there is a request.\<close>

definition render_context :: "(pyval \<times> pyval) list \<Rightarrow> request option \<Rightarrow> (pyval \<times> attr) list" where
  "render_context context req =
     (let values = map (\<lambda>(k, v). (k, Plain v)) context
      in case req of
           None \<Rightarrow> values
         | Some r \<Rightarrow> dict_merge values (map (\<lambda>(k, a). (PStr (lit k), a)) (rq_scope r)))"

fun is_text :: "pyval \<Rightarrow> bool" where
  "is_text (PStr s) = True"
| "is_text _ = False"

text \<open>\<open>render\<close>; keyword arguments must have text as names.\<close>

definition render ::
  "template_config \<Rightarrow> templates \<Rightarrow> pyval \<Rightarrow> (pyval \<times> pyval) list \<Rightarrow> request option \<Rightarrow> bytes result" where
  "render cfg ts path context req =
     (case (case path of PStr p \<Rightarrow> get_template ts p | _ \<Rightarrow> None) of
        None \<Rightarrow> Inl PlainException
      | Some template \<Rightarrow>
          if template = [] then Inl PlainException
          else (case decode_values (render_context context req) of
                  Inl e \<Rightarrow> Inl e
                | Inr values \<Rightarrow>
                    if \<not> list_all (\<lambda>(k, a). is_text k) values then Inl TypeError
                    else encode (substitute (\<lambda>n. map_option (template_text cfg) (map_of values (PStr n))) template)))"

definition template_middleware ::
  "template_config \<Rightarrow> templates \<Rightarrow> lazy_call \<Rightarrow> 'h handler_chain \<Rightarrow> 'h handler_chain" where
  "template_middleware cfg ts call call_next h r =
     (case rq_get call ''template'' PNone r of
        (Inl e, r') \<Rightarrow> (Inl e, r')
      | (Inr template, r0) \<Rightarrow>
          (case call_next h r0 of
             (Inr (R_template path context), r') \<Rightarrow>
               reply_with call (\<lambda>r. render cfg ts (PStr path) context (Some r)) (tc_content_type cfg) r'
           | (Inr (R_value (PDict d)), r') \<Rightarrow>
               if truthy template
               then reply_with call (\<lambda>r. render cfg ts template d (Some r)) (tc_content_type cfg) r'
               else (Inr (R_value (PDict d)), r')
           | res \<Rightarrow> res))"


section \<open>Lemmas\<close>

definition printable :: "pystr \<Rightarrow> bool" where
  "printable s \<longleftrightarrow> (\<forall>c \<in> set s. 32 \<le> c \<and> c < 127)"

lemma printable_simps [simp]:
  "printable []" "printable (c # s) \<longleftrightarrow> 32 \<le> c \<and> c < 127 \<and> printable s"
  "printable (s @ t) \<longleftrightarrow> printable s \<and> printable t"
  by (auto simp: printable_def)

lemma encode_printable:
  assumes "printable s"
  shows "encode s = Inr (map char_of s)"
  using assms by (induction s) (simp_all add: encode_point_def)

lemma hex_digit_bounds: "n < 16 \<Longrightarrow> 48 \<le> hex_digit n \<and> hex_digit n < 103"
  by (simp add: hex_digit_def)

lemma printable_u_escape [simp]: "printable (u_escape n)"
  using hex_digit_bounds [of "n div 4096 mod 16"] hex_digit_bounds [of "n div 256 mod 16"]
    hex_digit_bounds [of "n div 16 mod 16"] hex_digit_bounds [of "n mod 16"]
  by (simp add: u_escape_def)

lemma printable_json_char [simp]: "printable (json_char n)"
  by (simp add: json_char_def)

lemma printable_json_string [simp]: "printable (json_string s)"
  by (induction s) (simp_all add: json_string_def)

lemma printable_show_nat [simp]: "printable (lit (show_nat n))"
  using show_nat_digits [of _ n] by (force simp: printable_def lit_def)

lemma printable_show_int [simp]: "printable (lit (show_int i))"
  by (simp add: show_int_def)

lemma printable_separated: "list_all printable ss \<Longrightarrow> printable (concat (separated_by [44, 32] ss))"
  by (induction "[44, 32] :: pystr" ss rule: separated_by.induct) simp_all

lemma json_key_printable: "json_key k = Inr s \<Longrightarrow> printable s"
  by (cases k rule: json_key.cases) auto

lemma json_printable:
  "json_value d v = Inr s \<Longrightarrow> printable s"
  "json_items d vs = Inr ss \<Longrightarrow> list_all printable ss"
  "json_pairs d kvs = Inr ss \<Longrightarrow> list_all printable ss"
  by (induction d v and d vs and d kvs arbitrary: s and ss and ss
      rule: json_value_json_items_json_pairs.induct)
    (auto simp: map_sum_Inr printable_separated json_key_printable split: sum.splits if_splits)

lemma reply_with_status:
  assumes "rq_get call ''status'' (PInt 200) r = (Inr (PInt i), r')" and "body r' = Inr b"
  shows "reply_with call body content_type r =
    (Inr (R_response (new_response i b (Some [(''content-type'', content_type)]) [] False)), r')"
  using assms by (simp add: reply_with_def made_response_def)

lemma substitute_plain: "36 \<notin> set s \<Longrightarrow> substitute look (s @ t) = s @ substitute look t"
  by (induction s) auto

lemma map_of_plain:
  "map_of (map (\<lambda>(k, v). (k, Plain v)) kvs) k = map_option Plain (map_of kvs k)"
  by (induction kvs) auto

lemma render_context_lookup:
  assumes "distinct (map fst (rq_scope r))"
  shows "map_of (render_context context (Some r)) (PStr (lit n)) =
    (case look_scope r n of Some a \<Rightarrow> Some a
     | None \<Rightarrow> map_option Plain (map_of context (PStr (lit n))))"
proof -
  let ?scope = "map (\<lambda>(k, a). (PStr (lit k), a)) (rq_scope r)"
  have "distinct (map fst sc) \<Longrightarrow> distinct (map fst (map (\<lambda>(k, a). (PStr (lit k), a)) sc))" for sc :: scope
    by (induction sc) (auto simp: image_iff)
  from this [OF assms] have "distinct (map fst ?scope)" .
  moreover have "map_of (map (\<lambda>(k, a). (PStr (lit k), a)) sc) (PStr (lit n)) = map_of sc n" for sc :: scope
    by (induction sc) auto
  ultimately show ?thesis
    by (simp add: render_context_def map_of_dict_merge look_scope_def map_of_plain split: option.split)
qed

definition plain_attr :: "attr \<Rightarrow> bool" where
  "plain_attr a \<longleftrightarrow> (case a of Plain (PBytes b) \<Rightarrow> False | _ \<Rightarrow> True)"

lemma decode_values_plain:
  "list_all (\<lambda>(k, a). plain_attr a) kvs \<Longrightarrow> decode_values kvs = Inr kvs"
  by (induction kvs rule: decode_values.induct) (auto simp: plain_attr_def split: attr.splits pyval.splits)

lemma json_reply_lemma:
  assumes "call_next h r = (Inr (R_value v), r1)" and "is_container v" and "json_value True v = Inr s"
    and "rq_get call ''status'' (PInt 200) r1 = (Inr (PInt i), r2)"
  shows "json_middleware default_json call call_next h r =
    (Inr (R_response (new_response i (map char_of s)
       (Some [(''content-type'', ''application/json'')]) [] False)), r2)"
proof -
  have "encode s = Inr (map char_of s)"
    using json_printable(1) [OF assms(3)] by (rule encode_printable)
  with assms show ?thesis
    using reply_with_status [OF assms(4), of "\<lambda>_. encode s" "map char_of s" "''application/json''"]
    by (simp add: json_middleware_def default_json_def)
qed

section \<open>Properties\<close>

text \<open>C36: The JSON text of a value has only printable ASCII characters, so a dictionary, list or tuple
  that \<open>json.dumps\<close> accepts always becomes a response: its bytes are that text, its status the one of
  the scope or 200.\<close>

theorem json_reply:
  assumes "call_next h r = (Inr (R_value v), r1)" and "is_container v" and "json_value True v = Inr s"
    and "rq_get call ''status'' (PInt 200) r1 = (Inr (PInt i), r2)"
  shows "json_middleware default_json call call_next h r =
      (Inr (R_response (new_response i (map char_of s)
         (Some [(''content-type'', ''application/json'')]) [] False)), r2) \<and>
    (\<forall>c \<in> set s. 32 \<le> c \<and> c < 127)"
  using json_reply_lemma [of call_next h r v r1 s call i r2, OF assms] json_printable(1) [OF assms(3)] by (simp add: printable_def)

definition sample_value :: pyval where
  "sample_value = PDict [(PStr (lit ''a''), PList [PBool True, PBytes ''b'', PStr [228]])]"

definition sample_text :: pystr where
  "sample_text = lit ''{'' @ [34] @ lit ''a'' @ [34] @ lit '': [true, '' @ [34] @ lit ''b'' @ [34] @ lit '', '' @
     [34, 92] @ lit ''u00e4'' @ [34] @ lit '']}''"

lemma sample_json: "json_value True sample_value = Inr sample_text"
  by (simp add: sample_value_def sample_text_def json_string_def json_char_def u_escape_def hex_digit_def)

theorem json_reply_witness:
  "json_middleware default_json (\<lambda>f r. (Inl KeyError, r)) (\<lambda>h r. (Inr (R_value sample_value), r)) (0 :: nat)
     (new_request ''/'' ''GET'' None [] [] 0 []) =
   (Inr (R_response (new_response 200 (map char_of sample_text)
     (Some [(''content-type'', ''application/json'')]) [] False)), new_request ''/'' ''GET'' None [] [] 0 [])"
proof -
  let ?r = "new_request ''/'' ''GET'' None [] [] 0 []"
  have "rq_get (\<lambda>f r. (Inl KeyError, r)) ''status'' (PInt 200) ?r = (Inr (PInt 200), ?r)"
    by (simp add: rq_get_def new_request_def)
  moreover have "is_container sample_value" by (simp add: sample_value_def)
  ultimately show ?thesis
    using json_reply [of "\<lambda>h r. (Inr (R_value sample_value), r)" "0 :: nat" ?r sample_value ?r sample_text
        "\<lambda>f r. (Inl KeyError, r)" 200 ?r] sample_json
    by simp
qed

text \<open>A value is formatted at most once: a response, and the error of a handler, pass unchanged
  through the three formatters of the default application.\<close>

theorem formatted_once:
  assumes "rq_get call ''template'' PNone r = (Inr t, r0)"
    and "call_next h r0 = (Inr (R_response resp), r1) \<or> call_next h r0 = (Inl e, r1)"
  shows "json_middleware jc call (text_middleware tt call (template_middleware tc ts call call_next)) h r =
    call_next h r0"
  using assms by (auto simp: json_middleware_def text_middleware_def template_middleware_def)

theorem formatted_once_witness:
  "json_middleware default_json (\<lambda>f r. (Inl KeyError, r)) (text_middleware ''text/html'' (\<lambda>f r. (Inl KeyError, r))
     (template_middleware \<lparr>tc_formats = [], tc_content_type = ''text/html'', tc_str = (\<lambda>a. [])\<rparr> []
       (\<lambda>f r. (Inl KeyError, r)) (\<lambda>h r. (Inr (R_response (new_response 200 [] None [] False)), r)))) (0 :: nat)
     (new_request ''/'' ''GET'' None [] [] 0 []) =
   (Inr (R_response (new_response 200 [] None [] False)), new_request ''/'' ''GET'' None [] [] 0 [])"
  by (rule formatted_once [where t = PNone and e = KeyError])
    (simp_all add: rq_get_def new_request_def)

text \<open>In a template the scope of the request hides the context that the handler gave: a
  placeholder whose name is in the scope is replaced by the value there.\<close>

lemma render_placeholder:
  assumes "get_template ts path = Some (36 # lit n)" and "ident_prefix (lit n) = lit n"
    and "n \<noteq> []" and "map_of (render_context context req) (PStr (lit n)) = Some (Plain (PStr s))"
    and "list_all (\<lambda>(k, a). is_text k \<and> plain_attr a) (render_context context req)"
    and "encode s = Inr b"
  shows "render cfg ts (PStr path) context req = Inr b"
proof -
  have vals: "decode_values (render_context context req) = Inr (render_context context req)"
    and keys: "list_all (\<lambda>(k, a). is_text k) (render_context context req)"
    using assms(5) decode_values_plain [of "render_context context req"] by (auto simp: list_all_iff)
  have "lit n \<noteq> []" "take 1 (lit n) \<noteq> [36]"
    using assms(2,3) by (cases n; auto simp: ident_prefix_def id_start_def split: if_splits)+
  then show ?thesis
    using assms(1,2,4,6) vals keys by (simp add: render_def)
qed

theorem scope_hides_context:
  assumes "get_template ts path = Some (36 # lit n)" and "ident_prefix (lit n) = lit n"
    and "n \<noteq> []" and "distinct (map fst (rq_scope r))" and "look_scope r n = Some (Plain (PStr s))"
    and "list_all (\<lambda>(k, a). is_text k \<and> plain_attr a) (render_context context (Some r))"
    and "encode s = Inr b"
  shows "render cfg ts (PStr path) context (Some r) = Inr b"
  using assms(4,5) by (intro render_placeholder [OF assms(1-3) _ assms(6,7)]) (simp add: render_context_lookup)

theorem scope_hides_context_witness:
  "render \<lparr>tc_formats = [], tc_content_type = [], tc_str = (\<lambda>a. [])\<rparr> [((lit ''d'', lit ''t.html''), lit ''$user'')]
     (PStr (lit ''t.html'')) [(PStr (lit ''user''), PStr (lit ''from the handler''))]
     (Some ((new_request ''/'' ''GET'' None [] [] 0 [])\<lparr>rq_scope := [(''user'', Plain (PStr (lit ''from the route'')))]\<rparr>)) =
   Inr ''from the route''"
proof (rule scope_hides_context [of _ _ "''user''"])
  show "ident_prefix (lit ''user'') = lit ''user''" by (simp add: ident_prefix_def id_char_def id_start_def)
  show "encode (lit ''from the route'') = Inr ''from the route''" by (rule encode_lit) simp
qed (simp_all add: get_template_def new_request_def look_scope_def render_context_def plain_attr_def)

text \<open>Without a request, as when a handler renders a template itself, the context counts.\<close>

theorem context_without_request:
  assumes "get_template ts path = Some (36 # lit n)" and "ident_prefix (lit n) = lit n" and "n \<noteq> []"
    and "map_of context (PStr (lit n)) = Some (PStr s)"
    and "list_all (\<lambda>(k, v). is_text k \<and> plain_attr (Plain v)) context" and "encode s = Inr b"
  shows "render cfg ts (PStr path) context None = Inr b"
proof (rule render_placeholder [OF assms(1-3) _ _ assms(6)])
  show "map_of (render_context context None) (PStr (lit n)) = Some (Plain (PStr s))"
    using assms(4) by (simp add: render_context_def map_of_plain)
  show "list_all (\<lambda>(k, a). is_text k \<and> plain_attr a) (render_context context None)"
    using assms(5) by (auto simp: render_context_def list_all_iff)
qed

theorem context_without_request_witness:
  "render \<lparr>tc_formats = [], tc_content_type = [], tc_str = (\<lambda>a. [])\<rparr> [((lit ''d'', lit ''t.html''), lit ''$user'')]
     (PStr (lit ''t.html'')) [(PStr (lit ''user''), PStr (lit ''from the handler''))] None = Inr ''from the handler''"
proof (rule context_without_request [of _ _ "''user''"])
  show "ident_prefix (lit ''user'') = lit ''user''" by (simp add: ident_prefix_def id_char_def id_start_def)
  show "encode (lit ''from the handler'') = Inr ''from the handler''" by (rule encode_lit) simp
qed (simp_all add: get_template_def plain_attr_def)

end
