(* ===== verification/Regex.thy ===== *)
theory Regex
  imports Prelude
begin

text \<open>
  The fragment of Python's \<open>re\<close> that the router builds its patterns in: literal bytes,
  escaped punctuation, the dot, character classes of characters and ranges, the quantifiers
  \<open>?\<close>, \<open>+\<close> and \<open>*\<close> on a single item, and named groups, not nested. \<open>parse_re\<close> reads a
  pattern; \<open>None\<close> says that the pattern leaves the fragment or is not well formed, and
  \<open>re_compile\<close> then asks the engine it is given. Matching is by backtracking, in the order in
  which \<open>re\<close> tries: a greedy quantifier prefers more.
\<close>

datatype atom = AChar char | AAny | AClass "(char \<times> char) list"

datatype quant = Once | Opt | Plus | Star

type_synonym item = "atom \<times> quant"

datatype node = Item atom quant | Group name "item list"

section \<open>Parsing\<close>

definition is_alnum :: "char \<Rightarrow> bool" where
  "is_alnum c \<longleftrightarrow> (48 \<le> code c \<and> code c \<le> 57) \<or> (65 \<le> code c \<and> code c \<le> 90) \<or>
     (97 \<le> code c \<and> code c \<le> 122)"

definition is_identifier :: "name \<Rightarrow> bool" where
  "is_identifier n \<longleftrightarrow> n \<noteq> [] \<and> \<not> (48 \<le> code (hd n) \<and> code (hd n) \<le> 57) \<and>
     (\<forall>c \<in> set n. is_alnum c \<or> c = CHR ''_'')"

text \<open>The characters that do not stand for themselves outside a class.\<close>

definition is_meta :: "char \<Rightarrow> bool" where
  "is_meta c \<longleftrightarrow> c \<in> set ''.^$*+?{[|()'' \<or> c = CHR 0x5C"

fun quant_of :: "char \<Rightarrow> quant option" where
  "quant_of c = (if c = CHR ''?'' then Some Opt else if c = CHR ''+'' then Some Plus
                 else if c = CHR ''*'' then Some Star else None)"

text \<open>The inside of a class, after the opening bracket; ranges must not be reversed.\<close>

fun parse_class :: "bytes \<Rightarrow> ((char \<times> char) list \<times> bytes) option" where
  "parse_class [] = None"
| "parse_class (c # cs) =
     (if c = CHR '']'' then Some ([], cs)
      else if c = CHR ''['' \<or> c = CHR 0x5C then None
      else if take 1 cs = ''-'' \<and> cs \<noteq> ''-'' \<and> hd (drop 1 cs) \<noteq> CHR '']'' then
        (let d = hd (drop 1 cs) in
         if d = CHR ''['' \<or> d = CHR 0x5C \<or> code d < code c then None
         else map_option (\<lambda>(rs, rest). ((c, d) # rs, rest)) (parse_class (drop 2 cs)))
      else map_option (\<lambda>(rs, rest). ((c, c) # rs, rest)) (parse_class cs))"

fun parse_atom :: "bytes \<Rightarrow> (atom \<times> bytes) option" where
  "parse_atom [] = None"
| "parse_atom (c # cs) =
     (if c = CHR ''.'' then Some (AAny, cs)
      else if c = CHR ''['' then
        (if take 1 cs = ''^'' \<or> take 1 cs = '']'' then None
         else map_option (\<lambda>(rs, rest). (AClass rs, rest)) (parse_class cs))
      else if c = CHR 0x5C then
        (if cs \<noteq> [] \<and> \<not> is_alnum (hd cs) then Some (AChar (hd cs), tl cs) else None)
      else if is_meta c then None
      else Some (AChar c, cs))"

text \<open>An atom with its quantifier; a second quantifier (lazy, possessive, or an error) leaves the
  fragment.\<close>

definition parse_item :: "bytes \<Rightarrow> (item \<times> bytes) option" where
  "parse_item s =
     (case parse_atom s of
        None \<Rightarrow> None
      | Some (a, []) \<Rightarrow> Some ((a, Once), [])
      | Some (a, c # cs) \<Rightarrow>
          (if c = CHR ''{'' then None
           else (case quant_of c of
                   None \<Rightarrow> Some ((a, Once), c # cs)
                 | Some q \<Rightarrow>
                     (if cs \<noteq> [] \<and> (hd cs = CHR ''{'' \<or> quant_of (hd cs) \<noteq> None) then None
                      else Some ((a, q), cs)))))"

definition group_open :: bytes where
  "group_open = ''(?P<''"

lemma parse_class_shorter: "parse_class s = Some (rs, t) \<Longrightarrow> length t < length s"
  by (induction s arbitrary: rs t rule: parse_class.induct)
    (fastforce simp: Let_def split: if_splits)+

lemma parse_atom_shorter: "parse_atom s = Some (a, t) \<Longrightarrow> length t < length s"
  by (cases s) (fastforce split: if_splits dest: parse_class_shorter)+

lemma parse_item_shorter: "parse_item s = Some (i, t) \<Longrightarrow> length t < length s"
  by (fastforce simp: parse_item_def split: option.splits list.splits if_splits
      dest: parse_atom_shorter)

text \<open>The whole pattern. The first argument is the group that is open, with the items it has so
  far.\<close>

function parse_nodes :: "(name \<times> item list) option \<Rightarrow> bytes \<Rightarrow> node list option" where
  "parse_nodes g [] = (if g = None then Some [] else None)"
| "parse_nodes g (c # cs) =
     (if c = CHR ''('' then
        (let n = takeWhile (\<lambda>d. d \<noteq> CHR ''>'') (drop 3 cs);
             rest = dropWhile (\<lambda>d. d \<noteq> CHR ''>'') (drop 3 cs)
         in if g = None \<and> take 4 (c # cs) = group_open \<and> is_identifier n \<and> rest \<noteq> []
            then parse_nodes (Some (n, [])) (tl rest) else None)
      else if c = CHR '')'' then
        (case g of
           None \<Rightarrow> None
         | Some (n, items) \<Rightarrow>
             (if cs \<noteq> [] \<and> (hd cs = CHR ''{'' \<or> quant_of (hd cs) \<noteq> None) then None
              else map_option ((#) (Group n items)) (parse_nodes None cs)))
      else
        (case parse_item (c # cs) of
           None \<Rightarrow> None
         | Some (i, rest) \<Rightarrow>
             (case g of
                None \<Rightarrow> map_option ((#) (Item (fst i) (snd i))) (parse_nodes None rest)
              | Some (n, items) \<Rightarrow> parse_nodes (Some (n, items @ [i])) rest)))"
  by pat_completeness auto
termination
proof (relation "measure (\<lambda>(g, s). length s)", goal_cases)
  case (2 g c cs n rest)
  have "length rest \<le> length cs"
    unfolding 2(3) using length_dropWhile_le [of "\<lambda>d. d \<noteq> CHR ''>''" "drop 3 cs"] by simp
  then show ?case by simp
qed (auto dest: parse_item_shorter)

definition group_names :: "node list \<Rightarrow> name list" where
  "group_names ns = concat (map (\<lambda>n. case n of Item a q \<Rightarrow> [] | Group g items \<Rightarrow> [g]) ns)"

definition parse_re :: "bytes \<Rightarrow> node list option" where
  "parse_re s =
     (case parse_nodes None s of
        None \<Rightarrow> None
      | Some ns \<Rightarrow> if distinct (group_names ns) then Some ns else None)"

section \<open>Matching\<close>

fun atom_matches :: "atom \<Rightarrow> char \<Rightarrow> bool" where
  "atom_matches (AChar c) d = (d = c)"
| "atom_matches AAny d = (d \<noteq> LF)"
| "atom_matches (AClass rs) d = list_ex (\<lambda>(lo, hi). code lo \<le> code d \<and> code d \<le> code hi) rs"

text \<open>The rests after matching, in order of preference.\<close>

fun star_rests :: "(char \<Rightarrow> bool) \<Rightarrow> bytes \<Rightarrow> bytes list" where
  "star_rests p [] = [[]]"
| "star_rests p (c # cs) = (if p c then star_rests p cs @ [c # cs] else [c # cs])"

fun item_rests :: "item \<Rightarrow> bytes \<Rightarrow> bytes list" where
  "item_rests (a, Once) s = (case s of [] \<Rightarrow> [] | c # cs \<Rightarrow> if atom_matches a c then [cs] else [])"
| "item_rests (a, Opt) s = (case s of [] \<Rightarrow> [[]] | c # cs \<Rightarrow> if atom_matches a c then [cs, s] else [s])"
| "item_rests (a, Plus) s =
     (case s of [] \<Rightarrow> [] | c # cs \<Rightarrow> if atom_matches a c then star_rests (atom_matches a) cs else [])"
| "item_rests (a, Star) s = star_rests (atom_matches a) s"

fun items_rests :: "item list \<Rightarrow> bytes \<Rightarrow> bytes list" where
  "items_rests [] s = [s]"
| "items_rests (i # is) s = concat (map (items_rests is) (item_rests i s))"

type_synonym groups = "(name \<times> bytes) list"

fun match_nodes :: "node list \<Rightarrow> bytes \<Rightarrow> (groups \<times> bytes) list" where
  "match_nodes [] s = [([], s)]"
| "match_nodes (Item a q # ns) s = concat (map (match_nodes ns) (item_rests (a, q) s))"
| "match_nodes (Group n items # ns) s =
     concat (map (\<lambda>r. map (\<lambda>(g, t). ((n, take (length s - length r) s) # g, t)) (match_nodes ns r))
        (items_rests items s))"

text \<open>\<open>regexp.fullmatch(s)\<close>: the first match that reaches the end, with its \<open>groupdict()\<close>.\<close>

definition re_fullmatch :: "node list \<Rightarrow> bytes \<Rightarrow> groups option" where
  "re_fullmatch ns s =
     (case filter (\<lambda>(g, t). t = []) (match_nodes ns s) of [] \<Rightarrow> None | (g, t) # _ \<Rightarrow> Some g)"

section \<open>Compiled patterns\<close>

text \<open>A compiled pattern: its source text and its \<open>fullmatch\<close>, which gives the \<open>groupdict\<close> of a
  match (values are \<open>bytes\<close>, or \<open>None\<close> for a group that took no part).\<close>

record compiled =
  cr_pattern :: bytes
  cr_fullmatch :: "bytes \<Rightarrow> (name \<times> pyval) list option"

definition bytes_groups :: "groups \<Rightarrow> (name \<times> pyval) list" where
  "bytes_groups g = map (\<lambda>(n, v). (n, PBytes v)) g"

definition re_compile :: "(bytes \<Rightarrow> compiled result) \<Rightarrow> bytes \<Rightarrow> compiled result" where
  "re_compile ext text =
     (case parse_re text of
        None \<Rightarrow> ext text
      | Some ns \<Rightarrow>
          Inr \<lparr>cr_pattern = text,
               cr_fullmatch = (\<lambda>s. map_option bytes_groups (re_fullmatch ns s))\<rparr>)"

section \<open>Lemmas\<close>

text \<open>Every rest is a suffix; a greedy star first tries to take everything it can.\<close>

lemma star_rests_suffix: "r \<in> set (star_rests p s) \<Longrightarrow> \<exists>w. s = w @ r \<and> (\<forall>c \<in> set w. p c)"
proof (induction s)
  case Nil
  then show ?case by simp
next
  case (Cons c cs)
  show ?case
  proof (cases "p c \<and> r \<in> set (star_rests p cs)")
    case True
    then obtain w where "cs = w @ r" "\<forall>d \<in> set w. p d" using Cons.IH by blast
    then have "c # cs = (c # w) @ r \<and> (\<forall>d \<in> set (c # w). p d)" using True by simp
    then show ?thesis by blast
  next
    case False
    then have "r = c # cs" using Cons.prems by (auto split: if_splits)
    then show ?thesis by simp
  qed
qed

lemma star_rests_greedy:
  assumes "\<forall>c \<in> set w. p c" and "r = [] \<or> \<not> p (hd r)"
  shows "\<exists>rs. star_rests p (w @ r) = r # rs"
  using assms
proof (induction w)
  case Nil
  then show ?case by (cases r) auto
next
  case (Cons c w)
  then obtain rs where "star_rests p (w @ r) = r # rs" by auto
  then show ?case using Cons.prems by simp
qed

lemma star_rests_complete: "\<forall>c \<in> set w. p c \<Longrightarrow> r \<in> set (star_rests p (w @ r))"
proof (induction w)
  case Nil
  then show ?case by (cases r) auto
next
  case (Cons c w)
  then show ?case by simp
qed

text \<open>A full match is in particular a match.\<close>

lemma re_fullmatch_Some:
  "re_fullmatch ns s = Some g \<Longrightarrow> (g, []) \<in> set (match_nodes ns s)"
  unfolding re_fullmatch_def
  by (auto split: list.splits dest!: filter_eq_ConsD)

lemma re_fullmatch_None_iff:
  "re_fullmatch ns s = None \<longleftrightarrow> (\<forall>g. (g, []) \<notin> set (match_nodes ns s))"
proof -
  have "filter (\<lambda>(g, t). t = []) (match_nodes ns s) = [] \<longleftrightarrow> (\<forall>g. (g, []) \<notin> set (match_nodes ns s))"
    by (auto simp: filter_empty_conv)
  then show ?thesis
    by (auto simp: re_fullmatch_def split: list.splits)
qed

lemma re_fullmatch_first:
  "match_nodes ns s = (g, []) # ms \<Longrightarrow> re_fullmatch ns s = Some g"
  by (simp add: re_fullmatch_def)

end
