(* ===== verification/Router.thy ===== *)
theory Router
  imports Common PyText Regex
begin

text \<open>
  \<^verbatim>\<open>levin/components/router.py\<close>: path patterns and their regular expressions, the two kinds
  of route condition, the route table with \<open>add\<close>, \<open>_resolve\<close>, \<open>url\<close>, the management commands
  and the middleware.

  \<open>ext\<close> arguments are the parts of the standard library that the model does not spell out: the
  regular expression engine on patterns outside the fragment of \<open>Regex\<close>, and \<open>str.format\<close>
  on fields that are not plain names. Handlers are values of a type variable.
\<close>

section \<open>Path patterns\<close>

datatype seg = Lit char | Arg name

definition name_char :: "char \<Rightarrow> bool" where
  "name_char c \<longleftrightarrow> is_alnum c \<or> c = CHR ''_'' \<or> c = CHR ''-''"

text \<open>The leftmost, non-overlapping matches of \<open>PATH_ARG\<close> (a name in braces) in a pattern.\<close>

function path_tokens :: "bytes \<Rightarrow> seg list" where
  "path_tokens [] = []"
| "path_tokens (c # cs) =
     (let n = takeWhile name_char cs; rest = dropWhile name_char cs
      in if c = CHR ''{'' \<and> n \<noteq> [] \<and> take 1 rest = ''}''
         then Arg n # path_tokens (tl rest)
         else Lit c # path_tokens cs)"
  by pat_completeness auto
termination
proof (relation "measure length", goal_cases)
  case (2 c cs n rest)
  then show ?case
    using length_dropWhile_le [of name_char cs] by (simp add: less_Suc_eq_le)
qed auto

text \<open>\<open>PATH_REPL\<close>\<close>

fun path_repl :: "seg \<Rightarrow> bytes" where
  "path_repl (Lit c) = [c]"
| "path_repl (Arg n) = ''(?P<'' @ n @ ''>[-_a-zA-Z0-9]+)''"

text \<open>\<open>PATH_ARG.sub(PATH_REPL, pattern)\<close>\<close>

definition path_sub :: "bytes \<Rightarrow> bytes" where
  "path_sub pattern = concat (map path_repl (path_tokens pattern))"

text \<open>The match of \<open>BACK_PATH_ARG\<close> at the front of a string: the name and the rest. The name is as
  long as it can be, then \<open>[^/]+\<close> runs to the last closing parenthesis of the segment; if that leaves
  \<open>[^/]+\<close> empty, the name gives back its last character.\<close>

definition back_arg :: "bytes \<Rightarrow> (name \<times> bytes) option" where
  "back_arg s =
     (if take 4 s \<noteq> group_open then None
      else
        (let n = takeWhile name_char (drop 4 s);
             body = takeWhile (\<lambda>c. c \<noteq> CHR ''/'') (dropWhile name_char (drop 4 s));
             after = dropWhile (\<lambda>c. c \<noteq> CHR ''/'') (dropWhile name_char (drop 4 s));
             tail = rev (takeWhile (\<lambda>c. c \<noteq> CHR '')'') (rev body))
         in if n = [] \<or> CHR '')'' \<notin> set body then None
            else if length tail + 1 < length body then Some (n, tail @ after)
            else if length n \<ge> 2 then Some (butlast n, tail @ after)
            else None))"

lemma back_arg_shorter: "back_arg s = Some (n, t) \<Longrightarrow> length t < length s"
proof -
  assume ba: "back_arg s = Some (n, t)"
  let ?d = "dropWhile name_char (drop 4 s)"
  let ?body = "takeWhile (\<lambda>c. c \<noteq> CHR ''/'') ?d"
  have "length t \<le> length ?body + length (dropWhile (\<lambda>c. c \<noteq> CHR ''/'') ?d)"
    using ba length_takeWhile_le [of "\<lambda>c. c \<noteq> CHR '')''" "rev ?body"]
    by (auto simp: back_arg_def Let_def split: if_splits)
  also have "\<dots> = length ?d"
    by (metis length_append takeWhile_dropWhile_id)
  also have "\<dots> \<le> length (drop 4 s)" by (rule length_dropWhile_le)
  also have "\<dots> < length s"
    using ba by (cases s) (auto simp: back_arg_def group_open_def)
  finally show ?thesis .
qed

text \<open>\<open>BACK_PATH_ARG.sub(BACK_PATH_REPL, text)\<close>\<close>

function back_path :: "bytes \<Rightarrow> bytes" where
  "back_path s =
     (case back_arg s of
        Some (n, t) \<Rightarrow> ''{'' @ n @ ''}'' @ back_path t
      | None \<Rightarrow> (case s of [] \<Rightarrow> [] | c # cs \<Rightarrow> c # back_path cs))"
  by pat_completeness auto
termination
  by (relation "measure length") (auto simp: back_arg_shorter)

declare back_path.simps [simp del]

definition slash_append :: "bytes \<Rightarrow> bytes" where
  "slash_append value = (if ends_with (CHR ''/'') value then value else value @ ''/'') @ ''?''"

section \<open>Conditions\<close>

datatype pytext = TBytes bytes | TStr pystr

datatype pattern = PatText pytext | PatRe compiled

type_synonym meta = "(name \<times> pyval) list"

text \<open>Method, pattern and meta data of a condition; a \<open>RegexpCondition\<close> has its compiled
  expression besides.\<close>

datatype condition =
    EqualsCondition bytes bytes meta
  | RegexpCondition bytes bytes meta compiled

fun c_method :: "condition \<Rightarrow> bytes" where
  "c_method (EqualsCondition m p meta) = m"
| "c_method (RegexpCondition m p meta rx) = m"

fun c_pattern :: "condition \<Rightarrow> bytes" where
  "c_pattern (EqualsCondition m p meta) = p"
| "c_pattern (RegexpCondition m p meta rx) = p"

fun c_meta :: "condition \<Rightarrow> meta" where
  "c_meta (EqualsCondition m p meta) = meta"
| "c_meta (RegexpCondition m p meta rx) = meta"

definition pattern_to_regexp :: "(bytes \<Rightarrow> compiled result) \<Rightarrow> bytes \<Rightarrow> compiled result" where
  "pattern_to_regexp ext pattern = re_compile ext (path_sub pattern)"

text \<open>\<open>RegexpCondition.__init__\<close>, on bytes and on a compiled expression.\<close>

definition regexp_condition ::
  "(bytes \<Rightarrow> compiled result) \<Rightarrow> bytes \<Rightarrow> bytes \<Rightarrow> meta \<Rightarrow> condition result" where
  "regexp_condition ext method pattern meta =
     map_sum id (RegexpCondition method pattern meta) (pattern_to_regexp ext (slash_append pattern))"

definition regexp_condition_re :: "bytes \<Rightarrow> compiled \<Rightarrow> meta \<Rightarrow> condition" where
  "regexp_condition_re method rx meta =
     RegexpCondition method (back_path (cr_pattern rx)) meta rx"

text \<open>What \<open>__call__\<close> makes of a request path: \<open>EqualsCondition\<close> compares with both slashes
  appended; \<open>RegexpCondition\<close> matches in full. The dictionaries are merged left to right.\<close>

fun cond_on_path :: "condition \<Rightarrow> bytes \<Rightarrow> meta option" where
  "cond_on_path (EqualsCondition m p meta) path =
     (if slash_append p = slash_append path
      then Some (dict_merge [(''pattern'', PBytes p)] meta) else None)"
| "cond_on_path (RegexpCondition m p meta rx) path =
     (case cr_fullmatch rx path of
        None \<Rightarrow> None
      | Some groups \<Rightarrow> Some (dict_merge (AList.update ''pattern'' (PBytes p) groups) meta))"

text \<open>A path that is not \<open>bytes\<close> fails in \<open>value.endswith\<close> or in \<open>fullmatch\<close>.\<close>

fun path_exn :: "condition \<Rightarrow> pyval \<Rightarrow> exn" where
  "path_exn (EqualsCondition m p meta) (PStr s) = TypeError"
| "path_exn (EqualsCondition m p meta) v = AttributeError"
| "path_exn (RegexpCondition m p meta rx) v = TypeError"

text \<open>\<open>__call__\<close>: the path is read only when the method agrees. \<open>None\<close> is the result \<open>False\<close>.\<close>

definition cond_call :: "lazy_call \<Rightarrow> condition \<Rightarrow> request \<Rightarrow> meta option result \<times> request" where
  "cond_call call c r =
     (if c_method c \<noteq> rq_method r then (Inr None, r)
      else (case rq_path call r of
              (Inl e, r') \<Rightarrow> (Inl e, r')
            | (Inr (PBytes path), r') \<Rightarrow> (Inr (cond_on_path c path), r')
            | (Inr v, r') \<Rightarrow> (Inl (path_exn c v), r')))"

section \<open>The route table\<close>

record 'h router =
  rt_routes :: "(condition \<times> 'h) list"
  rt_not_found :: 'h

definition new_router :: "'h \<Rightarrow> 'h router" where
  "new_router not_found = \<lparr>rt_routes = [], rt_not_found = not_found\<rparr>"

definition router_clean :: "'h router \<Rightarrow> 'h router" where
  "router_clean rt = rt\<lparr>rt_routes := []\<rparr>"

text \<open>The loop of \<open>_resolve\<close>, over any kind of condition; the request is passed on changed.\<close>

fun resolve_loop ::
  "('c \<Rightarrow> request \<Rightarrow> meta option result \<times> request) \<Rightarrow> ('c \<times> 'h) list \<Rightarrow> request \<Rightarrow>
   ('h \<times> meta) option result \<times> request" where
  "resolve_loop run [] r = (Inr None, r)"
| "resolve_loop run ((c, h) # routes) r =
     (case run c r of
        (Inl e, r') \<Rightarrow> (Inl e, r')
      | (Inr None, r') \<Rightarrow> resolve_loop run routes r'
      | (Inr (Some d), r') \<Rightarrow> if d \<noteq> [] then (Inr (Some (h, d)), r') else resolve_loop run routes r')"

definition router_resolve ::
  "lazy_call \<Rightarrow> 'h router \<Rightarrow> request \<Rightarrow> ('h \<times> meta) result \<times> request" where
  "router_resolve call rt r =
     (case resolve_loop (cond_call call) (rt_routes rt) r of
        (Inl e, r') \<Rightarrow> (Inl e, r')
      | (Inr None, r') \<Rightarrow> (Inr (rt_not_found rt, []), r')
      | (Inr (Some found), r') \<Rightarrow> (Inr found, r'))"

fun to_bytes :: "pytext \<Rightarrow> bytes result" where
  "to_bytes (TBytes b) = Inr b"
| "to_bytes (TStr s) = encode s"

text \<open>\<open>add\<close>: text is encoded, a compiled expression or a pattern with a brace becomes a
  \<open>RegexpCondition\<close>. An exception leaves the table unchanged.\<close>

definition append_route :: "'h router \<Rightarrow> condition \<Rightarrow> 'h \<Rightarrow> 'h router" where
  "append_route rt c h = rt\<lparr>rt_routes := rt_routes rt @ [(c, h)]\<rparr>"

definition router_add ::
  "(bytes \<Rightarrow> compiled result) \<Rightarrow> pytext \<Rightarrow> pattern \<Rightarrow> 'h \<Rightarrow> meta \<Rightarrow> 'h router \<Rightarrow> 'h router result" where
  "router_add ext method pattern handler meta rt =
     (case to_bytes method of
        Inl e \<Rightarrow> Inl e
      | Inr m \<Rightarrow>
          (case pattern of
             PatRe rx \<Rightarrow> Inr (append_route rt (regexp_condition_re m rx meta) handler)
           | PatText t \<Rightarrow>
               (case to_bytes t of
                  Inl e \<Rightarrow> Inl e
                | Inr p \<Rightarrow>
                    if CHR ''{'' \<in> set p
                    then map_sum id (\<lambda>c. append_route rt c handler) (regexp_condition ext m p meta)
                    else Inr (append_route rt (EqualsCondition m p meta) handler))))"

text \<open>The decorators \<open>route\<close>, \<open>get\<close>, \<open>post\<close>, \<open>put\<close> and \<open>delete\<close>, applied to a handler.\<close>

definition router_route ::
  "(bytes \<Rightarrow> compiled result) \<Rightarrow> pattern \<Rightarrow> pytext \<Rightarrow> meta \<Rightarrow> 'h \<Rightarrow> 'h router \<Rightarrow> 'h router result" where
  "router_route ext path method meta handler rt = router_add ext method path handler meta rt"

definition router_get ::
  "(bytes \<Rightarrow> compiled result) \<Rightarrow> pattern \<Rightarrow> meta \<Rightarrow> 'h \<Rightarrow> 'h router \<Rightarrow> 'h router result" where
  "router_get ext path meta handler rt = router_add ext (TStr (lit ''GET'')) path handler meta rt"

definition router_post ::
  "(bytes \<Rightarrow> compiled result) \<Rightarrow> pattern \<Rightarrow> meta \<Rightarrow> 'h \<Rightarrow> 'h router \<Rightarrow> 'h router result" where
  "router_post ext path meta handler rt = router_add ext (TStr (lit ''POST'')) path handler meta rt"

definition router_put ::
  "(bytes \<Rightarrow> compiled result) \<Rightarrow> pattern \<Rightarrow> meta \<Rightarrow> 'h \<Rightarrow> 'h router \<Rightarrow> 'h router result" where
  "router_put ext path meta handler rt = router_add ext (TStr (lit ''PUT'')) path handler meta rt"

definition router_delete ::
  "(bytes \<Rightarrow> compiled result) \<Rightarrow> pattern \<Rightarrow> meta \<Rightarrow> 'h \<Rightarrow> 'h router \<Rightarrow> 'h router result" where
  "router_delete ext path meta handler rt = router_add ext (TStr (lit ''DELETE'')) path handler meta rt"

text \<open>\<open>url\<close>: the pattern of the first route of that name, with the arguments put in.\<close>

definition meta_name :: "meta \<Rightarrow> pyval" where
  "meta_name meta = (case map_of meta ''name'' of None \<Rightarrow> PStr [] | Some v \<Rightarrow> v)"

fun url_loop ::
  "(pystr \<Rightarrow> kwargs \<Rightarrow> pystr result) \<Rightarrow> (condition \<times> 'h) list \<Rightarrow> pystr \<Rightarrow> kwargs \<Rightarrow> pystr result" where
  "url_loop ext [] name kw = Inl ValueError"
| "url_loop ext ((c, h) # routes) name kw =
     (if meta_name (c_meta c) = PStr name
      then (case decode (c_pattern c) of
              Inl e \<Rightarrow> Inl e
            | Inr s \<Rightarrow> py_format ext (remove_char 92 s) kw)
      else url_loop ext routes name kw)"

definition router_url ::
  "(pystr \<Rightarrow> kwargs \<Rightarrow> pystr result) \<Rightarrow> 'h router \<Rightarrow> pystr \<Rightarrow> kwargs \<Rightarrow> pystr result" where
  "router_url ext rt name kw = url_loop ext (rt_routes rt) name kw"

text \<open>The middleware. \<open>rid\<close> is the identity of the router, whose bound methods enter the scope;
  \<open>call_next\<close> runs the rest of the chain.\<close>

definition router_middleware ::
  "lazy_call \<Rightarrow> nat \<Rightarrow> 'h router \<Rightarrow> ('h \<Rightarrow> request \<Rightarrow> 'a result \<times> request) \<Rightarrow> request \<Rightarrow>
   'a result \<times> request" where
  "router_middleware call rid rt call_next r =
     (let r1 = rq_set ''get_route'' (Plain (PObj ''_resolve'' rid)) False
                (rq_set ''get_url'' (Plain (PObj ''url'' rid)) False r)
      in (case router_resolve call rt r1 of
            (Inl e, r2) \<Rightarrow> (Inl e, r2)
          | (Inr (handler, data), r2) \<Rightarrow>
              call_next handler (put_all rq_set (map (\<lambda>(k, v). (k, Plain v)) data) r2)))"

section \<open>Management commands\<close>

text \<open>What \<open>inspect\<close> reports of a handler.\<close>

record 'h inspection =
  in_name :: "'h \<Rightarrow> pystr"
  in_file :: "'h \<Rightarrow> pystr"
  in_line :: "'h \<Rightarrow> nat"
  in_source :: "'h \<Rightarrow> pystr"
  in_doc :: "'h \<Rightarrow> pystr option"

text \<open>One line of \<open>list\<close>.\<close>

definition route_line :: "'h inspection \<Rightarrow> condition \<Rightarrow> 'h \<Rightarrow> pystr result" where
  "route_line ins c h =
     (case decode (c_method c) of
        Inl e \<Rightarrow> Inl e
      | Inr m \<Rightarrow>
          (case decode (c_pattern c) of
             Inl e \<Rightarrow> Inl e
           | Inr p \<Rightarrow> Inr (m @ lit '' '' @ p @ lit '' -> '' @ in_name ins h @ lit '' in '' @
                            in_file ins h @ lit '':'' @ lit (show_nat (in_line ins h)))))"

text \<open>\<open>list(method, code)\<close>: \<open>method\<close> is a \<open>str\<close>, \<open>condition.method\<close> is \<open>bytes\<close>, and the two
  are compared as they are.\<close>

fun list_lines ::
  "'h inspection \<Rightarrow> pystr option \<Rightarrow> bool \<Rightarrow> (condition \<times> 'h) list \<Rightarrow> pystr list result" where
  "list_lines ins method with_code [] = Inr []"
| "list_lines ins method with_code ((c, h) # routes) =
     (case method of
        Some m \<Rightarrow>
          if m \<noteq> [] \<and> TBytes (c_method c) \<noteq> TStr m then list_lines ins method with_code routes
          else (case route_line ins c h of
                  Inl e \<Rightarrow> Inl e
                | Inr l \<Rightarrow> map_sum id (\<lambda>ls. l # (if with_code then [in_source ins h] else []) @ ls)
                             (list_lines ins method with_code routes))
      | None \<Rightarrow>
          (case route_line ins c h of
             Inl e \<Rightarrow> Inl e
           | Inr l \<Rightarrow> map_sum id (\<lambda>ls. l # (if with_code then [in_source ins h] else []) @ ls)
                        (list_lines ins method with_code routes)))"

fun join_str :: "pystr \<Rightarrow> pystr list \<Rightarrow> pystr" where
  "join_str sep [] = []"
| "join_str sep [x] = x"
| "join_str sep (x # y # ys) = x @ sep @ join_str sep (y # ys)"

definition router_list ::
  "'h inspection \<Rightarrow> 'h router \<Rightarrow> pystr option \<Rightarrow> bool \<Rightarrow> pystr result" where
  "router_list ins rt method with_code =
     map_sum id (join_str [10]) (list_lines ins method with_code (rt_routes rt))"

text \<open>\<open>resolve(path, method, code)\<close>\<close>

definition router_resolve_command ::
  "lazy_call \<Rightarrow> 'h inspection \<Rightarrow> 'h router \<Rightarrow> pystr \<Rightarrow> pystr \<Rightarrow> bool \<Rightarrow> pystr result" where
  "router_resolve_command call ins rt path method with_code =
     (case encode method of
        Inl e \<Rightarrow> Inl e
      | Inr m \<Rightarrow>
        (case encode path of
           Inl e \<Rightarrow> Inl e
         | Inr p \<Rightarrow>
           (case router_resolve call rt (new_request p m (Some []) [] [] 0 ''http'') of
              (Inl e, _) \<Rightarrow> Inl e
            | (Inr (h, data), _) \<Rightarrow>
              (case (case map_of data ''pattern'' of
                       None \<Rightarrow> Inr []
                     | Some (PBytes b) \<Rightarrow>
                         map_sum id (\<lambda>s. lit ''with pattern '' @ [34] @ s @ [34]) (decode b)
                     | Some _ \<Rightarrow> Inl AttributeError) of
                 Inl e \<Rightarrow> Inl e
               | Inr pat \<Rightarrow>
                 (let base = lit ''Find handler '' @ [34] @ in_name ins h @ [34] @ lit '' '' @ pat @
                             lit '' in '' @ in_file ins h @ lit '':'' @
                             lit (show_nat (in_line ins h)) @ lit '' ''
                  in Inr (if with_code then base @ [10, 10] @ in_source ins h
                          else (case in_doc ins h of
                                  None \<Rightarrow> base
                                | Some d \<Rightarrow> if d = [] then base else base @ [10, 10] @ d)))))))"

section \<open>Resolution\<close>

text \<open>What a route condition promises to the table: it answers \<open>False\<close> for another method without
  touching the request, and otherwise it reads the path once and decides on it. \<open>run\<close> is the call,
  \<open>test\<close> the decision, \<open>meth\<close> the method.\<close>

fun first_hit ::
  "('c \<Rightarrow> bytes) \<Rightarrow> ('c \<Rightarrow> bytes \<Rightarrow> meta option) \<Rightarrow> ('c \<times> 'h) list \<Rightarrow> bytes \<Rightarrow> bytes \<Rightarrow>
   ('h \<times> meta) option" where
  "first_hit meth test [] m p = None"
| "first_hit meth test ((c, h) # routes) m p =
     (if meth c = m then (case test c p of Some d \<Rightarrow> Some (h, d) | None \<Rightarrow> first_hit meth test routes m p)
      else first_hit meth test routes m p)"

locale route_condition =
  fixes meth :: "'c \<Rightarrow> bytes"
    and test :: "'c \<Rightarrow> bytes \<Rightarrow> meta option"
    and run :: "lazy_call \<Rightarrow> 'c \<Rightarrow> request \<Rightarrow> meta option result \<times> request"
  assumes run_other: "meth c \<noteq> rq_method r \<Longrightarrow> run call c r = (Inr None, r)"
    and run_path: "meth c = rq_method r \<Longrightarrow> rq_path call r = (Inr (PBytes p), r') \<Longrightarrow>
      run call c r = (Inr (test c p), r')"
    and test_nonempty: "test c p = Some d \<Longrightarrow> d \<noteq> []"
begin

text \<open>Once the path is settled, the loop returns the first route whose method and path agree, and
  the request has had its path read exactly when some route has the method.\<close>

lemma loop_settled:
  assumes "rq_path call r = (Inr (PBytes p), r)"
  shows "resolve_loop (run call) routes r =
    (Inr (first_hit meth test routes (rq_method r) p), r)"
proof (induction routes)
  case Nil
  then show ?case by simp
next
  case (Cons ch routes)
  obtain c h where ch: "ch = (c, h)" by (cases ch)
  show ?case
  proof (cases "meth c = rq_method r")
    case True
    then have "run call c r = (Inr (test c p), r)" using assms by (rule run_path)
    with True ch Cons.IH show ?thesis
      by (cases "test c p") (simp_all add: test_nonempty)
  next
    case False
    with ch Cons.IH show ?thesis by (simp add: run_other)
  qed
qed

lemma loop_first:
  assumes path: "rq_path call r = (Inr (PBytes p), r1)" and same: "rq_method r1 = rq_method r"
    and settled: "rq_path call r1 = (Inr (PBytes p), r1)"
  shows "resolve_loop (run call) routes r =
    (Inr (first_hit meth test routes (rq_method r) p),
     if \<exists>(c, h) \<in> set routes. meth c = rq_method r then r1 else r)"
proof (induction routes)
  case Nil
  then show ?case by simp
next
  case (Cons ch routes)
  obtain c h where ch: "ch = (c, h)" by (cases ch)
  show ?case
  proof (cases "meth c = rq_method r")
    case True
    then have "run call c r = (Inr (test c p), r1)" using path by (rule run_path)
    with True ch loop_settled [OF settled, of routes] same show ?thesis
      by (cases "test c p") (simp_all add: test_nonempty)
  next
    case False
    with ch Cons.IH show ?thesis by (simp add: run_other)
  qed
qed

end

lemma dict_merge_nonempty: "d \<noteq> [] \<Longrightarrow> dict_merge d e \<noteq> []"
proof (induction e arbitrary: d)
  case Nil
  then show ?case by simp
next
  case (Cons p e)
  then show ?case by (cases p) simp
qed

lemma cond_on_path_nonempty: "cond_on_path c p = Some d \<Longrightarrow> d \<noteq> []"
proof (cases c)
  case (EqualsCondition m q meta)
  then show "cond_on_path c p = Some d \<Longrightarrow> d \<noteq> []"
    using dict_merge_nonempty [of "[(''pattern'', PBytes q)]" meta] by (auto split: if_splits)
next
  case (RegexpCondition m q meta rx)
  then show "cond_on_path c p = Some d \<Longrightarrow> d \<noteq> []"
    using dict_merge_nonempty [OF update_nonempty, of "''pattern''" "PBytes q" _ meta]
    by (cases "cr_fullmatch rx p") auto
qed

interpretation conditions: route_condition c_method cond_on_path cond_call
proof unfold_locales
  show "c_method c \<noteq> rq_method r \<Longrightarrow> cond_call call c r = (Inr None, r)" for c call r
    by (simp add: cond_call_def)
  show "c_method c = rq_method r \<Longrightarrow> rq_path call r = (Inr (PBytes p), r') \<Longrightarrow>
      cond_call call c r = (Inr (cond_on_path c p), r')" for c call r p r'
    by (simp add: cond_call_def)
  show "cond_on_path c p = Some d \<Longrightarrow> d \<noteq> []" for c p d
    by (rule cond_on_path_nonempty)
qed

text \<open>The specification of the table: the first route for a method and a path.\<close>

definition first_route :: "(condition \<times> 'h) list \<Rightarrow> bytes \<Rightarrow> bytes \<Rightarrow> ('h \<times> meta) option" where
  "first_route routes m p = first_hit c_method cond_on_path routes m p"

definition table_answer :: "'h router \<Rightarrow> bytes \<Rightarrow> bytes \<Rightarrow> 'h \<times> meta" where
  "table_answer rt m p =
     (case first_route (rt_routes rt) m p of None \<Rightarrow> (rt_not_found rt, []) | Some a \<Rightarrow> a)"

lemma rq_path_settled:
  assumes "rq_path call r = (Inr v, r1)" and "rq_raw_path r1 = rq_raw_path r"
  shows "rq_path call' r1 = (Inr v, r1)"
  using rq_get_settles [OF assms(1) [unfolded rq_path_def]] assms(2)
  by (auto simp: rq_path_def rq_get_plain rq_get_missing)

lemma router_resolve_eq:
  assumes "rq_path call r = (Inr (PBytes p), r1)"
    and "rq_method r1 = rq_method r" and "rq_raw_path r1 = rq_raw_path r"
  shows "router_resolve call rt r =
    (Inr (table_answer rt (rq_method r) p),
     if \<exists>(c, h) \<in> set (rt_routes rt). c_method c = rq_method r then r1 else r)"
proof -
  have "rq_path call r1 = (Inr (PBytes p), r1)"
    using assms(1,3) by (rule rq_path_settled)
  from conditions.loop_first [OF assms(1,2) this, of "rt_routes rt"]
  show ?thesis
    by (simp add: router_resolve_def table_answer_def first_route_def split: option.split)
qed

lemma rq_path_raw: "look_scope r ''path'' = None \<Longrightarrow> rq_path call r = (Inr (PBytes (rq_raw_path r)), r)"
  by (simp add: rq_path_def rq_get_missing)

lemma first_route_append:
  "first_route (xs @ ys) m p =
     (case first_route xs m p of None \<Rightarrow> first_route ys m p | Some a \<Rightarrow> Some a)"
  unfolding first_route_def
proof (induction xs)
  case Nil
  then show ?case by simp
next
  case (Cons ch xs)
  obtain c h where "ch = (c, h)" by (cases ch)
  with Cons show ?case by (cases "cond_on_path c p") simp_all
qed

section \<open>Trailing slashes\<close>

definition strip_slash :: "bytes \<Rightarrow> bytes" where
  "strip_slash s = (if ends_with (CHR ''/'') s then butlast s else s)"

lemma slash_append_strip: "slash_append s = strip_slash s @ ''/?''"
proof (cases "ends_with (CHR ''/'') s")
  case True
  then have "butlast s @ ''/'' = s" by (metis append_butlast_last_id ends_with_def)
  with True show ?thesis by (simp add: slash_append_def strip_slash_def)
next
  case False
  then show ?thesis by (simp add: slash_append_def strip_slash_def)
qed

lemma slash_append_eq_iff: "slash_append s = slash_append t \<longleftrightarrow> strip_slash s = strip_slash t"
  by (simp add: slash_append_strip)

lemma strip_slash_snoc [simp]: "strip_slash (s @ ''/'') = s"
  by (simp add: strip_slash_def ends_with_def)

section \<open>From patterns to expressions\<close>

text \<open>The patterns for which the generated expression is inside the modelled fragment: literals that
  have no meaning in an expression or a template, and names that are identifiers.\<close>

fun seg_text :: "seg \<Rightarrow> bytes" where
  "seg_text (Lit c) = [c]"
| "seg_text (Arg n) = ''{'' @ n @ ''}''"

definition pattern_text :: "seg list \<Rightarrow> bytes" where
  "pattern_text ts = concat (map seg_text ts)"

fun seg_ok :: "seg \<Rightarrow> bool" where
  "seg_ok (Lit c) \<longleftrightarrow> \<not> is_meta c \<and> c \<noteq> CHR ''}'' \<and> code c < 128"
| "seg_ok (Arg n) \<longleftrightarrow> is_identifier n"

definition args :: "seg list \<Rightarrow> name list" where
  "args ts = concat (map (\<lambda>t. case t of Lit c \<Rightarrow> [] | Arg n \<Rightarrow> [n]) ts)"

definition pattern_ok :: "seg list \<Rightarrow> bool" where
  "pattern_ok ts \<longleftrightarrow> list_all seg_ok ts \<and> distinct (args ts)"

lemma args_simps [simp]: "args [] = []" "args (Lit c # ts) = args ts" "args (Arg n # ts) = n # args ts"
    "args (ts @ us) = args ts @ args us"
  by (simp_all add: args_def)

lemma pattern_text_simps [simp]: "pattern_text [] = []"
    "pattern_text (t # ts) = seg_text t @ pattern_text ts"
    "pattern_text (ts @ us) = pattern_text ts @ pattern_text us"
  by (simp_all add: pattern_text_def)

lemma identifier_chars:
  assumes "is_identifier n"
  shows "n \<noteq> []" "\<forall>c \<in> set n. name_char c" "\<forall>c \<in> set n. c \<noteq> CHR ''>''" "\<forall>c \<in> set n. c \<noteq> CHR ''}''"
    "\<forall>c \<in> set n. code c < 128" "\<forall>c \<in> set n. c \<noteq> CHR 0x5C"
proof -
  have nc: "\<forall>c \<in> set n. is_alnum c \<or> c = CHR ''_''" and "n \<noteq> []"
    using assms by (auto simp: is_identifier_def)
  then show "n \<noteq> []" "\<forall>c \<in> set n. name_char c" by (auto simp: name_char_def)
  show "\<forall>c \<in> set n. c \<noteq> CHR ''>''" "\<forall>c \<in> set n. c \<noteq> CHR ''}''" "\<forall>c \<in> set n. code c < 128"
    "\<forall>c \<in> set n. c \<noteq> CHR 0x5C"
    using nc by (auto simp: is_alnum_def)
qed

lemma takeWhile_stop:
  "\<forall>c \<in> set n. P c \<Longrightarrow> \<not> P d \<Longrightarrow> takeWhile P (n @ d # rest) = n"
  "\<forall>c \<in> set n. P c \<Longrightarrow> \<not> P d \<Longrightarrow> dropWhile P (n @ d # rest) = d # rest"
  by (induction n) auto

lemma path_tokens_text:
  assumes "list_all seg_ok ts"
  shows "path_tokens (pattern_text ts @ rest) = ts @ path_tokens rest"
  using assms
proof (induction ts)
  case Nil
  then show ?case by simp
next
  case (Cons t ts)
  show ?case
  proof (cases t)
    case (Lit c)
    with Cons have "c \<noteq> CHR ''{''" by (auto simp: is_meta_def)
    with Lit Cons show ?thesis by (simp add: Let_def)
  next
    case (Arg n)
    with Cons.prems have n: "n \<noteq> []" "\<forall>c \<in> set n. name_char c"
      by (auto dest: identifier_chars)
    have "\<not> name_char (CHR ''}'')" by (simp add: name_char_def is_alnum_def)
    with Arg Cons n show ?thesis
      by (simp add: Let_def takeWhile_stop)
  qed
qed

text \<open>A trailing slash literal is dropped, since the expression ends in an optional one.\<close>

definition strip_seg :: "seg list \<Rightarrow> seg list" where
  "strip_seg ts = (if ts \<noteq> [] \<and> last ts = Lit (CHR ''/'') then butlast ts else ts)"

lemma strip_seg_ok: "list_all seg_ok ts \<Longrightarrow> list_all seg_ok (strip_seg ts)"
  by (cases ts rule: rev_cases) (auto simp: strip_seg_def)

lemma args_strip_seg [simp]: "args (strip_seg ts) = args ts"
  by (cases ts rule: rev_cases) (auto simp: strip_seg_def)

lemma strip_slash_text:
  assumes "list_all seg_ok ts"
  shows "strip_slash (pattern_text ts) = pattern_text (strip_seg ts)"
proof (cases ts rule: rev_cases)
  case Nil
  then show ?thesis by (simp add: strip_seg_def strip_slash_def ends_with_def)
next
  case (snoc us t)
  then show ?thesis
    by (cases t) (auto simp: strip_seg_def strip_slash_def ends_with_def butlast_append)
qed

lemma path_sub_text:
  assumes "list_all seg_ok ts"
  shows "path_sub (slash_append (pattern_text ts)) = concat (map path_repl (strip_seg ts)) @ ''/?''"
proof -
  have "path_tokens ''/?'' = [Lit (CHR ''/''), Lit (CHR ''?'')]" by simp
  then show ?thesis
    using path_tokens_text [OF strip_seg_ok [OF assms], of "''/?''"]
    by (simp add: path_sub_def slash_append_strip strip_slash_text [OF assms])
qed

text \<open>The class \<open>[-_a-zA-Z0-9]\<close> of a path argument.\<close>

definition NAME_CLASS :: atom where
  "NAME_CLASS = AClass [(CHR ''-'', CHR ''-''), (CHR ''_'', CHR ''_''), (CHR ''a'', CHR ''z''),
     (CHR ''A'', CHR ''Z''), (CHR ''0'', CHR ''9'')]"

fun seg_node :: "seg \<Rightarrow> node" where
  "seg_node (Lit c) = Item (AChar c) Once"
| "seg_node (Arg n) =
     Group n [(NAME_CLASS, Plus)]"

definition pattern_nodes :: "seg list \<Rightarrow> node list" where
  "pattern_nodes ts = map seg_node ts @ [Item (AChar (CHR ''/'')) Opt]"

definition plain_start :: "bytes \<Rightarrow> bool" where
  "plain_start s \<longleftrightarrow> s = [] \<or> (hd s \<noteq> CHR ''{'' \<and> quant_of (hd s) = None)"

lemma plain_start_repl: "list_all seg_ok ts \<Longrightarrow> plain_start (concat (map path_repl ts) @ ''/?'')"
proof (cases ts)
  case (Cons t us)
  then show "list_all seg_ok ts \<Longrightarrow> ?thesis"
    by (cases t) (auto simp: plain_start_def is_meta_def)
qed (simp add: plain_start_def)

lemma parse_item_lit:
  assumes "\<not> is_meta c" and "plain_start rest"
  shows "parse_item (c # rest) = Some ((AChar c, Once), rest)"
proof -
  have "parse_atom (c # rest) = Some (AChar c, rest)"
    using assms(1) by (auto simp: is_meta_def)
  then show ?thesis
    using assms(2) by (cases rest) (auto simp: parse_item_def plain_start_def)
qed

lemma parse_nodes_lit:
  assumes "\<not> is_meta c" and "c \<noteq> CHR '')''" and "plain_start rest"
  shows "parse_nodes None (c # rest) = map_option ((#) (Item (AChar c) Once)) (parse_nodes None rest)"
  using assms parse_item_lit [OF assms(1,3)] by (simp add: parse_nodes.simps(2) is_meta_def)

lemma parse_item_names:
  "parse_item (''[-_a-zA-Z0-9]+)'' @ rest) =
     Some ((NAME_CLASS, Plus), CHR '')'' # rest)"
  by (simp add: parse_item_def Let_def NAME_CLASS_def)

lemma parse_nodes_arg:
  assumes n: "is_identifier n" and rest: "plain_start rest"
  shows "parse_nodes None (path_repl (Arg n) @ rest) =
    map_option ((#) (seg_node (Arg n))) (parse_nodes None rest)"
proof -
  let ?body = "''[-_a-zA-Z0-9]+)'' @ rest"
  have gt: "takeWhile (\<lambda>d. d \<noteq> CHR ''>'') (n @ CHR ''>'' # ?body) = n"
    "dropWhile (\<lambda>d. d \<noteq> CHR ''>'') (n @ CHR ''>'' # ?body) = CHR ''>'' # ?body"
    using identifier_chars(3) [OF n] by (auto simp: takeWhile_stop)
  have "parse_nodes None (path_repl (Arg n) @ rest) =
      parse_nodes None (CHR ''('' # (''?P<'' @ n @ CHR ''>'' # ?body))" by simp
  also have "\<dots> = parse_nodes (Some (n, [])) ?body"
    using gt n by (subst parse_nodes.simps(2)) (simp add: Let_def group_open_def)
  also have "\<dots> = parse_nodes (Some (n, [(NAME_CLASS, Plus)])) (CHR '')'' # rest)"
    using parse_item_names [of rest] by (simp add: parse_nodes.simps(2))
  also have "\<dots> = map_option ((#) (seg_node (Arg n))) (parse_nodes None rest)"
    using rest by (auto simp: parse_nodes.simps(2) plain_start_def)
  finally show ?thesis .
qed

lemma parse_nodes_pattern:
  "list_all seg_ok ts \<Longrightarrow>
   parse_nodes None (concat (map path_repl ts) @ ''/?'') = Some (pattern_nodes ts)"
proof (induction ts)
  case Nil
  then show ?case by (simp add: parse_nodes.simps(2) parse_item_def is_meta_def pattern_nodes_def)
next
  case (Cons t ts)
  let ?rest = "concat (map path_repl ts) @ ''/?''"
  from Cons have ts: "list_all seg_ok ts" and t: "seg_ok t" by simp_all
  have plain: "plain_start ?rest" using ts by (rule plain_start_repl)
  show ?case
  proof (cases t)
    case (Lit c)
    with t have "\<not> is_meta c" "c \<noteq> CHR '')''" by (auto simp: is_meta_def)
    from parse_nodes_lit [OF this plain] Lit Cons.IH [OF ts] show ?thesis
      by (simp add: pattern_nodes_def)
  next
    case (Arg n)
    with t have "is_identifier n" by simp
    from parse_nodes_arg [OF this plain] Arg Cons.IH [OF ts] show ?thesis
      by (simp add: pattern_nodes_def)
  qed
qed

lemma group_names_nodes: "group_names (pattern_nodes ts) = args ts"
proof -
  have "(case seg_node t of Item a q \<Rightarrow> [] | Group g items \<Rightarrow> [g]) =
      (case t of Lit c \<Rightarrow> [] | Arg n \<Rightarrow> [n])" for t
    by (cases t) simp_all
  then show ?thesis by (simp add: group_names_def pattern_nodes_def args_def comp_def)
qed

definition compiled_path :: "seg list \<Rightarrow> compiled" where
  "compiled_path ts =
     \<lparr>cr_pattern = concat (map path_repl (strip_seg ts)) @ ''/?'',
      cr_fullmatch = (\<lambda>s. map_option bytes_groups (re_fullmatch (pattern_nodes (strip_seg ts)) s))\<rparr>"

lemma pattern_to_regexp_text:
  assumes "pattern_ok ts"
  shows "pattern_to_regexp ext (slash_append (pattern_text ts)) = Inr (compiled_path ts)"
proof -
  have ok: "list_all seg_ok ts" "distinct (args ts)" using assms by (simp_all add: pattern_ok_def)
  show ?thesis
    using parse_nodes_pattern [OF strip_seg_ok [OF ok(1)]] ok
    by (simp add: pattern_to_regexp_def re_compile_def path_sub_text parse_re_def
        group_names_nodes compiled_path_def)
qed

section \<open>What a path pattern accepts\<close>

text \<open>The path that a pattern makes of a list of argument values, and the values that fit.\<close>

fun fill :: "seg list \<Rightarrow> bytes list \<Rightarrow> bytes" where
  "fill [] vs = []"
| "fill (Lit c # ts) vs = c # fill ts vs"
| "fill (Arg n # ts) [] = []"
| "fill (Arg n # ts) (v # vs) = v @ fill ts vs"

definition arg_value :: "bytes \<Rightarrow> bool" where
  "arg_value v \<longleftrightarrow> v \<noteq> [] \<and> list_all name_char v"

lemma code_eq_iff: "code c = code d \<longleftrightarrow> c = d"
  by simp

lemma name_class:
  "atom_matches (NAME_CLASS) c = name_char c"
proof -
  have "code c = 45 \<longleftrightarrow> c = CHR ''-''" "code c = 95 \<longleftrightarrow> c = CHR ''_''"
    using code_eq_iff [of c "CHR ''-''"] code_eq_iff [of c "CHR ''_''"] by simp_all
  then show ?thesis by (auto simp: NAME_CLASS_def name_char_def is_alnum_def)
qed

lemma arg_rests:
  "items_rests [(NAME_CLASS, Plus)] s =
   (case s of [] \<Rightarrow> [] | c # cs \<Rightarrow> if name_char c then star_rests name_char cs else [])"
proof -
  have "atom_matches NAME_CLASS = name_char" by (rule ext) (rule name_class)
  moreover have "concat (map (items_rests []) xs) = xs" for xs by (induction xs) simp_all
  ultimately show ?thesis by (simp split: list.split)
qed

lemma arg_rests_iff:
  "r \<in> set (items_rests [(NAME_CLASS, Plus)] s) \<longleftrightarrow> (\<exists>v. arg_value v \<and> s = v @ r)"
  (is "?L \<longleftrightarrow> ?R")
proof
  assume ?L
  then obtain c cs where s: "s = c # cs" and c: "name_char c" and r: "r \<in> set (star_rests name_char cs)"
    unfolding arg_rests by (auto split: list.splits if_splits)
  from star_rests_suffix [OF r] obtain w where "cs = w @ r" "\<forall>d \<in> set w. name_char d" by blast
  with s c have "arg_value (c # w) \<and> s = (c # w) @ r" by (simp add: arg_value_def list_all_iff)
  then show ?R by blast
next
  assume ?R
  then obtain v where v: "arg_value v" and s: "s = v @ r" by blast
  then obtain c w where "v = c # w" by (cases v) (auto simp: arg_value_def)
  with v s star_rests_complete [of w name_char r] show ?L
    unfolding arg_rests by (simp add: arg_value_def list_all_iff)
qed

lemma match_nodes_iff:
  "(g, r) \<in> set (match_nodes (map seg_node ts @ ns) s) \<longleftrightarrow>
     (\<exists>vs g' s'. length vs = length (args ts) \<and> list_all arg_value vs \<and> s = fill ts vs @ s' \<and>
        g = zip (args ts) vs @ g' \<and> (g', r) \<in> set (match_nodes ns s'))"
proof (induction ts arbitrary: g s)
  case Nil
  then show ?case by simp
next
  case (Cons t ts)
  show ?case
  proof (cases t)
    case (Lit c)
    then show ?thesis by (cases s) (auto simp: Cons.IH)
  next
    case (Arg n)
    let ?items = "[(NAME_CLASS, Plus)]"
    have "(g, r) \<in> set (match_nodes (map seg_node (t # ts) @ ns) s) \<longleftrightarrow>
        (\<exists>q g1. q \<in> set (items_rests ?items s) \<and> g = (n, take (length s - length q) s) # g1 \<and>
           (g1, r) \<in> set (match_nodes (map seg_node ts @ ns) q))"
      using Arg by (auto simp del: items_rests.simps)
    also have "\<dots> \<longleftrightarrow> (\<exists>v q g1. arg_value v \<and> s = v @ q \<and> g = (n, v) # g1 \<and>
           (g1, r) \<in> set (match_nodes (map seg_node ts @ ns) q))"
      unfolding arg_rests_iff by auto
    also have "\<dots> \<longleftrightarrow> (\<exists>v vs g' s'. arg_value v \<and> length vs = length (args ts) \<and>
        list_all arg_value vs \<and> s = v @ fill ts vs @ s' \<and> g = (n, v) # zip (args ts) vs @ g' \<and>
        (g', r) \<in> set (match_nodes ns s'))"
      unfolding Cons.IH by blast
    also have "\<dots> \<longleftrightarrow> (\<exists>vs g' s'. length vs = length (args (t # ts)) \<and> list_all arg_value vs \<and>
        s = fill (t # ts) vs @ s' \<and> g = zip (args (t # ts)) vs @ g' \<and> (g', r) \<in> set (match_nodes ns s'))"
      (is "_ \<longleftrightarrow> ?R")
    proof
      assume "\<exists>v vs g' s'. arg_value v \<and> length vs = length (args ts) \<and> list_all arg_value vs \<and>
        s = v @ fill ts vs @ s' \<and> g = (n, v) # zip (args ts) vs @ g' \<and> (g', r) \<in> set (match_nodes ns s')"
      then obtain v vs g' s' where "arg_value v" "length vs = length (args ts)" "list_all arg_value vs"
        "s = v @ fill ts vs @ s'" "g = (n, v) # zip (args ts) vs @ g'" "(g', r) \<in> set (match_nodes ns s')"
        by blast
      then show ?R using Arg by (intro exI [of _ "v # vs"] exI [of _ g'] exI [of _ s']) simp
    next
      assume ?R
      then obtain vs g' s' where vs: "length vs = length (args (t # ts))" "list_all arg_value vs"
        "s = fill (t # ts) vs @ s'" "g = zip (args (t # ts)) vs @ g'" "(g', r) \<in> set (match_nodes ns s')"
        by blast
      moreover from vs(1) Arg obtain v ws where "vs = v # ws" by (cases vs) auto
      ultimately show "\<exists>v vs g' s'. arg_value v \<and> length vs = length (args ts) \<and>
        list_all arg_value vs \<and> s = v @ fill ts vs @ s' \<and> g = (n, v) # zip (args ts) vs @ g' \<and>
        (g', r) \<in> set (match_nodes ns s')"
        using Arg by auto
    qed
    finally show ?thesis .
  qed
qed

lemma fullmatch_pattern_Some:
  assumes "re_fullmatch (pattern_nodes ts) s = Some g"
  shows "\<exists>vs t. length vs = length (args ts) \<and> list_all arg_value vs \<and> t \<in> {[], ''/''} \<and>
    s = fill ts vs @ t \<and> g = zip (args ts) vs"
proof -
  from re_fullmatch_Some [OF assms] obtain vs g' t where
    vs: "length vs = length (args ts)" "list_all arg_value vs" "s = fill ts vs @ t"
    and g: "g = zip (args ts) vs @ g'"
    and rest: "(g', []) \<in> set (match_nodes [Item (AChar (CHR ''/'')) Opt] t)"
    unfolding pattern_nodes_def match_nodes_iff by blast
  from rest have "t \<in> {[], ''/''} \<and> g' = []" by (auto split: list.splits if_splits)
  with vs g show ?thesis by blast
qed

lemma fullmatch_pattern_None:
  assumes "re_fullmatch (pattern_nodes ts) s = None"
    and "length vs = length (args ts)" "list_all arg_value vs" "t \<in> {[], ''/''}"
  shows "s \<noteq> fill ts vs @ t"
proof
  assume s: "s = fill ts vs @ t"
  have "([], []) \<in> set (match_nodes [Item (AChar (CHR ''/'')) Opt] t)"
    using assms(4) by auto
  then have "(zip (args ts) vs @ [], []) \<in> set (match_nodes (pattern_nodes ts) s)"
    unfolding pattern_nodes_def match_nodes_iff using assms(2,3) s by blast
  with assms(1) show False by (simp add: re_fullmatch_None_iff)
qed

subsection \<open>The greedy match\<close>

text \<open>Patterns whose arguments are delimited: the character after an argument cannot belong to it.
  Then the first match that backtracking tries is the only one.\<close>

fun separated :: "seg list \<Rightarrow> bool" where
  "separated [] = True"
| "separated (Lit c # ts) = separated ts"
| "separated [Arg n] = True"
| "separated (Arg n # Lit c # ts) \<longleftrightarrow> \<not> name_char c \<and> separated ts"
| "separated (Arg n # Arg k # ts) = False"

lemma arg_rests_greedy:
  assumes "arg_value v" and "r = [] \<or> \<not> name_char (hd r)"
  shows "\<exists>rs. items_rests [(NAME_CLASS, Plus)] (v @ r) = r # rs"
proof -
  from assms(1) obtain c w where v: "v = c # w" and w: "\<forall>d \<in> set w. name_char d" and "name_char c"
    by (cases v) (auto simp: arg_value_def list_all_iff)
  with star_rests_greedy [OF w assms(2)] show ?thesis
    by (simp add: arg_rests del: items_rests.simps)
qed

lemma match_first:
  assumes "separated ts" and "length vs = length (args ts)" and "list_all arg_value vs"
    and "s = [] \<or> \<not> name_char (hd s)" and "\<exists>ms. match_nodes ns s = (g, r) # ms"
  shows "\<exists>ms. match_nodes (map seg_node ts @ ns) (fill ts vs @ s) = (zip (args ts) vs @ g, r) # ms"
  using assms(1-3)
proof (induction ts arbitrary: vs rule: separated.induct)
  case 1
  with assms(5) show ?case by simp
next
  case (2 c ts)
  then show ?case by simp
next
  case (3 n)
  then obtain v where v: "vs = [v]" and av: "arg_value v" by (cases vs) auto
  with arg_rests_greedy [OF av assms(4)] assms(5) show ?case by auto
next
  case (4 n c ts)
  then obtain v ws where v: "vs = v # ws" and av: "arg_value v" and ws: "length ws = length (args ts)"
      "list_all arg_value ws" by (cases vs) auto
  let ?r = "c # fill ts ws @ s"
  obtain ms where ms: "match_nodes (map seg_node ts @ ns) (fill ts ws @ s) = (zip (args ts) ws @ g, r) # ms"
    using "4.IH" [OF _ ws] "4.prems"(1) by auto
  obtain rs where "items_rests [(NAME_CLASS, Plus)] (v @ ?r) = ?r # rs"
    using arg_rests_greedy [OF av, of ?r] "4.prems"(1) by auto
  with v ms show ?case by simp
next
  case (5 n k ts)
  then show ?case by simp
qed

lemma fullmatch_fill:
  assumes "separated ts" and "length vs = length (args ts)" and "list_all arg_value vs"
    and "t \<in> {[], ''/''}"
  shows "re_fullmatch (pattern_nodes ts) (fill ts vs @ t) = Some (zip (args ts) vs)"
proof -
  have "t = [] \<or> \<not> name_char (hd t)"
    using assms(4) by (auto simp: name_char_def is_alnum_def)
  moreover have "\<exists>ms. match_nodes [Item (AChar (CHR ''/'')) Opt] t = ([], []) # ms"
    using assms(4) by auto
  ultimately obtain ms where
    "match_nodes (map seg_node ts @ [Item (AChar (CHR ''/'')) Opt]) (fill ts vs @ t) =
       (zip (args ts) vs @ [], []) # ms"
    using match_first [OF assms(1-3)] by blast
  then show ?thesis using re_fullmatch_first by (simp add: pattern_nodes_def)
qed

lemma separated_butlast: "separated (us @ [Lit c]) \<Longrightarrow> separated us"
proof (induction us rule: separated.induct)
  case (4 n d ts)
  then show ?case by (cases ts) simp_all
qed simp_all

lemma separated_strip_seg: "separated ts \<Longrightarrow> separated (strip_seg ts)"
  by (cases ts rule: rev_cases) (auto simp: strip_seg_def intro: separated_butlast)

lemma fill_snoc: "length vs = length (args us) \<Longrightarrow> fill (us @ [Lit c]) vs = fill us vs @ [c]"
proof (induction us arbitrary: vs)
  case Nil
  then show ?case by simp
next
  case (Cons t us)
  show ?case
  proof (cases t)
    case (Lit d)
    with Cons show ?thesis by simp
  next
    case (Arg n)
    with Cons show ?thesis by (cases vs) simp_all
  qed
qed

lemma fill_strip_seg:
  "length vs = length (args ts) \<Longrightarrow>
   fill ts vs = fill (strip_seg ts) vs @ (if strip_seg ts = ts then [] else ''/'')"
  by (cases ts rule: rev_cases) (auto simp: strip_seg_def fill_snoc)

text \<open>The condition that \<open>add\<close> makes of a pattern with arguments, and what it answers.\<close>

definition path_condition :: "bytes \<Rightarrow> seg list \<Rightarrow> meta \<Rightarrow> condition" where
  "path_condition m ts meta = RegexpCondition m (pattern_text ts) meta (compiled_path ts)"

definition path_data :: "seg list \<Rightarrow> bytes list \<Rightarrow> meta \<Rightarrow> meta" where
  "path_data ts vs meta =
     dict_merge (AList.update ''pattern'' (PBytes (pattern_text ts)) (zip (args ts) (map PBytes vs))) meta"

lemma bytes_groups_zip: "bytes_groups (zip ns vs) = zip ns (map PBytes vs)"
  by (simp add: bytes_groups_def zip_map2)

lemma regexp_condition_text:
  "pattern_ok ts \<Longrightarrow> regexp_condition ext m (pattern_text ts) meta = Inr (path_condition m ts meta)"
  by (simp add: regexp_condition_def pattern_to_regexp_text path_condition_def)

lemma path_condition_fill:
  assumes "separated ts" and "length vs = length (args ts)" and "list_all arg_value vs"
    and "t \<in> {[], ''/''}"
  shows "cond_on_path (path_condition m ts meta) (fill (strip_seg ts) vs @ t) =
    Some (path_data ts vs meta)"
  using fullmatch_fill [OF separated_strip_seg [OF assms(1)], of vs t] assms(2-4)
  by (simp add: path_condition_def compiled_path_def path_data_def bytes_groups_zip)

lemma path_condition_sound:
  assumes "cond_on_path (path_condition m ts meta) p = Some d"
  shows "\<exists>vs t. length vs = length (args ts) \<and> list_all arg_value vs \<and> t \<in> {[], ''/''} \<and>
    p = fill (strip_seg ts) vs @ t \<and> d = path_data ts vs meta"
proof -
  from assms obtain g where g: "re_fullmatch (pattern_nodes (strip_seg ts)) p = Some g"
    and d: "d = dict_merge (AList.update ''pattern'' (PBytes (pattern_text ts)) (bytes_groups g)) meta"
    by (auto simp: path_condition_def compiled_path_def split: option.splits)
  from fullmatch_pattern_Some [OF g] d show ?thesis
    by (auto simp: path_data_def bytes_groups_zip)
qed

lemma brace_in_text: "args ts \<noteq> [] \<Longrightarrow> CHR ''{'' \<in> set (pattern_text ts)"
proof (induction ts)
  case (Cons t ts)
  then show ?case by (cases t) auto
qed simp

section \<open>Building a path\<close>

lemma pattern_text_ascii: "list_all seg_ok ts \<Longrightarrow> ascii (pattern_text ts)"
proof (induction ts)
  case (Cons t ts)
  then show ?case
    by (cases t) (auto simp: ascii_def dest: identifier_chars(5))
qed simp

lemma lit_chars: "c \<in> set (lit s) \<longleftrightarrow> (\<exists>d \<in> set s. c = code d)"
  by (auto simp: lit_def)

lemma pattern_text_no_backslash:
  "list_all seg_ok ts \<Longrightarrow> \<forall>c \<in> set (pattern_text ts). c \<noteq> CHR 0x5C"
proof (induction ts)
  case (Cons t ts)
  then show ?case
    by (cases t) (auto simp: is_meta_def dest: identifier_chars(6))
qed simp

lemma remove_backslash:
  assumes "list_all seg_ok ts"
  shows "remove_char 92 (lit (pattern_text ts)) = lit (pattern_text ts)"
proof -
  have "c \<noteq> 92" if "c \<in> set (lit (pattern_text ts))" for c
  proof -
    from that obtain d where "d \<in> set (pattern_text ts)" "c = code d" by (auto simp: lit_chars)
    with pattern_text_no_backslash [OF assms] code_eq_iff [of d "CHR 0x5C"] show ?thesis by auto
  qed
  then show ?thesis by (simp add: remove_char_def)
qed

lemma lit_takeWhile_brace:
  assumes "is_identifier n"
  shows "takeWhile (\<lambda>d. d \<noteq> 125) (lit n @ 125 # s) = lit n"
    and "dropWhile (\<lambda>d. d \<noteq> 125) (lit n @ 125 # s) = 125 # s"
    and "plain_field (lit n)" and "\<not> list_all digit (lit n)" and "take 1 (lit n @ 125 # s) \<noteq> [123]"
proof -
  have nc: "(48 \<le> c \<and> c \<le> 57) \<or> (65 \<le> c \<and> c \<le> 90) \<or> (97 \<le> c \<and> c \<le> 122) \<or> c = 95"
    if "c \<in> set (lit n)" for c
  proof -
    from that obtain d where d: "d \<in> set n" "c = code d" by (auto simp: lit_chars)
    with assms have "is_alnum d \<or> d = CHR ''_''" by (auto simp: is_identifier_def)
    with d(2) show ?thesis by (auto simp: is_alnum_def)
  qed
  have stop: "\<forall>c \<in> set (lit n). c \<noteq> 125" "\<forall>c \<in> set (lit n). c \<noteq> 123"
    using nc by fastforce+
  then show "takeWhile (\<lambda>d. d \<noteq> 125) (lit n @ 125 # s) = lit n"
    "dropWhile (\<lambda>d. d \<noteq> 125) (lit n @ 125 # s) = 125 # s"
    by (induction n) simp_all
  show "plain_field (lit n)" using nc by (fastforce simp: plain_field_def)
  have "n \<noteq> []" "\<not> digit (code (hd n))" using assms by (auto simp: is_identifier_def digit_def)
  then show "\<not> list_all digit (lit n)" by (cases n) auto
  show "take 1 (lit n @ 125 # s) \<noteq> [123]"
    using stop(2) \<open>n \<noteq> []\<close> by (cases n) auto
qed

lemma py_format_text:
  assumes "list_all seg_ok ts" and "length vs = length (args ts)"
    and "\<forall>(n, v) \<in> set (zip (args ts) vs). map_of kw (lit n) = Some (lit v)"
  shows "py_format ext (lit (pattern_text ts)) kw = Inr (lit (fill ts vs))"
  using assms
proof (induction ts arbitrary: vs)
  case Nil
  then show ?case by simp
next
  case (Cons t ts)
  show ?case
  proof (cases t)
    case (Lit c)
    with Cons.prems(1) have "code c \<noteq> 123" "code c \<noteq> 125"
      using code_eq_iff [of c "CHR ''{''"] code_eq_iff [of c "CHR ''}''"] by (auto simp: is_meta_def)
    with Lit Cons show ?thesis by simp
  next
    case (Arg n)
    with Cons.prems obtain v ws where vs: "vs = v # ws" by (cases vs) auto
    from Arg Cons.prems(1) have n: "is_identifier n" by simp
    have "py_format ext (lit (pattern_text ts)) kw = Inr (lit (fill ts ws))"
      using Cons.prems Arg vs by (intro Cons.IH) auto
    moreover have "map_of kw (lit n) = Some (lit v)" using Cons.prems(3) Arg vs by simp
    ultimately show ?thesis
      using lit_takeWhile_brace [OF n] Arg vs by (simp add: Let_def)
  qed
qed

lemma url_loop_append:
  "\<forall>(c, h) \<in> set xs. meta_name (c_meta c) \<noteq> PStr name \<Longrightarrow>
   url_loop ext (xs @ ys) name kw = url_loop ext ys name kw"
  by (induction xs) auto

definition named_args :: "seg list \<Rightarrow> bytes list \<Rightarrow> kwargs" where
  "named_args ts vs = zip (map lit (args ts)) (map lit vs)"

lemma named_args_lookup:
  assumes "distinct (args ts)" and "length vs = length (args ts)"
  shows "\<forall>(n, v) \<in> set (zip (args ts) vs). map_of (named_args ts vs) (lit n) = Some (lit v)"
proof (rule ballI, clarify)
  fix n v
  assume "(n, v) \<in> set (zip (args ts) vs)"
  then obtain i where "i < length (args ts)" "n = args ts ! i" "v = vs ! i"
    by (auto simp: set_zip)
  then have "(lit n, lit v) \<in> set (named_args ts vs)"
    using assms(2) by (force simp: named_args_def set_zip)
  moreover have "distinct (map fst (named_args ts vs))"
    using assms by (simp add: named_args_def distinct_map inj_on_def)
  ultimately show "map_of (named_args ts vs) (lit n) = Some (lit v)" by simp
qed

lemma path_url:
  assumes "pattern_ok ts" and "length vs = length (args ts)" and "c_pattern c = pattern_text ts"
    and "meta_name (c_meta c) = PStr name"
    and "\<forall>(c', h') \<in> set pre. meta_name (c_meta c') \<noteq> PStr name"
  shows "url_loop ext (pre @ (c, h) # post) name (named_args ts vs) = Inr (lit (fill ts vs))"
proof -
  have ok: "list_all seg_ok ts" "distinct (args ts)" using assms(1) by (simp_all add: pattern_ok_def)
  from py_format_text [OF ok(1) assms(2) named_args_lookup [OF ok(2) assms(2)]]
  show ?thesis
    using assms(3,4) pattern_text_ascii [OF ok(1)]
    by (simp add: url_loop_append [OF assms(5)] remove_backslash [OF ok(1)])
qed

lemma fill_ascii:
  assumes "list_all seg_ok ts" and "list_all arg_value vs" and "length vs = length (args ts)"
  shows "ascii (fill ts vs)"
  using assms
proof (induction ts arbitrary: vs)
  case Nil
  then show ?case by simp
next
  case (Cons t ts)
  show ?case
  proof (cases t)
    case (Lit c)
    with Cons show ?thesis by simp
  next
    case (Arg n)
    with Cons.prems obtain v ws where vs: "vs = v # ws" by (cases vs) auto
    with Cons.prems have "\<forall>c \<in> set v. name_char c" by (simp add: arg_value_def list_all_iff)
    then have "ascii v" by (auto simp: ascii_def name_char_def is_alnum_def)
    with Cons Arg vs show ?thesis by simp
  qed
qed


section \<open>Properties\<close>

lemma first_hit_find:
  "first_hit meth test routes m p =
     (case find (\<lambda>(c, h). meth c = m \<and> test c p \<noteq> None) routes of
        None \<Rightarrow> None | Some (c, h) \<Rightarrow> Some (h, the (test c p)))"
  by (induction meth test routes m p rule: first_hit.induct) (auto split: option.split)

text \<open>C9: Resolving a request returns the handler of the first route of its method whose condition
  accepts its path, with the data that the condition makes of the path, and the \<open>not found\<close> handler
  without data if there is none. Reading the path is the only thing done to the request, and only if
  some route has its method.\<close>

theorem resolve_first_route:
  assumes "rq_path call r = (Inr (PBytes p), r1)"
    and "rq_method r1 = rq_method r" and "rq_raw_path r1 = rq_raw_path r"
  shows "router_resolve call rt r =
    (Inr (case find (\<lambda>(c, h). c_method c = rq_method r \<and> cond_on_path c p \<noteq> None) (rt_routes rt) of
            None \<Rightarrow> (rt_not_found rt, []) | Some (c, h) \<Rightarrow> (h, the (cond_on_path c p))),
     if \<exists>(c, h) \<in> set (rt_routes rt). c_method c = rq_method r then r1 else r)"
  using router_resolve_eq [OF assms, of rt]
  by (simp add: table_answer_def first_route_def first_hit_find split: option.split)

definition two_routes :: "nat router" where
  "two_routes =
     \<lparr>rt_routes = [(EqualsCondition ''GET'' ''/a'' [], 1), (EqualsCondition ''GET'' ''/a/'' [], 2),
                   (EqualsCondition ''POST'' ''/b'' [], 3)], rt_not_found = 0\<rparr>"

theorem resolve_first_route_witness:
  "fst (router_resolve (\<lambda>f r. (Inl KeyError, r)) two_routes (new_request ''/a/'' ''GET'' None [] [] 0 [])) =
     Inr (1, [(''pattern'', PBytes ''/a'')])"
  using resolve_first_route [of "\<lambda>f r. (Inl KeyError, r)" "new_request ''/a/'' ''GET'' None [] [] 0 []"
      "''/a/''" "new_request ''/a/'' ''GET'' None [] [] 0 []" two_routes]
  by (simp add: rq_path_def rq_get_def new_request_def two_routes_def slash_append_def ends_with_def)

text \<open>A route without arguments accepts exactly the paths that equal its pattern up to one
  trailing slash on either side.\<close>

theorem equals_trailing_slash:
  "cond_on_path (EqualsCondition m p meta) path =
     (if strip_slash path = strip_slash p then Some (dict_merge [(''pattern'', PBytes p)] meta) else None)"
  using slash_append_eq_iff [of p path] by (cases "strip_slash path = strip_slash p") simp_all

text \<open>C10: Adding a route whose pattern has arguments, delimited by characters that cannot belong to
  a value, never fails, and the new route accepts exactly the paths that the pattern makes of
  non-empty argument values, with or without a trailing slash; its data are the values by name, the
  pattern and the meta data of the route.\<close>

theorem path_route_accepts:
  assumes "pattern_ok ts" and "separated ts" and "args ts \<noteq> []"
  shows "\<exists>c. router_add ext (TBytes m) (PatText (TBytes (pattern_text ts))) h meta rt =
      Inr (append_route rt c h) \<and> c_method c = m \<and>
    (\<forall>p d. cond_on_path c p = Some d \<longleftrightarrow>
      (\<exists>vs t. length vs = length (args ts) \<and> list_all arg_value vs \<and> t \<in> {[], ''/''} \<and>
        p = fill (strip_seg ts) vs @ t \<and> d = path_data ts vs meta))"
proof (intro exI [of _ "path_condition m ts meta"] conjI allI)
  show "router_add ext (TBytes m) (PatText (TBytes (pattern_text ts))) h meta rt =
      Inr (append_route rt (path_condition m ts meta) h)"
    using brace_in_text [OF assms(3)] regexp_condition_text [OF assms(1)] by (simp add: router_add_def)
  show "c_method (path_condition m ts meta) = m" by (simp add: path_condition_def)
  fix p d
  show "cond_on_path (path_condition m ts meta) p = Some d \<longleftrightarrow>
      (\<exists>vs t. length vs = length (args ts) \<and> list_all arg_value vs \<and> t \<in> {[], ''/''} \<and>
        p = fill (strip_seg ts) vs @ t \<and> d = path_data ts vs meta)"
  proof
    assume "cond_on_path (path_condition m ts meta) p = Some d"
    then show "\<exists>vs t. length vs = length (args ts) \<and> list_all arg_value vs \<and> t \<in> {[], ''/''} \<and>
        p = fill (strip_seg ts) vs @ t \<and> d = path_data ts vs meta"
      by (rule path_condition_sound)
  next
    assume "\<exists>vs t. length vs = length (args ts) \<and> list_all arg_value vs \<and> t \<in> {[], ''/''} \<and>
        p = fill (strip_seg ts) vs @ t \<and> d = path_data ts vs meta"
    then obtain vs t where "length vs = length (args ts)" "list_all arg_value vs" "t \<in> {[], ''/''}"
      and eq: "p = fill (strip_seg ts) vs @ t" "d = path_data ts vs meta" by blast
    with path_condition_fill [OF assms(2)] show "cond_on_path (path_condition m ts meta) p = Some d"
      unfolding eq by blast
  qed
qed

definition user_pattern :: "seg list" where
  "user_pattern = map Lit ''/user/'' @ [Arg ''name'', Lit (CHR ''/''), Arg ''id'']"

lemma user_pattern_ok: "pattern_ok user_pattern" "separated user_pattern" "args user_pattern \<noteq> []"
  by (simp_all add: user_pattern_def pattern_ok_def is_meta_def is_identifier_def is_alnum_def
      name_char_def)

theorem path_route_accepts_witness:
  "\<exists>c. router_add (\<lambda>_. Inl ReError) (TBytes ''GET'') (PatText (TBytes (pattern_text user_pattern)))
         (7 :: nat) [] (new_router 0) = Inr (append_route (new_router 0) c 7) \<and> c_method c = ''GET'' \<and>
    (\<forall>p d. cond_on_path c p = Some d \<longleftrightarrow>
      (\<exists>vs t. length vs = length (args user_pattern) \<and> list_all arg_value vs \<and> t \<in> {[], ''/''} \<and>
        p = fill (strip_seg user_pattern) vs @ t \<and> d = path_data user_pattern vs []))"
  by (rule path_route_accepts) (rule user_pattern_ok)+



text \<open>Routes that are added later never change the answer to a request that already has a
  route.\<close>

theorem add_keeps_routes:
  assumes "router_add ext method pat h meta rt = Inr rt'" and "first_route (rt_routes rt) m p = Some a"
  shows "table_answer rt' m p = table_answer rt m p \<and> table_answer rt' m p = a"
proof -
  have "map_sum id f s = Inr y \<Longrightarrow> \<exists>c. y = f c" for f :: "condition \<Rightarrow> 'b router" and s :: "condition result" and y
    by (cases s) auto
  then obtain c where "rt' = append_route rt c h"
    using assms(1) by (fastforce simp: router_add_def split: sum.splits pattern.splits if_splits)
  then show ?thesis
    using assms(2) by (simp add: table_answer_def append_route_def first_route_append)
qed

theorem add_keeps_routes_witness:
  "table_answer (append_route two_routes (EqualsCondition ''GET'' ''/a'' []) 9) ''GET'' ''/a'' =
     table_answer two_routes ''GET'' ''/a'' \<and>
   table_answer (append_route two_routes (EqualsCondition ''GET'' ''/a'' []) 9) ''GET'' ''/a'' =
     (1, [(''pattern'', PBytes ''/a'')])"
  by (rule add_keeps_routes [of "\<lambda>_. Inl ReError" "TBytes ''GET''" "PatText (TBytes ''/a'')" 9 "[]"])
    (simp_all add: router_add_def two_routes_def first_route_def slash_append_def ends_with_def)

text \<open>The middleware hands the resolved handler to the rest of the chain with a request whose
  scope has the data of the route for every key that was free before, and keeps what was there.\<close>

theorem middleware_fills_scope:
  assumes "look_scope r ''path'' = None"
    and "table_answer rt (rq_method r) (rq_raw_path r) = (h, data)"
  shows "\<exists>r'. router_middleware call rid rt call_next r = call_next h r' \<and>
    rq_method r' = rq_method r \<and> rq_raw_path r' = rq_raw_path r \<and> rq_headers r' = rq_headers r \<and>
    (\<forall>k. look_scope r' k =
      (case look_scope r k of Some a \<Rightarrow> Some a
       | None \<Rightarrow> map_of ([(''get_url'', Plain (PObj ''url'' rid)),
                          (''get_route'', Plain (PObj ''_resolve'' rid))] @
                         map (\<lambda>(k, v). (k, Plain v)) data) k))"
proof -
  let ?r1 = "put_all rq_set [(''get_url'', Plain (PObj ''url'' rid)),
     (''get_route'', Plain (PObj ''_resolve'' rid))] r"
  let ?data = "map (\<lambda>(k, v). (k, Plain v)) data"
  have "look_scope ?r1 ''path'' = None"
    using assms(1) by (simp add: scope.look_put_all del: put_all_Cons)
  then have path: "rq_path call ?r1 = (Inr (PBytes (rq_raw_path ?r1)), ?r1)" by (rule rq_path_raw)
  have "fst (router_resolve call rt ?r1) = Inr (h, data)" "snd (router_resolve call rt ?r1) = ?r1"
    using router_resolve_eq [OF path refl refl, of rt] assms(2) by simp_all
  then have "router_resolve call rt ?r1 = (Inr (h, data), ?r1)" by (metis prod.collapse)
  then have "router_middleware call rid rt call_next r = call_next h (put_all rq_set ?data ?r1)"
    by (simp add: router_middleware_def)
  moreover have "look_scope (put_all rq_set ?data ?r1) k =
      (case look_scope r k of Some a \<Rightarrow> Some a
       | None \<Rightarrow> map_of ([(''get_url'', Plain (PObj ''url'' rid)),
                          (''get_route'', Plain (PObj ''_resolve'' rid))] @ ?data) k)" for k
    by (simp add: scope.look_put_all map_add_def split: option.split del: put_all_Cons)
  ultimately show ?thesis by (intro exI [of _ "put_all rq_set ?data ?r1"]) simp
qed

theorem middleware_fills_scope_witness:
  "\<exists>r'. router_middleware (\<lambda>f r. (Inl KeyError, r)) 5 two_routes (\<lambda>h r. (Inr h, r))
       (new_request ''/a'' ''GET'' None [] [] 0 []) = (Inr 1, r') \<and>
    look_scope r' ''pattern'' = Some (Plain (PBytes ''/a''))"
  using middleware_fills_scope [of "new_request ''/a'' ''GET'' None [] [] 0 []" two_routes 1
      "[(''pattern'', PBytes ''/a'')]" "\<lambda>f r. (Inl KeyError, r)" 5 "\<lambda>h r. (Inr h, r)"]
  by (auto simp: new_request_def look_scope_def table_answer_def first_route_def two_routes_def
      slash_append_def ends_with_def)

text \<open>The command \<open>list\<close> with a method never lists anything: the methods of the routes are
  \<open>bytes\<close> and the argument is a \<open>str\<close>.\<close>

lemma router_list_method:
  assumes "m \<noteq> []"
  shows "router_list ins rt (Some m) with_code = Inr []"
proof -
  have "list_lines ins (Some m) with_code routes = Inr []" for routes
    using assms by (induction routes) auto
  then show ?thesis by (simp add: router_list_def)
qed

end
