(* ===== verification/Pushes.thy ===== *)
theory Pushes
  imports Formatting Router
begin

text \<open>
  \<^verbatim>\<open>levin/components/h2.py\<close>: HTTP/2 pushes that handlers ask for. The lazy attribute \<open>add_push\<close>
  collects them in the scope; after the handler, the middleware moves them to the response, together
  with the push that the route names.
\<close>

section \<open>Text of values\<close>

text \<open>\<open>repr\<close> of bytes, which is also what \<open>str.format\<close> inserts.\<close>

definition repr_byte :: "char \<Rightarrow> char \<Rightarrow> pystr" where
  "repr_byte quote c =
     (if c = quote \<or> c = CHR 0x5C then [92, code c]
      else if c = CHR 0x09 then [92, 116] else if c = LF then [92, 110] else if c = CR then [92, 114]
      else if code c < 32 \<or> 127 \<le> code c
      then [92, 120, hex_digit (code c div 16), hex_digit (code c mod 16)]
      else [code c])"

definition bytes_repr :: "bytes \<Rightarrow> pystr" where
  "bytes_repr b =
     (let quote = (if CHR 0x27 \<in> set b \<and> CHR 0x22 \<notin> set b then CHR 0x22 else CHR 0x27)
      in [98, code quote] @ concat (map (repr_byte quote) b) @ [code quote])"

fun format_text :: "(attr \<Rightarrow> pystr) \<Rightarrow> attr \<Rightarrow> pystr" where
  "format_text str (Plain (PStr s)) = s"
| "format_text str (Plain (PBytes b)) = bytes_repr b"
| "format_text str (Plain (PInt i)) = lit (show_int i)"
| "format_text str a = str a"

section \<open>Collecting pushes\<close>

text \<open>The function that \<open>_create_add_push\<close> returns, on a request; the method is given as bytes.\<close>

definition add_push :: "lazy_call \<Rightarrow> pytext \<Rightarrow> bytes \<Rightarrow> request \<Rightarrow> exn option \<times> request" where
  "add_push call path method r =
     (case to_bytes path of
        Inl e \<Rightarrow> (Some e, r)
      | Inr p \<Rightarrow>
          (case rq_get call ''_pushes'' (PList []) r of
             (Inl e, r') \<Rightarrow> (Some e, r')
           | (Inr (PList ps), r') \<Rightarrow>
               (None, rq_set ''_pushes'' (Plain (PList (ps @ [PPush p method]))) True r')
           | (Inr _, r') \<Rightarrow> (Some AttributeError, r')))"

section \<open>The middleware\<close>

definition pushes_of :: "pyval \<Rightarrow> push list" where
  "pushes_of v =
     (case v of
        PList xs \<Rightarrow> concat (map (\<lambda>x. case x of PPush p m \<Rightarrow> [\<lparr>pu_path = p, pu_method = m\<rparr>] | _ \<Rightarrow> []) xs)
      | _ \<Rightarrow> [])"

text \<open>\<open>response.pushes = ...\<close> and \<open>response.pushes.append(...)\<close>. A template object takes the attribute too;
  a value of a built-in type does not.\<close>

fun set_pushes :: "push list \<Rightarrow> reply \<Rightarrow> reply result" where
  "set_pushes ps (R_response resp) = Inr (R_response (resp\<lparr>rs_pushes := ps\<rparr>))"
| "set_pushes ps (R_value v) = Inl AttributeError"
| "set_pushes ps rep = Inr rep"

fun append_push :: "bool \<Rightarrow> push result \<Rightarrow> reply \<Rightarrow> reply result" where
  "append_push had p (R_response resp) =
     map_sum id (\<lambda>q. R_response (resp\<lparr>rs_pushes := rs_pushes resp @ [q]\<rparr>)) p"
| "append_push had p (R_odd status body headers) = map_sum id (\<lambda>q. R_odd status body headers) p"
| "append_push had p (R_template path ctx) =
     (if had then map_sum id (\<lambda>q. R_template path ctx) p else Inl AttributeError)"
| "append_push had p (R_value v) = Inl AttributeError"

text \<open>The push of the route: a format string over the scope.\<close>

definition route_push ::
  "(pystr \<Rightarrow> kwargs \<Rightarrow> pystr result) \<Rightarrow> (attr \<Rightarrow> pystr) \<Rightarrow> pyval \<Rightarrow> scope \<Rightarrow> push result" where
  "route_push ext str v sc =
     (case v of
        PStr t \<Rightarrow>
          (case py_format ext t (map (\<lambda>(k, a). (lit k, format_text str a)) sc) of
             Inl e \<Rightarrow> Inl e
           | Inr s \<Rightarrow> map_sum id (\<lambda>p. \<lparr>pu_path = p, pu_method = ''GET''\<rparr>) (encode s))
      | _ \<Rightarrow> Inl AttributeError)"

definition push_middleware ::
  "(pystr \<Rightarrow> kwargs \<Rightarrow> pystr result) \<Rightarrow> (attr \<Rightarrow> pystr) \<Rightarrow> lazy_call \<Rightarrow> 'h handler_chain \<Rightarrow> 'h handler_chain" where
  "push_middleware ext str call call_next h r =
     (case call_next h (rq_set ''add_push'' (Lazy F_create_add_push) False r) of
        (Inl e, r1) \<Rightarrow> (Inl e, r1)
      | (Inr rep, r1) \<Rightarrow>
          (case rq_get call ''_pushes'' PNone r1 of
             (Inl e, r2) \<Rightarrow> (Inl e, r2)
           | (Inr ps, r2) \<Rightarrow>
               (case (if truthy ps then set_pushes (pushes_of ps) rep else Inr rep) of
                  Inl e \<Rightarrow> (Inl e, r2)
                | Inr rep1 \<Rightarrow>
                    (case rq_get call ''push'' PNone r2 of
                       (Inl e, r3) \<Rightarrow> (Inl e, r3)
                     | (Inr v, r3) \<Rightarrow>
                         if truthy v
                         then (append_push (truthy ps) (route_push ext str v (rq_scope r3)) rep1, r3)
                         else (Inr rep1, r3)))))"

section \<open>Lemmas\<close>

lemma pushes_of_append [simp]:
  "pushes_of (PList (xs @ ys)) = pushes_of (PList xs) @ pushes_of (PList ys)"
  by (simp add: pushes_of_def)

lemma pushes_of_push [simp]: "pushes_of (PList [PPush p m]) = [\<lparr>pu_path = p, pu_method = m\<rparr>]"
  by (simp add: pushes_of_def)

lemma add_push_result:
  assumes "look_scope r ''_pushes'' = None \<and> ps = [] \<or> look_scope r ''_pushes'' = Some (Plain (PList ps))"
  shows "add_push call (TBytes p) m r =
    (None, rq_set ''_pushes'' (Plain (PList (ps @ [PPush p m]))) True r)"
  using assms by (auto simp: add_push_def rq_get_simps)

fun add_pushes :: "lazy_call \<Rightarrow> (bytes \<times> bytes) list \<Rightarrow> request \<Rightarrow> request" where
  "add_pushes call [] r = r"
| "add_pushes call ((p, m) # pms) r = add_pushes call pms (snd (add_push call (TBytes p) m r))"

lemma add_pushes_scope:
  assumes "look_scope r ''_pushes'' = Some (Plain (PList ps))"
  shows "look_scope (add_pushes call pms r) ''_pushes'' =
    Some (Plain (PList (ps @ map (\<lambda>(p, m). PPush p m) pms)))"
  using assms
proof (induction pms arbitrary: r ps)
  case Nil
  then show ?case by simp
next
  case (Cons pm pms)
  obtain p m where "pm = (p, m)" by (cases pm)
  with Cons add_push_result [of r ps call p m] show ?case by (simp add: look_rq_set)
qed

lemma add_pushes_first:
  assumes "look_scope r ''_pushes'' = None" and "pms \<noteq> []"
  shows "look_scope (add_pushes call pms r) ''_pushes'' = Some (Plain (PList (map (\<lambda>(p, m). PPush p m) pms)))"
proof -
  obtain p m rest where pms: "pms = (p, m) # rest" using assms(2) by (cases pms) auto
  have "add_push call (TBytes p) m r = (None, rq_set ''_pushes'' (Plain (PList [PPush p m])) True r)"
    using add_push_result [of r "[]" call p m] assms(1) by simp
  moreover have "look_scope (rq_set ''_pushes'' (Plain (PList [PPush p m])) True r) ''_pushes'' =
      Some (Plain (PList [PPush p m]))" by (simp add: look_rq_set)
  ultimately show ?thesis using add_pushes_scope [of _ "[PPush p m]" call rest] by (simp add: pms)
qed

lemma pushes_of_map: "pushes_of (PList (map (\<lambda>(p, m). PPush p m) pms)) = map (\<lambda>(p, m). \<lparr>pu_path = p, pu_method = m\<rparr>) pms"
  by (induction pms) (auto simp: pushes_of_def)

lemma add_pushes_other:
  assumes "look_scope r ''_pushes'' = None \<or> (\<exists>ps. look_scope r ''_pushes'' = Some (Plain (PList ps)))"
    and "k \<noteq> ''_pushes''"
  shows "look_scope (add_pushes call pms r) k = look_scope r k"
  using assms(1)
proof (induction pms arbitrary: r)
  case Nil
  then show ?case by simp
next
  case (Cons pm pms)
  obtain p m where pm: "pm = (p, m)" by (cases pm)
  from Cons.prems obtain ps where
    "look_scope r ''_pushes'' = None \<and> ps = [] \<or> look_scope r ''_pushes'' = Some (Plain (PList ps))"
    by auto
  from add_push_result [OF this, of call p m] pm Cons.IH assms(2) show ?case by (simp add: look_rq_set)
qed

definition quoted :: "bytes \<Rightarrow> bytes" where
  "quoted v = ''b'' @ [CHR 0x27] @ v @ [CHR 0x27]"

lemma name_char_code: "name_char c \<Longrightarrow> 45 \<le> code c \<and> code c < 123 \<and> code c \<noteq> 92"
  by (auto simp: name_char_def is_alnum_def)

lemma name_char_plain:
  assumes "name_char c"
  shows "repr_byte (CHR 0x27) c = [code c]"
proof -
  have "45 \<le> code c" "code c < 123" "code c \<noteq> 92" using name_char_code [OF assms] by simp_all
  moreover from this have "c \<noteq> CHR 0x27" "c \<noteq> CHR 0x5C" "c \<noteq> CHR 0x09" "c \<noteq> LF" "c \<noteq> CR"
    by auto
  ultimately show ?thesis by (simp add: repr_byte_def)
qed

lemma bytes_repr_value: "arg_value v \<Longrightarrow> bytes_repr v = lit (quoted v)"
proof -
  assume "arg_value v"
  then have chars: "\<forall>c \<in> set v. name_char c" by (simp add: arg_value_def list_all_iff)
  then have "concat (map (repr_byte (CHR 0x27)) v) = lit v"
    by (induction v) (simp_all add: name_char_plain)
  moreover have "CHR 0x27 \<notin> set v" using chars by (auto simp: name_char_def is_alnum_def)
  ultimately show "bytes_repr v = lit (quoted v)" by (simp add: bytes_repr_def quoted_def Let_def)
qed

lemma quoted_ascii: "arg_value v \<Longrightarrow> ascii (quoted v)"
  by (auto simp: quoted_def ascii_def arg_value_def list_all_iff name_char_def is_alnum_def)

lemma fill_ascii_values:
  "list_all seg_ok ts \<Longrightarrow> list_all ascii vs \<Longrightarrow> length vs = length (args ts) \<Longrightarrow> ascii (fill ts vs)"
proof (induction ts arbitrary: vs)
  case Nil
  then show ?case by simp
next
  case (Cons t ts)
  show ?case
  proof (cases t)
    case (Lit c)
    with Cons show ?thesis by simp
  next
    case (Arg n)
    with Cons show ?thesis by (cases vs) auto
  qed
qed

lemma format_scope_lookup:
  "map_of (map (\<lambda>(k, a). (lit k, f a)) sc) (lit n) = map_option f (map_of sc n)"
  by (induction sc) auto

lemma route_push_values:
  assumes "list_all seg_ok ts" and "length vs = length (args ts)" and "list_all arg_value vs"
    and "\<forall>(n, v) \<in> set (zip (args ts) vs). map_of sc n = Some (Plain (PBytes v))"
  shows "route_push ext str (PStr (lit (pattern_text ts))) sc =
    Inr \<lparr>pu_path = fill ts (map quoted vs), pu_method = ''GET''\<rparr>"
proof -
  let ?kw = "map (\<lambda>(k, a). (lit k, format_text str a)) sc"
  have "map_of ?kw (lit n) = Some (lit w)" if "(n, w) \<in> set (zip (args ts) (map quoted vs))" for n w
  proof -
    from that obtain v where v: "(n, v) \<in> set (zip (args ts) vs)" "w = quoted v" by (auto simp: zip_map2)
    then have "arg_value v" using assms(3) by (auto simp: list_all_iff dest: set_zip_rightD)
    with v assms(4) show ?thesis by (auto simp: format_scope_lookup bytes_repr_value)
  qed
  then have "py_format ext (lit (pattern_text ts)) ?kw = Inr (lit (fill ts (map quoted vs)))"
    using assms(1,2) by (intro py_format_text) auto
  moreover have "list_all ascii (map quoted vs)"
    using assms(3) by (auto simp: list_all_iff quoted_ascii)
  then have "encode (lit (fill ts (map quoted vs))) = Inr (fill ts (map quoted vs))"
    using assms(1,2) by (intro encode_lit fill_ascii_values) auto
  ultimately show ?thesis by (simp add: route_push_def)
qed

section \<open>Properties\<close>

text \<open>The pushes that a handler asks for, in any number, are the pushes of the response, in the
  order in which they were asked for.\<close>

theorem pushes_reach_response:
  assumes "look_scope r' ''_pushes'' = None" and "pms \<noteq> []" and "look_scope r' ''push'' = None"
    and "call_next h (rq_set ''add_push'' (Lazy F_create_add_push) False r) =
      (Inr (R_response resp), add_pushes call pms r')"
  shows "fst (push_middleware ext str call call_next h r) =
    Inr (R_response (resp\<lparr>rs_pushes := map (\<lambda>(p, m). \<lparr>pu_path = p, pu_method = m\<rparr>) pms\<rparr>))"
  using add_pushes_first [OF assms(1,2), of call] add_pushes_other [of r' "''push''" call pms] assms
  by (simp add: push_middleware_def rq_get_simps pushes_of_map)

theorem pushes_reach_response_witness:
  "fst (push_middleware (\<lambda>s kw. Inl ValueError) (\<lambda>a. []) (\<lambda>f r. (Inl KeyError, r))
     (\<lambda>h r. (Inr (R_response (new_response 200 [] None [] False)),
             add_pushes (\<lambda>f r. (Inl KeyError, r)) [(''/a.css'', ''GET''), (''/b.js'', ''GET'')] r)) (0 :: nat)
     (new_request ''/'' ''GET'' None [] [] 0 [])) =
   Inr (R_response ((new_response 200 [] None [] False)
     \<lparr>rs_pushes := map (\<lambda>(p, m). \<lparr>pu_path = p, pu_method = m\<rparr>) [(''/a.css'', ''GET''), (''/b.js'', ''GET'')]\<rparr>))"
proof (rule pushes_reach_response)
  let ?r = "rq_set ''add_push'' (Lazy F_create_add_push) False (new_request ''/'' ''GET'' None [] [] 0 [])"
  show "look_scope ?r ''_pushes'' = None" "look_scope ?r ''push'' = None"
    by (simp_all add: look_rq_set) (simp_all add: new_request_def look_scope_def)
qed simp_all

text \<open>The push of a route is built with the representation of the route's arguments, which are
  bytes: for a template with arguments, each value \<open>v\<close> appears in the pushed path as \<open>b'v'\<close>.\<close>

theorem route_push_quotes:
  assumes "list_all seg_ok ts" and "length vs = length (args ts)" and "list_all arg_value vs"
    and "\<forall>(n, v) \<in> set (zip (args ts) vs). map_of sc n = Some (Plain (PBytes v))"
  shows "route_push ext str (PStr (lit (pattern_text ts))) sc =
    Inr \<lparr>pu_path = fill ts (map quoted vs), pu_method = ''GET''\<rparr>"
  using assms by (rule route_push_values)

theorem route_push_quotes_witness:
  "route_push (\<lambda>s kw. Inl ValueError) (\<lambda>a. []) (PStr (lit (pattern_text user_pattern)))
     [(''name'', Plain (PBytes ''ann'')), (''id'', Plain (PBytes ''42''))] =
   Inr \<lparr>pu_path = ''/user/b'' @ [CHR 0x27] @ ''ann'' @ [CHR 0x27] @ ''/b'' @ [CHR 0x27] @ ''42'' @ [CHR 0x27],
        pu_method = ''GET''\<rparr>"
proof -
  have "list_all seg_ok user_pattern" using user_pattern_ok(1) by (simp add: pattern_ok_def)
  from route_push_quotes [OF this, of "[''ann'', ''42'']"
      "[(''name'', Plain (PBytes ''ann'')), (''id'', Plain (PBytes ''42''))]" "\<lambda>s kw. Inl ValueError" "\<lambda>a. []"]
  show ?thesis by (simp add: user_pattern_def arg_value_def name_char_def is_alnum_def quoted_def)
qed

end
