(* ===== verification/Observe.thy ===== *)
theory Observe
  imports Formatting
begin

text \<open>
  \<^verbatim>\<open>levin/components/logger.py\<close> and \<^verbatim>\<open>levin/components/profiling.py\<close>: the middlewares that watch
  requests. \<open>LoggerComponent\<close> builds a log record of the response, and what can fail there fails the
  request. \<open>ProfileHandler\<close> remembers slow targets and runs the next request of such a target, one at
  a time, under the profiler.
\<close>

section \<open>Logging\<close>

record log_record =
  lg_status :: pyval
  lg_method :: pystr
  lg_path :: pystr
  lg_protocol :: pystr
  lg_body_size :: nat
  lg_stream :: int

definition decode_all :: "bytes list \<Rightarrow> pystr list result" where
  "decode_all bs =
     foldr (\<lambda>b res. case decode b of Inl e \<Rightarrow> Inl e | Inr s \<Rightarrow> map_sum id ((#) s) res) bs (Inr [])"

fun status_and_body :: "reply \<Rightarrow> (pyval \<times> bytes) result" where
  "status_and_body (R_response resp) = Inr (PInt (rs_status resp), rs_body resp)"
| "status_and_body (R_odd status body headers) = Inr (status, body)"
| "status_and_body _ = Inl AttributeError"

text \<open>The dictionary that is passed to \<open>log\<close>, up to the time and the transport.\<close>

definition log_record_of :: "reply \<Rightarrow> request \<Rightarrow> log_record result" where
  "log_record_of rep r =
     (case status_and_body rep of
        Inl e \<Rightarrow> Inl e
      | Inr (status, body) \<Rightarrow>
          (case decode_all [rq_method r, rq_raw_path r, rq_protocol r] of
             Inr [method, path, protocol] \<Rightarrow>
               Inr \<lparr>lg_status = status, lg_method = method, lg_path = path, lg_protocol = protocol,
                    lg_body_size = length body, lg_stream = rq_stream r\<rparr>
           | Inl e \<Rightarrow> Inl e
           | Inr _ \<Rightarrow> Inl ValueError))"

text \<open>The middleware; \<open>lid\<close> is the identity of the logger. The last field, the transport, reads the
  attribute \<open>get_transport_info\<close>.\<close>

definition logger_middleware :: "lazy_call \<Rightarrow> nat \<Rightarrow> 'h handler_chain \<Rightarrow> 'h handler_chain" where
  "logger_middleware call lid call_next h r =
     (case call_next h (rq_set ''logger'' (Plain (PObj ''logger'' lid)) False r) of
        (Inl e, r1) \<Rightarrow> (Inl e, r1)
      | (Inr rep, r1) \<Rightarrow>
          (case log_record_of rep r1 of
             Inl e \<Rightarrow> (Inl e, r1)
           | Inr rec \<Rightarrow>
               (case rq_getattr call ''get_transport_info'' r1 of
                  (Inl e, r2) \<Rightarrow> (Inl e, r2)
                | (Inr info, r2) \<Rightarrow> (Inr rep, r2))))"

section \<open>Profiling\<close>

record profile_state =
  pf_targets :: "bytes list"
  pf_locked :: bool

definition request_hash :: "request \<Rightarrow> bytes" where
  "request_hash r = rq_raw_path r @ rq_method r"

text \<open>The decision at the start of the middleware, with what it does to the state: a known target is
  taken off the list and the lock is held until the request is over.\<close>

definition profile_enter :: "request \<Rightarrow> profile_state \<Rightarrow> bool \<times> profile_state" where
  "profile_enter r st =
     (if request_hash r \<in> set (pf_targets st) \<and> \<not> pf_locked st
      then (True, st\<lparr>pf_targets := remove1 (request_hash r) (pf_targets st), pf_locked := True\<rparr>)
      else (False, st))"

text \<open>The end: a profiled request releases the lock; another one that was slow puts its target on the
  list.\<close>

definition profile_leave :: "bool \<Rightarrow> bool \<Rightarrow> request \<Rightarrow> profile_state \<Rightarrow> profile_state" where
  "profile_leave profiled slow r st =
     (if profiled then st\<lparr>pf_locked := False\<rparr>
      else if slow then st\<lparr>pf_targets := pf_targets st @ [request_hash r]\<rparr> else st)"

text \<open>What the middleware does to the handler and the reply. \<open>trace\<close> wraps the handler; \<open>slow\<close> is what
  calling a profile condition gives, on the condition of the route or the default one. A slow request
  reads the attribute \<open>logger\<close>. The end runs in a \<open>finally\<close>: an exception there replaces the reply.\<close>

definition default_condition :: pyval where
  "default_condition = PObj ''_default_profile_condition'' 0"

definition profile_middleware ::
  "lazy_call \<Rightarrow> bool \<Rightarrow> (pyval \<Rightarrow> bool result) \<Rightarrow> ('h \<Rightarrow> 'h) \<Rightarrow> 'h handler_chain \<Rightarrow> 'h handler_chain" where
  "profile_middleware call profiled slow trace call_next h r =
     (if profiled then
        (case rq_get call ''depth'' (PInt 1) r of
           (Inl e, r') \<Rightarrow> (Inl e, r')
         | (Inr depth, r') \<Rightarrow> call_next (trace h) r')
      else
        (case call_next h r of
           (res, r1) \<Rightarrow>
             (case rq_get call ''profile_condition'' default_condition r1 of
                (Inl e, r2) \<Rightarrow> (Inl e, r2)
              | (Inr condition, r2) \<Rightarrow>
                  (case slow condition of
                     Inl e \<Rightarrow> (Inl e, r2)
                   | Inr False \<Rightarrow> (res, r2)
                   | Inr True \<Rightarrow>
                       (case rq_getattr call ''logger'' r2 of
                          (Inl e, r3) \<Rightarrow> (Inl e, r3)
                        | (Inr _, r3) \<Rightarrow> (res, r3))))))"

lemma profile_quiet:
  assumes "\<And>v. slow v = Inr False" and "call_next h r = (res, r1)"
    and "rq_get call ''profile_condition'' default_condition r1 = (Inr v, r1)"
  shows "profile_middleware call False slow trace call_next h r = (res, r1)"
  using assms by (simp add: profile_middleware_def)

section \<open>The profiler as a state machine\<close>

text \<open>The requests being profiled, and the state.\<close>

inductive profile_step ::
  "request list \<times> profile_state \<Rightarrow> request list \<times> profile_state \<Rightarrow> bool" where
  enter_profiled: "profile_enter r st = (True, st') \<Longrightarrow> profile_step (rs, st) (r # rs, st')"
| enter_plain: "profile_enter r st = (False, st') \<Longrightarrow> profile_step (rs, st) (rs, st')"
| leave_profiled: "r \<in> set rs \<Longrightarrow> profile_step (rs, st) (remove1 r rs, profile_leave True slow r st)"
| leave_plain: "profile_step (rs, st) (rs, profile_leave False slow r st)"

definition one_profiled :: "request list \<times> profile_state \<Rightarrow> bool" where
  "one_profiled s \<longleftrightarrow> length (fst s) = (if pf_locked (snd s) then 1 else 0)"

lemma profile_step_inv: "profile_step s s' \<Longrightarrow> one_profiled s \<Longrightarrow> one_profiled s'"
proof (induction rule: profile_step.induct)
  case (leave_profiled r rs st slow)
  then have "length rs = 1" by (cases rs) (auto simp: one_profiled_def split: if_splits)
  with leave_profiled show ?case by (simp add: one_profiled_def profile_leave_def length_remove1)
qed (auto simp: one_profiled_def profile_enter_def profile_leave_def split: if_splits)

lemma profile_steps_inv: "profile_step\<^sup>*\<^sup>* s s' \<Longrightarrow> one_profiled s \<Longrightarrow> one_profiled s'"
  by (induction rule: rtranclp_induct) (auto intro: profile_step_inv)

section \<open>Properties\<close>

text \<open>At most one request is profiled at a time, whatever requests come and go.\<close>

theorem at_most_one_profiled:
  assumes "profile_step\<^sup>*\<^sup>* ([], \<lparr>pf_targets = [], pf_locked = False\<rparr>) (rs, st)"
  shows "length rs \<le> 1 \<and> (pf_locked st \<longleftrightarrow> rs \<noteq> [])"
proof -
  have "one_profiled (rs, st)"
    using assms by (rule profile_steps_inv) (simp add: one_profiled_def)
  then show ?thesis by (auto simp: one_profiled_def split: if_splits)
qed

definition slow_request :: request where
  "slow_request = new_request ''/slow'' ''GET'' None [] ''HTTP/1.1'' 0 ''http''"

theorem at_most_one_profiled_witness:
  "length [slow_request] \<le> 1 \<and>
   (pf_locked \<lparr>pf_targets = [], pf_locked = True\<rparr> \<longleftrightarrow> [slow_request] \<noteq> [])"
proof (rule at_most_one_profiled)
  let ?st0 = "\<lparr>pf_targets = [], pf_locked = False\<rparr>"
  let ?st1 = "\<lparr>pf_targets = [request_hash slow_request], pf_locked = False\<rparr>"
  have "profile_step ([], ?st0) ([], ?st1)"
    using profile_step.leave_plain [of "[]" ?st0 True slow_request] by (simp add: profile_leave_def)
  moreover have "profile_step ([], ?st1) ([slow_request], \<lparr>pf_targets = [], pf_locked = True\<rparr>)"
    by (rule profile_step.enter_profiled) (simp add: profile_enter_def)
  ultimately show "profile_step\<^sup>*\<^sup>* ([], ?st0) ([slow_request], \<lparr>pf_targets = [], pf_locked = True\<rparr>)"
    by (meson converse_rtranclp_into_rtranclp rtranclp.rtrancl_refl)
qed

text \<open>The logger never changes a reply, but it can lose it: a reply goes through exactly if it is a
  response, the method, the path and the protocol are UTF-8, and the transport information is there.\<close>

theorem logger_transparent:
  assumes "call_next h (rq_set ''logger'' (Plain (PObj ''logger'' lid)) False r) = (Inr rep, r1)"
    and "rq_getattr call ''get_transport_info'' r1 = (Inr info, r2)"
  shows "fst (logger_middleware call lid call_next h r) =
    (case log_record_of rep r1 of Inl e \<Rightarrow> Inl e | Inr rec \<Rightarrow> Inr rep)"
  using assms by (simp add: logger_middleware_def split: sum.split)

theorem logger_transparent_witness:
  "fst (logger_middleware (\<lambda>f r. (Inr (PObj ''info'' 0), r)) 0
     (\<lambda>h r. (Inr (R_response (new_response 200 [] None [] False)), r)) (0 :: nat)
     ((new_request [CHR 0xFF] ''GET'' None [] [] 0 [])
       \<lparr>rq_scope := [(''get_transport_info'', Lazy F_get_transport_info)]\<rparr>)) = Inl UnicodeError"
proof -
  let ?r = "(new_request [CHR 0xFF] ''GET'' None [] [] 0 [])
    \<lparr>rq_scope := [(''get_transport_info'', Lazy F_get_transport_info)]\<rparr>"
  let ?r1 = "rq_set ''logger'' (Plain (PObj ''logger'' 0)) False ?r"
  let ?rep = "R_response (new_response 200 [] None [] False)"
  have "look_scope ?r1 ''get_transport_info'' = Some (Lazy F_get_transport_info)"
    by (simp add: look_rq_set) (simp add: look_scope_def)
  then have "rq_getattr (\<lambda>f r. (Inr (PObj ''info'' 0), r)) ''get_transport_info'' ?r1 =
      (Inr (PObj ''info'' 0),
       ?r1\<lparr>rq_scope := AList.update ''get_transport_info'' (Plain (PObj ''info'' 0)) (rq_scope ?r1)\<rparr>)"
    by (simp add: rq_getattr_def rq_get_lazy request_slots_def EMPTY_def)
  moreover have "log_record_of ?rep ?r1 = Inl UnicodeError" by code_simp
  ultimately show ?thesis
    using logger_transparent [of "\<lambda>h r. (Inr ?rep, r)" "0 :: nat" 0 ?r ?rep ?r1]
    by (simp split: sum.split)
qed

end
