(* ===== verification/Limits.thy ===== *)
theory Limits
  imports Formatting
begin

text \<open>
  \<^verbatim>\<open>levin/components/limit.py\<close>: \<open>TimeLimit\<close> runs the rest of the chain as a task and cancels it
  when the time is up.

  Time is counted in steps of any size. What the task does is given: how long it takes, what it ends
  with when it is left alone, and what it ends with when it is cancelled (normally \<open>CancelledError\<close>,
  but a handler may catch it). \<open>outer\<close> is the moment at which the coroutine of the request itself is
  cancelled, as the connection does when it is lost.
\<close>

record task_run =
  tk_duration :: nat
  tk_natural :: "reply result \<times> request"
  tk_cancelled :: "reply result \<times> request"

text \<open>The task is cancelled, by the timer or along with the coroutine that awaits it.\<close>

definition cut_short :: "nat \<Rightarrow> nat option \<Rightarrow> task_run \<Rightarrow> bool" where
  "cut_short timeout outer t \<longleftrightarrow>
     timeout < tk_duration t \<or> (case outer of None \<Rightarrow> False | Some c \<Rightarrow> c < tk_duration t)"

definition time_limit_middleware ::
  "nat \<Rightarrow> nat option \<Rightarrow> ('h \<Rightarrow> request \<Rightarrow> task_run) \<Rightarrow> 'h \<Rightarrow> request \<Rightarrow> reply result \<times> request" where
  "time_limit_middleware timeout outer call_next h r =
     (let t = call_next h r
      in case (if cut_short timeout outer t then tk_cancelled t else tk_natural t) of
           (Inl e, r') \<Rightarrow>
             if e = CancelledError
             then (Inr (R_response (new_response 500 ''Timeout'' None [] False)), r')
             else (Inl e, r')
         | (Inr rep, r') \<Rightarrow> (Inr rep, r'))"

text \<open>A chain that does not wait, as a task.\<close>

definition instant :: "'h handler_chain \<Rightarrow> 'h \<Rightarrow> request \<Rightarrow> task_run" where
  "instant call_next h r =
     \<lparr>tk_duration = 0, tk_natural = call_next h r, tk_cancelled = (Inl CancelledError, r)\<rparr>"

section \<open>Properties\<close>

text \<open>A handler that is in time is not disturbed. One that is cancelled, because its time is up or
  because its connection is gone, and does not catch the cancellation, ends in the response 500
  \<open>Timeout\<close>: the middleware swallows the cancellation in both cases, and no cancellation leaves it.\<close>

theorem time_limit_outcome:
  assumes "fst (tk_cancelled (call_next h r)) = Inl CancelledError"
    and "fst (tk_natural (call_next h r)) \<noteq> Inl CancelledError"
  shows "fst (time_limit_middleware timeout outer call_next h r) =
    (if cut_short timeout outer (call_next h r)
     then Inr (R_response (new_response 500 ''Timeout'' None [] False))
     else fst (tk_natural (call_next h r)))"
  using assms by (auto simp: time_limit_middleware_def Let_def split: prod.splits sum.splits)

theorem time_limit_outcome_witness:
  "fst (time_limit_middleware 10 (Some 3)
     (\<lambda>h r. \<lparr>tk_duration = 5, tk_natural = (Inr (R_value PNone), r), tk_cancelled = (Inl CancelledError, r)\<rparr>)
     (0 :: nat) (new_request ''/'' ''GET'' None [] [] 0 [])) =
   Inr (R_response (new_response 500 ''Timeout'' None [] False))"
  using time_limit_outcome
    [of "\<lambda>h r. \<lparr>tk_duration = 5, tk_natural = (Inr (R_value PNone), r), tk_cancelled = (Inl CancelledError, r)\<rparr>"
        "0 :: nat" "new_request ''/'' ''GET'' None [] [] 0 []" 10 "Some 3"]
  by (simp add: cut_short_def)

end
