(* ===== verification/Inject.thy ===== *)
theory Inject
  imports Common
begin

text \<open>
  \<^verbatim>\<open>levin/components/inject.py\<close>: what a handler is called with. \<open>InjectFromScope\<close> binds the
  parameters that are annotated with a name of the scope, \<open>AddRequest\<close> binds the request if there is a
  parameter of that name. Handlers are functions with named parameters, wrapped in
  \<open>functools.partial\<close>; \<open>py_call\<close> is the binding of arguments to parameters when the handler is called.
\<close>

section \<open>Callables\<close>

record param =
  pm_name :: name
  pm_inject :: "name option"
  pm_default :: bool

text \<open>The annotation that \<open>Inject(value_name)\<close> makes: a type variable whose attribute \<open>_value_name\<close> is the name.\<close>

definition Inject :: "name \<Rightarrow> name option" where
  "Inject value_name = Some value_name"

datatype call_arg = A_request | A_value pyval

record callable =
  cl_params :: "param list"
  cl_args :: "call_arg list"
  cl_kwargs :: "(name \<times> call_arg) list"

definition new_callable :: "param list \<Rightarrow> callable" where
  "new_callable ps = \<lparr>cl_params = ps, cl_args = [], cl_kwargs = []\<rparr>"

text \<open>\<open>inspect.signature(handler).parameters\<close>: the parameters that no positional argument took.\<close>

definition signature_params :: "callable \<Rightarrow> param list result" where
  "signature_params h =
     (if length (cl_params h) < length (cl_args h) then Inl ValueError
      else Inr (drop (length (cl_args h)) (cl_params h)))"

text \<open>\<open>partial(handler, arg)\<close> and \<open>partial(handler, **kwargs)\<close>\<close>

definition partial_arg :: "call_arg \<Rightarrow> callable \<Rightarrow> callable" where
  "partial_arg a h = h\<lparr>cl_args := cl_args h @ [a]\<rparr>"

definition partial_kwargs :: "(name \<times> call_arg) list \<Rightarrow> callable \<Rightarrow> callable" where
  "partial_kwargs kw h = h\<lparr>cl_kwargs := dict_merge (cl_kwargs h) kw\<rparr>"

text \<open>Calling a handler: positional arguments first, then keywords; too many arguments, a parameter
  given twice, an unknown keyword and a missing argument are type errors. The result binds the
  parameters that got an argument.\<close>

definition py_call :: "callable \<Rightarrow> (name \<times> call_arg) list result" where
  "py_call h =
     (let names = map pm_name (cl_params h);
          positional = zip names (cl_args h);
          env = positional @ cl_kwargs h
      in if length names < length (cl_args h) then Inl TypeError
         else if list_ex (\<lambda>k. k \<in> set (map fst positional) \<or> k \<notin> set names) (map fst (cl_kwargs h))
         then Inl TypeError
         else if list_ex (\<lambda>p. \<not> pm_default p \<and> pm_name p \<notin> set (map fst env)) (cl_params h)
         then Inl TypeError
         else Inr env)"

section \<open>Middlewares\<close>

definition add_request_middleware ::
  "(callable \<Rightarrow> request \<Rightarrow> 'a result \<times> request) \<Rightarrow> callable \<Rightarrow> request \<Rightarrow> 'a result \<times> request" where
  "add_request_middleware call_next h r =
     (case signature_params h of
        Inl e \<Rightarrow> (Inl e, r)
      | Inr ps \<Rightarrow>
          call_next (if ''request'' \<in> pm_name ` set ps then partial_arg A_request h else h) r)"

text \<open>The loop of \<open>InjectFromScope.middleware\<close>, which reads the scope.\<close>

fun collect_injected ::
  "lazy_call \<Rightarrow> param list \<Rightarrow> request \<Rightarrow> (name \<times> call_arg) list result \<times> request" where
  "collect_injected call [] r = (Inr [], r)"
| "collect_injected call (p # ps) r =
     (case pm_inject p of
        None \<Rightarrow> collect_injected call ps r
      | Some value_name \<Rightarrow>
          (case rq_get call value_name PNone r of
             (Inl e, r') \<Rightarrow> (Inl e, r')
           | (Inr v, r') \<Rightarrow>
               (case collect_injected call ps r' of
                  (Inl e, r'') \<Rightarrow> (Inl e, r'')
                | (Inr kw, r'') \<Rightarrow> (Inr ((pm_name p, A_value v) # kw), r''))))"

definition inject_middleware ::
  "lazy_call \<Rightarrow> (callable \<Rightarrow> request \<Rightarrow> 'a result \<times> request) \<Rightarrow> callable \<Rightarrow> request \<Rightarrow>
   'a result \<times> request" where
  "inject_middleware call call_next h r =
     (case signature_params h of
        Inl e \<Rightarrow> (Inl e, r)
      | Inr ps \<Rightarrow>
          (case collect_injected call ps r of
             (Inl e, r') \<Rightarrow> (Inl e, r')
           | (Inr kw, r') \<Rightarrow> call_next (if kw \<noteq> [] then partial_kwargs kw h else h) r'))"

text \<open>Both, in the order of the default application, down to the call.\<close>

definition call_handler ::
  "lazy_call \<Rightarrow> param list \<Rightarrow> request \<Rightarrow> (name \<times> call_arg) list result \<times> request" where
  "call_handler call ps r =
     inject_middleware call (add_request_middleware (\<lambda>h r. (py_call h, r))) (new_callable ps) r"

section \<open>Lemmas\<close>

definition injected :: "request \<Rightarrow> param list \<Rightarrow> (name \<times> call_arg) list" where
  "injected r ps =
     concat (map (\<lambda>p. case pm_inject p of
        None \<Rightarrow> []
      | Some k \<Rightarrow> [(pm_name p, A_value (case look_scope r k of Some (Plain v) \<Rightarrow> v | _ \<Rightarrow> PNone))]) ps)"

definition all_settled :: "request \<Rightarrow> bool" where
  "all_settled r \<longleftrightarrow> (\<forall>k f. look_scope r k \<noteq> Some (Lazy f))"

lemma collect_injected_settled:
  assumes "all_settled r"
  shows "collect_injected call ps r = (Inr (injected r ps), r)"
proof (induction ps)
  case Nil
  then show ?case by (simp add: injected_def)
next
  case (Cons p ps)
  have "rq_get call k PNone r = (Inr (case look_scope r k of Some (Plain v) \<Rightarrow> v | _ \<Rightarrow> PNone), r)" for k
    using assms by (auto simp: all_settled_def rq_get_simps split: option.split attr.split)
  with Cons.IH show ?case by (simp add: injected_def split: option.split)
qed

lemma dict_merge_fresh: "distinct (map fst kw) \<Longrightarrow> dict_merge [] kw = kw"
proof -
  have "distinct (map fst (d @ kw)) \<Longrightarrow> dict_merge d kw = d @ kw" for d :: "('a \<times> 'b) list"
  proof (induction kw arbitrary: d)
    case Nil
    then show ?case by simp
  next
    case (Cons kv kw)
    obtain k v where kv: "kv = (k, v)" by (cases kv)
    with Cons.prems have "k \<notin> fst ` set d" by auto
    then have "AList.update k v d = d @ [(k, v)]" by (induction d) auto
    with Cons.IH [of "d @ [(k, v)]"] Cons.prems kv show ?case by simp
  qed
  from this [of "[]"] show "distinct (map fst kw) \<Longrightarrow> dict_merge [] kw = kw" by simp
qed

lemma injected_names: "map fst (injected r ps) = map pm_name (filter (\<lambda>p. pm_inject p \<noteq> None) ps)"
  by (induction ps) (auto simp: injected_def split: option.splits)

lemma call_handler_eq:
  assumes "all_settled r" and "distinct (map pm_name ps)"
  shows "call_handler call ps r =
    (py_call \<lparr>cl_params = ps, cl_args = (if ''request'' \<in> pm_name ` set ps then [A_request] else []),
              cl_kwargs = injected r ps\<rparr>, r)"
proof -
  have "distinct (map fst (injected r ps))"
    using assms(2) unfolding injected_names by (simp add: distinct_map_filter)
  then have "dict_merge [] (injected r ps) = injected r ps" by (rule dict_merge_fresh)
  then show ?thesis
    using collect_injected_settled [OF assms(1), of call ps]
    by (simp add: call_handler_def inject_middleware_def new_callable_def signature_params_def
        partial_kwargs_def add_request_middleware_def partial_arg_def)
qed

section \<open>Properties\<close>

text \<open>A handler whose first parameter is the request, and whose other parameters are annotated with
  names of the scope or have defaults, is called with the request and, for every annotated parameter,
  the value that the scope has under its name.\<close>

theorem handler_arguments:
  assumes "all_settled r" and "distinct (map pm_name (p # ps))" and "pm_name p = ''request''"
    and "pm_inject p = None" and "list_all (\<lambda>q. pm_inject q \<noteq> None \<or> pm_default q) ps"
  shows "call_handler call (p # ps) r = (Inr ((''request'', A_request) # injected r ps), r)"
proof -
  have inj: "injected r (p # ps) = injected r ps" using assms(4) by (simp add: injected_def)
  have names: "fst ` set (injected r ps) = pm_name ` {q \<in> set ps. pm_inject q \<noteq> None}"
    using arg_cong [OF injected_names [of r ps], of set] by simp
  have mem: "k \<in> pm_name ` set ps \<and> k \<noteq> ''request''" if "k \<in> fst ` set (injected r ps)" for k
  proof -
    from that obtain q where q: "q \<in> set ps" "k = pm_name q" unfolding names by blast
    then have "pm_name q \<in> pm_name ` set ps" by simp
    with q(2) assms(2,3) show ?thesis by auto
  qed
  have "\<not> list_ex (\<lambda>k. k \<in> {''request''} \<or> k \<notin> insert ''request'' (pm_name ` set ps)) (map fst (injected r ps))"
    unfolding list_ex_iff set_map using mem by blast
  moreover have "\<not> list_ex (\<lambda>q. \<not> pm_default q \<and> pm_name q \<notin> insert ''request'' (fst ` set (injected r ps))) ps"
    using assms(5) names by (auto simp: list_ex_iff list_all_iff)
  ultimately show ?thesis
    unfolding call_handler_eq [OF assms(1,2)] inj using assms(3) by (simp add: py_call_def Let_def)
qed

theorem handler_arguments_witness:
  "call_handler (\<lambda>f r. (Inl KeyError, r))
     [\<lparr>pm_name = ''request'', pm_inject = None, pm_default = False\<rparr>,
      \<lparr>pm_name = ''user'', pm_inject = Some ''name'', pm_default = False\<rparr>]
     ((new_request ''/'' ''GET'' None [] [] 0 [])\<lparr>rq_scope := [(''name'', Plain (PBytes ''ann''))]\<rparr>) =
   (Inr [(''request'', A_request), (''user'', A_value (PBytes ''ann''))],
    (new_request ''/'' ''GET'' None [] [] 0 [])\<lparr>rq_scope := [(''name'', Plain (PBytes ''ann''))]\<rparr>)"
  using handler_arguments [of "(new_request ''/'' ''GET'' None [] [] 0 [])\<lparr>rq_scope := [(''name'', Plain (PBytes ''ann''))]\<rparr>"
      "\<lparr>pm_name = ''request'', pm_inject = None, pm_default = False\<rparr>"
      "[\<lparr>pm_name = ''user'', pm_inject = Some ''name'', pm_default = False\<rparr>]" "\<lambda>f r. (Inl KeyError, r)"]
  by (simp add: all_settled_def look_scope_def injected_def)

text \<open>A handler with a parameter \<open>request\<close> that is not its first one cannot be called: the request
  is bound to the first parameter, whatever its name, and the call is a type error.\<close>

theorem request_must_be_first:
  assumes "all_settled r" and "distinct (map pm_name (p # ps))" and "q \<in> set ps"
    and "pm_name q = ''request''" and "pm_inject q = None" and "\<not> pm_default q"
  shows "fst (call_handler call (p # ps) r) = Inl TypeError"
proof -
  have "''request'' \<notin> set (map fst (injected r (p # ps)))"
  proof
    assume "''request'' \<in> set (map fst (injected r (p # ps)))"
    then have "''request'' \<in> pm_name ` {q' \<in> set (p # ps). pm_inject q' \<noteq> None}"
      by (simp only: injected_names set_map set_filter)
    then obtain q' where q': "''request'' = pm_name q'" "q' \<in> {q' \<in> set (p # ps). pm_inject q' \<noteq> None}"
      by (rule imageE)
    from q'(2) have "q' \<in> set (p # ps)" "pm_inject q' \<noteq> None" unfolding mem_Collect_eq by blast+
    moreover have "q \<in> set (p # ps)" using assms(3) by simp
    moreover have "inj_on pm_name (set (p # ps))" using assms(2) unfolding distinct_map by (rule conjunct2)
    moreover have "pm_name q' = pm_name q" using q'(1) assms(4) by simp
    ultimately have "q' = q" by (metis inj_onD)
    with \<open>pm_inject q' \<noteq> None\<close> assms(5) show False by simp
  qed
  moreover have "pm_name q \<in> pm_name ` set ps" using assms(3) by simp
  then have "pm_name p \<noteq> ''request''" using assms(2,4) by auto
  ultimately have "list_ex (\<lambda>p'. \<not> pm_default p' \<and>
      pm_name p' \<notin> insert (pm_name p) (fst ` set (injected r (p # ps)))) (p # ps)"
    unfolding list_ex_iff set_map using assms(3,4,6)
    by (intro bexI [of _ q] conjI) (simp_all only: insert_iff list.set simp_thms, simp_all)
  moreover have "''request'' \<in> pm_name ` set (p # ps)" using assms(3,4) by force
  ultimately show ?thesis
    unfolding call_handler_eq [OF assms(1,2)] by (simp add: py_call_def Let_def)
qed

theorem request_must_be_first_witness:
  "fst (call_handler (\<lambda>f r. (Inl KeyError, r))
     [\<lparr>pm_name = ''user'', pm_inject = Some ''name'', pm_default = False\<rparr>,
      \<lparr>pm_name = ''request'', pm_inject = None, pm_default = False\<rparr>]
     (new_request ''/'' ''GET'' None [] [] 0 [])) = Inl TypeError"
  by (rule request_must_be_first [where q = "\<lparr>pm_name = ''request'', pm_inject = None, pm_default = False\<rparr>"])
    (simp_all add: all_settled_def look_scope_def new_request_def)

end
