(* ===== verification/Executors.thy ===== *)
theory Executors
  imports Inject Component
begin

text \<open>
  \<^verbatim>\<open>levin/components/concurrent.py\<close>: where a handler runs. \<open>SyncToAsync\<close> wraps it to run in a
  thread pool, \<open>RunProcess\<close> in a process pool; the wrapper is a coroutine function. The pools
  themselves belong to the standard library; the model has which wrappers a handler gets, and the
  classes of the components, because what they define decides what can be configured.
\<close>

section \<open>Handlers\<close>

datatype pool = ThreadPool | ProcessPool

text \<open>What the chain passes on as the handler: a handler, the wrapper of a pool or of the profiler, or a
  \<open>functools.partial\<close> of one of these with arguments.\<close>

datatype 'h runner =
    Plain_handler 'h
  | In_pool pool "'h runner"
  | Profiled "'h runner"
  | Partial "call_arg list" "(name \<times> call_arg) list" "'h runner"

text \<open>\<open>asyncio.iscoroutinefunction\<close>: of the bare handlers, \<open>is_coro\<close> tells; the wrapper of the
  profiler (\<^verbatim>\<open>SimpleProfile.trace\<close>) is a coroutine function exactly if what it wraps is one, and a
  \<open>partial\<close> (since Python 3.8) if its function is one.\<close>

fun coroutine_handler :: "('h \<Rightarrow> bool) \<Rightarrow> 'h runner \<Rightarrow> bool" where
  "coroutine_handler is_coro (Plain_handler h) = is_coro h"
| "coroutine_handler is_coro (In_pool p h) = True"
| "coroutine_handler is_coro (Profiled h) = coroutine_handler is_coro h"
| "coroutine_handler is_coro (Partial args kwargs h) = coroutine_handler is_coro h"

section \<open>Middlewares\<close>

type_synonym 'h exec_condition = "request \<Rightarrow> 'h runner \<Rightarrow> bool result \<times> request"

text \<open>\<open>request.get("process", False)\<close>, as a condition.\<close>

definition process_condition :: "lazy_call \<Rightarrow> 'h exec_condition" where
  "process_condition call r h =
     (case rq_get call ''process'' (PBool False) r of (res, r') \<Rightarrow> (map_sum id truthy res, r'))"

definition sync_condition :: "('h \<Rightarrow> bool) \<Rightarrow> lazy_call \<Rightarrow> 'h exec_condition" where
  "sync_condition is_coro call r h =
     (if coroutine_handler is_coro h then (Inr False, r)
      else (case rq_get call ''process'' (PBool False) r of
              (res, r') \<Rightarrow> (map_sum id (\<lambda>v. \<not> truthy v) res, r')))"

definition executor_middleware ::
  "pool \<Rightarrow> 'h exec_condition \<Rightarrow> ('h runner \<Rightarrow> request \<Rightarrow> 'a result \<times> request) \<Rightarrow>
   'h runner \<Rightarrow> request \<Rightarrow> 'a result \<times> request" where
  "executor_middleware pool condition call_next h r =
     (case condition r h of
        (Inl e, r') \<Rightarrow> (Inl e, r')
      | (Inr wrap, r') \<Rightarrow> call_next (if wrap then In_pool pool h else h) r')"

text \<open>\<open>RunProcess\<close> and then \<open>SyncToAsync\<close>, the order of the default application.\<close>

definition run_process ::
  "lazy_call \<Rightarrow> ('h runner \<Rightarrow> request \<Rightarrow> 'a result \<times> request) \<Rightarrow> 'h runner \<Rightarrow> request \<Rightarrow>
   'a result \<times> request" where
  "run_process call = executor_middleware ProcessPool (process_condition call)"

definition sync_to_async ::
  "('h \<Rightarrow> bool) \<Rightarrow> lazy_call \<Rightarrow> ('h runner \<Rightarrow> request \<Rightarrow> 'a result \<times> request) \<Rightarrow> 'h runner \<Rightarrow> request \<Rightarrow>
   'a result \<times> request" where
  "sync_to_async is_coro call = executor_middleware ThreadPool (sync_condition is_coro call)"

section \<open>The classes\<close>

text \<open>\<open>vars(cls)\<close> of the two classes: \<open>max_workers\<close> is an attribute of their base class only.\<close>

definition sync_to_async_vars :: "(name \<times> class_attr) list" where
  "sync_to_async_vars =
     [(''__module__'', AValue (PStr [])), (''name'', AValue (PStr [])),
      (''executor_kwargs'', AValue (PDict [])), (''condition'', AValue (PObj ''staticmethod'' 0)),
      (''__doc__'', AValue PNone)]"

definition run_process_vars :: "(name \<times> class_attr) list" where
  "run_process_vars =
     [(''__module__'', AValue (PStr [])), (''name'', AValue (PStr [])),
      (''executor_class'', AValue (PObj ''class'' 0)), (''condition'', AValue (PObj ''staticmethod'' 0)),
      (''__doc__'', AValue PNone)]"

definition executor_component :: "nat \<Rightarrow> name \<Rightarrow> (name \<times> class_attr) list \<Rightarrow> component" where
  "executor_component ident name vars =
     \<lparr>co_id = ident, co_name = name, co_vars = vars, co_enable_default = True, co_dict = [],
      co_middleware = Some ident\<rparr>"

section \<open>Properties\<close>

text \<open>The value that decides, when it is settled.\<close>

definition wants_process :: "request \<Rightarrow> bool" where
  "wants_process r = (case look_scope r ''process'' of Some (Plain v) \<Rightarrow> truthy v | _ \<Rightarrow> False)"

definition settled :: "request \<Rightarrow> name \<Rightarrow> bool" where
  "settled r k = (case look_scope r k of Some (Lazy f) \<Rightarrow> False | _ \<Rightarrow> True)"

text \<open>Every handler runs in exactly one place: in the process pool exactly if the route asks for
  it, otherwise in the thread pool if it is a plain function, and on the loop if it is a coroutine
  function; the request is not changed by the decision.\<close>

theorem handler_runs_once:
  assumes "settled r ''process''"
  shows "run_process call (sync_to_async is_coro call next) (Plain_handler h) r =
    next (if wants_process r then In_pool ProcessPool (Plain_handler h)
          else if is_coro h then Plain_handler h else In_pool ThreadPool (Plain_handler h)) r"
proof -
  have "rq_get call ''process'' (PBool False) r =
      (Inr (case look_scope r ''process'' of Some (Plain v) \<Rightarrow> v | _ \<Rightarrow> PBool False), r)"
    using assms by (auto simp: settled_def rq_get_simps split: option.splits attr.splits)
  then show ?thesis
    by (auto simp: run_process_def sync_to_async_def executor_middleware_def process_condition_def
        sync_condition_def wants_process_def split: option.splits attr.splits)
qed

theorem handler_runs_once_witness:
  "run_process (\<lambda>f r. (Inl KeyError, r)) (sync_to_async (\<lambda>h. False) (\<lambda>f r. (Inl KeyError, r)) (\<lambda>h r. (Inr h, r)))
     (Plain_handler (1 :: nat))
     ((new_request ''/a'' ''GET'' None [] [] 0 [])\<lparr>rq_scope := [(''process'', Plain (PBool True))]\<rparr>) =
   (Inr (In_pool ProcessPool (Plain_handler 1)),
    (new_request ''/a'' ''GET'' None [] [] 0 [])\<lparr>rq_scope := [(''process'', Plain (PBool True))]\<rparr>)"
  using handler_runs_once [of "(new_request ''/a'' ''GET'' None [] [] 0 [])\<lparr>rq_scope := [(''process'', Plain (PBool True))]\<rparr>"
      "\<lambda>f r. (Inl KeyError, r)" "\<lambda>h. False" "\<lambda>h r. (Inr h, r)" "1 :: nat"]
  by (simp add: settled_def look_scope_def wants_process_def)

text \<open>The number of workers cannot be configured: \<open>configure\<close> looks at the attributes that the
  class itself defines, and \<open>max_workers\<close> is inherited, so a value given for it is ignored.\<close>

theorem max_workers_ignored:
  assumes "vars = run_process_vars \<or> vars = sync_to_async_vars"
  shows "map_of (co_dict (configure kwargs (executor_component ident name vars))) ''max_workers'' = None"
proof -
  have "distinct (map fst (co_vars (executor_component ident name vars)))"
    "''max_workers'' \<notin> set (get_configure_params (executor_component ident name vars))"
    "co_dict (executor_component ident name vars) = []"
    using assms
    by (auto simp: executor_component_def run_process_vars_def sync_to_async_vars_def
        get_configure_params_def)
  then show ?thesis by (simp add: lookup_configure)
qed

theorem max_workers_ignored_witness:
  "map_of (co_dict (configure [(''max_workers'', Value (PInt 1))]
     (executor_component 7 ''process_executor'' run_process_vars))) ''max_workers'' = None"
  by (rule max_workers_ignored) simp

end
