(* ===== verification/Pipeline.thy ===== *)
theory Pipeline
  imports Patch Pushes Observe Limits Executors Inject Router
begin

text \<open>
  \<^verbatim>\<open>levin/app.py\<close>: the default application, that is, the order of the default components, as one
  function from a request to a reply: \<open>PatchRequest\<close>, \<open>Push\<close>, \<open>LoggerComponent\<close>, \<open>ErrorHandle\<close>,
  \<open>TimeLimit\<close>, \<open>HttpRouter\<close>, \<open>RunProcess\<close>, \<open>ProfileHandler\<close>, \<open>SyncToAsync\<close>, \<open>JsonFormat\<close>,
  \<open>TextFormat\<close>, \<open>TemplateFormat\<close>, \<open>InjectFromScope\<close>, \<open>AddRequest\<close> and the handler.
\<close>

section \<open>Calling the handler\<close>

text \<open>Calling what the chain passed on. The wrapper of a pool has one parameter, \<open>request\<close>, with which it calls
  its function in the pool; a process works on a copy of the request. The wrapper of the profiler passes all its
  arguments on, and a \<open>partial\<close> its own before those of the call. What a plain function returns on the loop is
  taken as its reply; in the default chain plain functions run in a pool.\<close>

definition wrapper_params :: "param list" where
  "wrapper_params = [\<lparr>pm_name = ''request'', pm_inject = None, pm_default = False\<rparr>]"

primrec run_call ::
  "('h \<Rightarrow> param list) \<Rightarrow> ('h \<Rightarrow> (name \<times> call_arg) list \<Rightarrow> request \<Rightarrow> reply result \<times> request) \<Rightarrow>
   'h runner \<Rightarrow> call_arg list \<Rightarrow> (name \<times> call_arg) list \<Rightarrow> request \<Rightarrow> reply result \<times> request" where
  "run_call params body (Plain_handler h) given kw r =
     (case py_call \<lparr>cl_params = params h, cl_args = given, cl_kwargs = kw\<rparr> of
        Inl e \<Rightarrow> (Inl e, r)
      | Inr env \<Rightarrow> body h env r)"
| "run_call params body (In_pool p h) given kw r =
     (case py_call \<lparr>cl_params = wrapper_params, cl_args = given, cl_kwargs = kw\<rparr> of
        Inl e \<Rightarrow> (Inl e, r)
      | Inr env \<Rightarrow>
          (case run_call params body h (map snd env) [] r of
             (res, r') \<Rightarrow> (res, if p = ProcessPool then r else r')))"
| "run_call params body (Profiled h) given kw r = run_call params body h given kw r"
| "run_call params body (Partial own named h) given kw r =
     run_call params body h (own @ given) (dict_merge named kw) r"

text \<open>With the request as its only argument, as a pool calls a handler, and without arguments.\<close>

definition invoke ::
  "('h \<Rightarrow> param list) \<Rightarrow> ('h \<Rightarrow> (name \<times> call_arg) list \<Rightarrow> request \<Rightarrow> reply result \<times> request) \<Rightarrow>
   'h runner \<Rightarrow> request \<Rightarrow> reply result \<times> request" where
  "invoke params body h r = run_call params body h [A_request] [] r"

definition invoke_bare ::
  "('h \<Rightarrow> param list) \<Rightarrow> ('h \<Rightarrow> (name \<times> call_arg) list \<Rightarrow> request \<Rightarrow> reply result \<times> request) \<Rightarrow>
   'h runner \<Rightarrow> request \<Rightarrow> reply result \<times> request" where
  "invoke_bare params body h r = run_call params body h [] [] r"

text \<open>What \<open>inspect.signature\<close> sees, and what \<open>partial\<close> was given: the only parameter of the wrapper of a pool is
  \<open>request\<close>; those of the profiler's wrapper are \<open>*args\<close> and \<open>**kwargs\<close>, which no annotation and no name tells
  from none. \<open>partial\<close> of a \<open>partial\<close> is one \<open>partial\<close>.\<close>

fun callable_of :: "('h \<Rightarrow> param list) \<Rightarrow> 'h runner \<Rightarrow> callable" where
  "callable_of params (Plain_handler h) = new_callable (params h)"
| "callable_of params (In_pool p h) = new_callable wrapper_params"
| "callable_of params (Profiled h) = new_callable []"
| "callable_of params (Partial own named h) =
     (let c = callable_of params h
      in c\<lparr>cl_args := cl_args c @ own, cl_kwargs := dict_merge (cl_kwargs c) named\<rparr>)"

fun bare :: "'h runner \<Rightarrow> 'h runner" where
  "bare (Partial own named h) = bare h"
| "bare h = h"

definition with_arguments :: "callable \<Rightarrow> 'h runner \<Rightarrow> 'h runner" where
  "with_arguments c h =
     (if cl_args c = [] \<and> cl_kwargs c = [] then bare h else Partial (cl_args c) (cl_kwargs c) (bare h))"

text \<open>\<open>InjectFromScope\<close> and \<open>AddRequest\<close> in the chain, and its end, \<open>_call_next\<close>, which calls the handler.\<close>

definition inject_runner ::
  "lazy_call \<Rightarrow> ('h \<Rightarrow> param list) \<Rightarrow> 'h runner handler_chain \<Rightarrow> 'h runner handler_chain" where
  "inject_runner call params call_next h =
     inject_middleware call (\<lambda>c. call_next (with_arguments c h)) (callable_of params h)"

definition add_request_runner ::
  "('h \<Rightarrow> param list) \<Rightarrow> 'h runner handler_chain \<Rightarrow> 'h runner handler_chain" where
  "add_request_runner params call_next h =
     add_request_middleware (\<lambda>c. call_next (with_arguments c h)) (callable_of params h)"

definition end_of_chain ::
  "('h \<Rightarrow> param list) \<Rightarrow> ('h \<Rightarrow> (name \<times> call_arg) list \<Rightarrow> request \<Rightarrow> reply result \<times> request) \<Rightarrow>
   'h runner handler_chain" where
  "end_of_chain params body h r = invoke_bare params body h r"

definition run_handler ::
  "lazy_call \<Rightarrow> ('h \<Rightarrow> param list) \<Rightarrow>
   ('h \<Rightarrow> (name \<times> call_arg) list \<Rightarrow> request \<Rightarrow> reply result \<times> request) \<Rightarrow> 'h runner handler_chain" where
  "run_handler call params body = inject_runner call params (add_request_runner params (end_of_chain params body))"

lemma invoke_simps [simp]:
  "invoke params body (Plain_handler f) r =
     (case py_call (partial_arg A_request (new_callable (params f))) of
        Inl e \<Rightarrow> (Inl e, r)
      | Inr env \<Rightarrow> body f env r)"
  "invoke params body (In_pool p h) r =
     (case invoke params body h r of (res, r') \<Rightarrow> (res, if p = ProcessPool then r else r'))"
  "invoke params body (Profiled h) r = invoke params body h r"
  by (simp_all add: invoke_def partial_arg_def new_callable_def wrapper_params_def py_call_def)

lemma invoke_bare_simps [simp]:
  "invoke_bare params body (Plain_handler f) r =
     (case py_call (new_callable (params f)) of
        Inl e \<Rightarrow> (Inl e, r)
      | Inr env \<Rightarrow> body f env r)"
  "invoke_bare params body (In_pool p h) r = (Inl TypeError, r)"
  "invoke_bare params body (Profiled h) r = invoke_bare params body h r"
  by (simp_all add: invoke_bare_def new_callable_def wrapper_params_def py_call_def)

text \<open>A bare handler is called with what its signature asks for. A wrapper hides the signature: that of a pool
  gets the request, and that of the profiler nothing.\<close>

lemma bare_bare [simp]: "bare (bare h) = bare h"
  by (induction h) simp_all

lemma bare_with_arguments [simp]: "bare (with_arguments c h) = bare h"
  by (simp add: with_arguments_def)

lemma run_with_arguments:
  "run_call params body (with_arguments c h) [] [] r = run_call params body (bare h) (cl_args c) (cl_kwargs c) r"
  by (simp add: with_arguments_def)

lemma callable_of_with_arguments:
  assumes "cl_params c = params f" and "distinct (map fst (cl_kwargs c))"
  shows "callable_of params (with_arguments c (Plain_handler f)) = c"
  using assms by (simp add: with_arguments_def new_callable_def dict_merge_fresh Let_def)

lemma end_of_plain:
  assumes "cl_params c = params f"
  shows "end_of_chain params body (with_arguments c h) r =
    (case bare h of
       Plain_handler g \<Rightarrow>
         if g = f then (case py_call c of Inl e \<Rightarrow> (Inl e, r) | Inr env \<Rightarrow> body f env r)
         else end_of_chain params body (with_arguments c h) r
     | _ \<Rightarrow> end_of_chain params body (with_arguments c h) r)"
proof -
  have "\<lparr>cl_params = params f, cl_args = cl_args c, cl_kwargs = cl_kwargs c\<rparr> = c" using assms by simp
  then show ?thesis by (auto simp: end_of_chain_def invoke_bare_def run_with_arguments split: runner.split)
qed

lemma add_request_plain:
  assumes "cl_params c = params f" and "distinct (map fst (cl_kwargs c))"
  shows "add_request_runner params (end_of_chain params body) (with_arguments c (Plain_handler f)) r =
    (case add_request_middleware (\<lambda>c r. (py_call c, r)) c r of
       (Inl e, r') \<Rightarrow> (Inl e, r')
     | (Inr env, r') \<Rightarrow> body f env r')"
  using assms
  by (auto simp: add_request_runner_def callable_of_with_arguments add_request_middleware_def partial_arg_def end_of_plain
      split: sum.split)

lemma run_handler_plain:
  "run_handler call params body (Plain_handler f) r =
     (case call_handler call (params f) r of
        (Inl e, r') \<Rightarrow> (Inl e, r')
      | (Inr env, r') \<Rightarrow> body f env r')"
proof -
  have plain: "with_arguments (new_callable ps) (Plain_handler f) = Plain_handler f" for ps
    by (simp add: with_arguments_def new_callable_def)
  have merged: "partial_kwargs kw (new_callable (params f)) =
      \<lparr>cl_params = params f, cl_args = [], cl_kwargs = dict_merge [] kw\<rparr>" for kw
    by (simp add: partial_kwargs_def new_callable_def)
  have new: "add_request_runner params (end_of_chain params body) (Plain_handler f) r' =
      (case add_request_middleware (\<lambda>c r. (py_call c, r)) (new_callable (params f)) r' of
         (Inl e, r') \<Rightarrow> (Inl e, r')
       | (Inr env, r') \<Rightarrow> body f env r')" for r'
    using add_request_plain [of "new_callable (params f)" params f body r'] plain
    by (simp add: new_callable_def)
  show ?thesis
    by (simp add: run_handler_def inject_runner_def call_handler_def inject_middleware_def merged add_request_plain plain new
        split: sum.split prod.split)
qed

lemma run_handler_pool: "run_handler call params body (In_pool p f) r = invoke params body (In_pool p f) r"
  by (simp add: run_handler_def inject_runner_def add_request_runner_def end_of_chain_def invoke_bare_def invoke_def
      inject_middleware_def add_request_middleware_def signature_params_def with_arguments_def partial_arg_def
      new_callable_def wrapper_params_def py_call_def)

lemma run_handler_profiled: "run_handler call params body (Profiled f) r = invoke_bare params body f r"
  by (simp add: run_handler_def inject_runner_def add_request_runner_def end_of_chain_def invoke_bare_def
      inject_middleware_def add_request_middleware_def signature_params_def with_arguments_def new_callable_def)

lemmas run_handler_eqs = run_handler_plain run_handler_pool run_handler_profiled

section \<open>The chain\<close>

record 'h app_setup =
  su_call :: lazy_call
  su_router :: "'h router"
  su_is_coro :: "'h \<Rightarrow> bool"
  su_params :: "'h \<Rightarrow> param list"
  su_body :: "'h \<Rightarrow> (name \<times> call_arg) list \<Rightarrow> request \<Rightarrow> reply result \<times> request"
  su_on_error :: "request \<Rightarrow> exn \<Rightarrow> reply result \<times> request"
  su_timeout :: nat
  su_json :: json_config
  su_template :: template_config
  su_templates :: templates
  su_format :: "pystr \<Rightarrow> kwargs \<Rightarrow> pystr result"
  su_str :: "attr \<Rightarrow> pystr"

text \<open>What happens to one request besides: how long the chain below the timer takes, when the request
  is cancelled from outside, what the cancelled chain leaves, whether the request is profiled and
  what its profile condition answers.\<close>

record run_facts =
  rf_duration :: nat
  rf_outer :: "nat option"
  rf_cancelled :: "request \<Rightarrow> reply result \<times> request"
  rf_profiled :: bool
  rf_slow :: "pyval \<Rightarrow> bool result"

definition formatters :: "'h app_setup \<Rightarrow> 'h runner handler_chain \<Rightarrow> 'h runner handler_chain" where
  "formatters su call_next =
     json_middleware (su_json su) (su_call su)
       (text_middleware ''text/html'' (su_call su)
         (template_middleware (su_template su) (su_templates su) (su_call su) call_next))"

definition executors :: "'h app_setup \<Rightarrow> run_facts \<Rightarrow> 'h runner handler_chain \<Rightarrow> 'h runner handler_chain" where
  "executors su rf call_next =
     run_process (su_call su)
       (profile_middleware (su_call su) (rf_profiled rf) (rf_slow rf) Profiled
         (sync_to_async (su_is_coro su) (su_call su) call_next))"

definition routed :: "'h app_setup \<Rightarrow> run_facts \<Rightarrow> 'h handler_chain" where
  "routed su rf h =
     router_middleware (su_call su) 0 (su_router su)
       (\<lambda>handler. executors su rf
          (formatters su (run_handler (su_call su) (su_params su) (su_body su))) (Plain_handler handler))"

definition timed :: "'h app_setup \<Rightarrow> run_facts \<Rightarrow> 'h handler_chain" where
  "timed su rf =
     time_limit_middleware (su_timeout su) (rf_outer rf)
       (\<lambda>h r. \<lparr>tk_duration = rf_duration rf, tk_natural = routed su rf h r, tk_cancelled = rf_cancelled rf r\<rparr>)"

definition default_app :: "'h app_setup \<Rightarrow> run_facts \<Rightarrow> 'h handler_chain" where
  "default_app su rf =
     patch_middleware
       (push_middleware (su_format su) (su_str su) (su_call su)
         (logger_middleware (su_call su) 0
           (error_middleware (su_on_error su) (timed su rf))))"

section \<open>Lemmas\<close>

lemma timed_in_time:
  assumes "rf_duration rf \<le> su_timeout su" and "rf_outer rf = None"
    and "fst (routed su rf h r) \<noteq> Inl CancelledError"
  shows "timed su rf h r = routed su rf h r"
proof -
  obtain res r' where "routed su rf h r = (res, r')" by (cases "routed su rf h r")
  with assms show ?thesis
    by (auto simp: timed_def time_limit_middleware_def cut_short_def Let_def split: sum.split)
qed

text \<open>The scope keys that the chain reads, and the state of a request that went through the outer
  components.\<close>

definition entered :: "request \<Rightarrow> request" where
  "entered r =
     rq_set ''logger'' (Plain (PObj ''logger'' 0)) False
       (rq_set ''add_push'' (Lazy F_create_add_push) False (put_all rq_set patch_attrs r))"

lemma entered_all: "entered r = put_all rq_set
    (patch_attrs @ [(''add_push'', Lazy F_create_add_push), (''logger'', Plain (PObj ''logger'' 0))]) r"
  by (simp add: entered_def put_all_def patch_attrs_def)

lemma entered_scope:
  "look_scope (entered r) k =
     (case look_scope r k of Some a \<Rightarrow> Some a
      | None \<Rightarrow> map_of (patch_attrs @ [(''add_push'', Lazy F_create_add_push),
                                      (''logger'', Plain (PObj ''logger'' 0))]) k)"
  unfolding entered_all by (rule scope.look_put_all)

lemma default_app_eq:
  "default_app su rf h r =
     push_middleware (su_format su) (su_str su) (su_call su)
       (logger_middleware (su_call su) 0 (error_middleware (su_on_error su) (timed su rf))) h
       (put_all rq_set patch_attrs r)"
  by (simp add: default_app_def patch_middleware_def)


text \<open>A request on which the chain will find no option set before routing.\<close>

definition chain_keys :: "name list" where
  "chain_keys =
     [''process'', ''template'', ''status'', ''push'', ''_pushes'', ''depth'', ''profile_condition'']"

definition fresh_request :: "request \<Rightarrow> bool" where
  "fresh_request r \<longleftrightarrow>
     list_all (\<lambda>k. look_scope r k = None) (chain_keys @ [''path'', ''query_params'']) \<and>
     look_scope r ''get_transport_info'' = Some (Lazy F_get_transport_info)"

lemma routed_request:
  assumes "look_scope r ''path'' = Some (Lazy F_path)" and "look_scope r ''query_params'' \<noteq> None"
    and "CHR ''?'' \<in> set (rq_raw_path r) \<Longrightarrow> plain_target (rq_raw_path r)"
    and "pc_parse_url cfg = url_parse ext" and "\<And>q. pc_parse_query cfg q \<in> range Inr"
    and "table_answer rt (rq_method r) (takeWhile (\<lambda>c. c \<noteq> CHR ''?'') (rq_raw_path r)) = (h, data)"
  shows "\<exists>r'. router_middleware (patch_call (Suc n) cfg other) rid rt call_next r = call_next h r' \<and>
    rq_method r' = rq_method r \<and> rq_raw_path r' = rq_raw_path r \<and> rq_protocol r' = rq_protocol r \<and>
    (\<forall>k. k \<noteq> ''path'' \<longrightarrow> look_scope r' k =
      (case look_scope r k of Some a \<Rightarrow> Some a
       | None \<Rightarrow> map_of ([(''get_url'', Plain (PObj ''url'' rid)),
                          (''get_route'', Plain (PObj ''_resolve'' rid))] @
                         map (\<lambda>(k, v). (k, Plain v)) data) k))"
proof -
  let ?call = "patch_call (Suc n) cfg other"
  let ?sets = "[(''get_url'', Plain (PObj ''url'' rid)), (''get_route'', Plain (PObj ''_resolve'' rid))]"
  let ?r1 = "put_all rq_set ?sets r" and ?data = "map (\<lambda>(k, v). (k, Plain v)) data"
  let ?p = "takeWhile (\<lambda>c. c \<noteq> CHR ''?'') (rq_raw_path r)"
  let ?r2 = "?r1\<lparr>rq_scope := AList.update ''path'' (Plain (PBytes ?p)) (rq_scope ?r1)\<rparr>"
  have keys: "look_scope ?r1 ''path'' = Some (Lazy F_path)" "look_scope ?r1 ''query_params'' \<noteq> None"
    using assms(1,2) by (auto simp: scope.look_put_all simp del: put_all_Cons)
  have path: "rq_path ?call ?r1 = (Inr (PBytes ?p), ?r2)"
    using lazy_path_read [OF keys, of cfg ext n other] assms(3-5) by simp
  have "rq_method ?r2 = rq_method ?r1" "rq_raw_path ?r2 = rq_raw_path ?r1" by simp_all
  from router_resolve_eq [OF path this, of rt] assms(6)
  obtain r3 where r3: "router_resolve ?call rt ?r1 = (Inr (h, data), r3)" "r3 = ?r1 \<or> r3 = ?r2" by auto
  then have "router_middleware ?call rid rt call_next r = call_next h (put_all rq_set ?data r3)"
    by (simp add: router_middleware_def)
  moreover have "look_scope (put_all rq_set ?data r3) k =
      (case look_scope r k of Some a \<Rightarrow> Some a | None \<Rightarrow> map_of (?sets @ ?data) k)"
    if "k \<noteq> ''path''" for k
  proof -
    have "look_scope r3 k = look_scope ?r1 k" using r3(2) that by auto
    then show ?thesis
      by (simp add: scope.look_put_all map_add_def split: option.split del: put_all_Cons)
  qed
  moreover have "rq_method r3 = rq_method r" "rq_raw_path r3 = rq_raw_path r" "rq_protocol r3 = rq_protocol r"
    using r3(2) by auto
  ultimately show ?thesis by (intro exI [of _ "put_all rq_set ?data r3"]) simp
qed

lemma rq_get_settled:
  assumes "look_scope r k = map_option Plain v"
  shows "rq_get call k d r = (Inr (case v of None \<Rightarrow> d | Some w \<Rightarrow> w), r)"
  using assms by (cases v) (simp_all add: rq_get_simps)

lemma executors_coroutine:
  assumes "look_scope r ''process'' = None" and "su_is_coro su h" and "\<not> rf_profiled rf"
    and "\<And>v. rf_slow rf v = Inr False" and "call_next (Plain_handler h) r = (res, r1)"
    and "look_scope r1 ''profile_condition'' = map_option Plain v"
  shows "executors su rf call_next (Plain_handler h) r = (res, r1)"
proof -
  have "rq_get (su_call su) ''process'' (PBool False) r = (Inr (PBool False), r)"
    using assms(1) by (rule rq_get_missing)
  moreover have "sync_to_async (su_is_coro su) (su_call su) call_next (Plain_handler h) r = (res, r1)"
    using assms(2,5) by (simp add: sync_to_async_def executor_middleware_def sync_condition_def)
  then have "profile_middleware (su_call su) False (rf_slow rf) Profiled
      (sync_to_async (su_is_coro su) (su_call su) call_next) (Plain_handler h) r = (res, r1)"
    using assms(4) rq_get_settled [OF assms(6)] by (intro profile_quiet) simp_all
  ultimately show ?thesis
    using assms(3)
    by (simp add: executors_def run_process_def executor_middleware_def process_condition_def)
qed

lemma formatters_json:
  assumes "look_scope r ''template'' = None" and "su_json su = default_json"
    and "call_next h r = (Inr (R_value v), r)" and "is_container v" and "json_value True v = Inr s"
    and "rq_get (su_call su) ''status'' (PInt 200) r = (Inr (PInt i), r)"
  shows "formatters su call_next h r =
    (Inr (R_response (new_response i (map char_of s) (Some [(''content-type'', ''application/json'')]) [] False)), r)"
proof -
  have "template_middleware (su_template su) (su_templates su) (su_call su) call_next h r = (Inr (R_value v), r)"
    using assms(1,3,4) by (cases v) (simp_all add: template_middleware_def rq_get_missing)
  then have "text_middleware ''text/html'' (su_call su)
      (template_middleware (su_template su) (su_templates su) (su_call su) call_next) h r = (Inr (R_value v), r)"
    using assms(4) by (cases v) (simp_all add: text_middleware_def)
  then show ?thesis
    unfolding formatters_def assms(2) by (rule json_reply_lemma) (rule assms)+
qed

lemma formatters_error:
  assumes "look_scope r ''template'' = None" and "call_next h r = (Inl e, r1)"
  shows "formatters su call_next h r = (Inl e, r1)"
  using assms
  by (simp add: formatters_def json_middleware_def text_middleware_def template_middleware_def rq_get_missing)

lemma request_only_handler:
  assumes "params h = [\<lparr>pm_name = ''request'', pm_inject = None, pm_default = d\<rparr>]"
  shows "run_handler call params body (Plain_handler h) r = body h [(''request'', A_request)] r"
  using assms
  by (simp add: run_handler_plain call_handler_def inject_middleware_def new_callable_def
      signature_params_def add_request_middleware_def partial_arg_def py_call_def Let_def)

lemma logger_passes:
  assumes "call_next h (rq_set ''logger'' (Plain (PObj ''logger'' lid)) False r) = (Inr (R_response resp), r1)"
    and "ascii (rq_method r1)" "ascii (rq_raw_path r1)" "ascii (rq_protocol r1)"
    and "rq_getattr call ''get_transport_info'' r1 = (Inr info, r2)"
  shows "logger_middleware call lid call_next h r = (Inr (R_response resp), r2)"
  using assms by (simp add: logger_middleware_def log_record_of_def decode_all_def)

lemma push_passes:
  assumes "call_next h (rq_set ''add_push'' (Lazy F_create_add_push) False r) = (Inr rep, r1)"
    and "look_scope r1 ''_pushes'' = None" "look_scope r1 ''push'' = None"
  shows "push_middleware ext str call call_next h r = (Inr rep, r1)"
  using assms by (simp add: push_middleware_def rq_get_missing)

section \<open>From the server to the handler\<close>

text \<open>The lazy functions of the default application, with those outside the repository: parsing the
  query does not fail, and the connection answers \<open>get_transport_info\<close>.\<close>

definition usual_calls :: "'h app_setup \<Rightarrow> nat \<Rightarrow> patch_config \<Rightarrow> lazy_call \<Rightarrow> pyval \<Rightarrow> bool" where
  "usual_calls su n cfg other info \<longleftrightarrow>
     su_call su = patch_call (Suc n) cfg other \<and> (\<exists>ext. pc_parse_url cfg = url_parse ext) \<and>
     (\<forall>q. pc_parse_query cfg q \<in> range Inr) \<and> (\<forall>t. other F_get_transport_info t = (Inr info, t)) \<and>
     info \<noteq> EMPTY"

text \<open>A request as the server hands it to the application.\<close>

definition usual_request :: "request \<Rightarrow> bool" where
  "usual_request r \<longleftrightarrow>
     fresh_request r \<and> (CHR ''?'' \<in> set (rq_raw_path r) \<longrightarrow> plain_target (rq_raw_path r)) \<and>
     ascii (rq_method r) \<and> ascii (rq_raw_path r) \<and> ascii (rq_protocol r)"

text \<open>The answer of the routing table to the request, and the handler's part of the chain.\<close>

abbreviation target :: "request \<Rightarrow> bytes" where
  "target r \<equiv> takeWhile (\<lambda>c. c \<noteq> CHR ''?'') (rq_raw_path r)"

abbreviation inner_chain :: "'h app_setup \<Rightarrow> run_facts \<Rightarrow> 'h runner handler_chain" where
  "inner_chain su rf \<equiv> executors su rf (formatters su (run_handler (su_call su) (su_params su) (su_body su)))"

text \<open>The state of the request when the handler's part of the chain starts.\<close>

definition after_routing :: "request \<Rightarrow> meta \<Rightarrow> request \<Rightarrow> bool" where
  "after_routing r data r' \<longleftrightarrow>
     rq_method r' = rq_method r \<and> rq_raw_path r' = rq_raw_path r \<and> rq_protocol r' = rq_protocol r \<and>
     look_scope r' ''get_transport_info'' = Some (Lazy F_get_transport_info) \<and>
     (\<forall>k \<in> set chain_keys. look_scope r' k = map_option Plain (map_of data k))"

lemma routed_to_handler:
  assumes "usual_calls su n cfg other info" and "usual_request r"
    and "table_answer (su_router su) (rq_method r) (target r) = (h, data)"
  shows "\<exists>r'. routed su rf h0 (entered r) = inner_chain su rf (Plain_handler h) r' \<and> after_routing r data r'"
proof -
  obtain ext where calls: "su_call su = patch_call (Suc n) cfg other" "pc_parse_url cfg = url_parse ext"
      "\<And>q. pc_parse_query cfg q \<in> range Inr"
    using assms(1) by (auto simp: usual_calls_def)
  have fresh: "list_all (\<lambda>k. look_scope r k = None) (chain_keys @ [''path'', ''query_params''])"
    and info: "look_scope r ''get_transport_info'' = Some (Lazy F_get_transport_info)"
    using assms(2) by (simp_all add: usual_request_def fresh_request_def)
  have query: "CHR ''?'' \<in> set (rq_raw_path (entered r)) \<Longrightarrow> plain_target (rq_raw_path (entered r))"
    using assms(2) by (simp add: usual_request_def entered_def)
  have start: "look_scope (entered r) ''path'' = Some (Lazy F_path)" "look_scope (entered r) ''query_params'' \<noteq> None"
    using fresh by (simp_all add: entered_scope patch_attrs_def chain_keys_def)
  have answer: "table_answer (su_router su) (rq_method (entered r)) (target (entered r)) = (h, data)"
    using assms(3) by (simp add: entered_def)
  from routed_request [OF start query calls(2,3) answer, of n other 0
      "\<lambda>handler. inner_chain su rf (Plain_handler handler)"]
  obtain r' where routed: "routed su rf h0 (entered r) = inner_chain su rf (Plain_handler h) r'"
    and frame: "rq_method r' = rq_method r" "rq_raw_path r' = rq_raw_path r" "rq_protocol r' = rq_protocol r"
    and scope: "\<And>k. k \<noteq> ''path'' \<Longrightarrow> look_scope r' k =
      (case look_scope (entered r) k of Some a \<Rightarrow> Some a
       | None \<Rightarrow> map_of ([(''get_url'', Plain (PObj ''url'' 0)), (''get_route'', Plain (PObj ''_resolve'' 0))] @
                         map (\<lambda>(k, v). (k, Plain v)) data) k)"
    by (auto simp: routed_def calls(1) entered_def)
  have data: "map_of (map (\<lambda>(k, v). (k, Plain v)) data) k = map_option Plain (map_of data k)" for k
    by (induction data) auto
  have "list_all (\<lambda>k. look_scope r' k = map_option Plain (map_of data k)) chain_keys"
    using fresh by (simp add: scope entered_scope patch_attrs_def data chain_keys_def)
  moreover have "look_scope r' ''get_transport_info'' = Some (Lazy F_get_transport_info)"
    using info by (simp add: scope entered_scope)
  ultimately have "after_routing r data r'"
    using frame unfolding after_routing_def list_all_iff by blast
  with routed show ?thesis by blast
qed

text \<open>The way back through the logger and the pushes.\<close>

text \<open>The logger reads the transport information and leaves the rest as it is.\<close>

lemma logger_outer:
  assumes "usual_calls su n cfg other info" and "usual_request r" and "after_routing r data r'"
    and "error_middleware (su_on_error su) (timed su rf) h0 (entered r) = (Inr (R_response resp), r')"
  shows "logger_middleware (su_call su) 0 (error_middleware (su_on_error su) (timed su rf)) h0
      (rq_set ''add_push'' (Lazy F_create_add_push) False (put_all rq_set patch_attrs r)) =
    (Inr (R_response resp), r'\<lparr>rq_scope := AList.update ''get_transport_info'' (Plain info) (rq_scope r')\<rparr>)"
proof -
  have "rq_getattr (su_call su) ''get_transport_info'' r' =
      (Inr info, r'\<lparr>rq_scope := AList.update ''get_transport_info'' (Plain info) (rq_scope r')\<rparr>)"
    using assms(1,3)
    by (intro getattr_lazy [where f = F_get_transport_info])
      (auto simp: request_slots_def usual_calls_def after_routing_def)
  then show ?thesis
    using assms(2-4)
    by (intro logger_passes) (simp_all add: entered_def usual_request_def after_routing_def)
qed

lemma outer_passes:
  assumes "usual_calls su n cfg other info" and "usual_request r" and "after_routing r data r'"
    and "map_of data ''push'' = None" "map_of data ''_pushes'' = None"
    and "error_middleware (su_on_error su) (timed su rf) h0 (entered r) = (Inr (R_response resp), r')"
  shows "fst (default_app su rf h0 r) = Inr (R_response resp)"
proof -
  have "look_scope r' ''push'' = None" "look_scope r' ''_pushes'' = None"
    using assms(3-5) by (simp_all add: after_routing_def chain_keys_def)
  then show ?thesis
    unfolding default_app_eq using logger_outer [OF assms(1-3,6)] push_passes by fastforce
qed

text \<open>A coroutine handler that takes the request only.\<close>

definition request_coroutine :: "'h app_setup \<Rightarrow> 'h \<Rightarrow> bool" where
  "request_coroutine su h \<longleftrightarrow>
     su_is_coro su h \<and> (\<exists>d. su_params su h = [\<lparr>pm_name = ''request'', pm_inject = None, pm_default = d\<rparr>])"

definition unhindered :: "'h app_setup \<Rightarrow> run_facts \<Rightarrow> bool" where
  "unhindered su rf \<longleftrightarrow>
     rf_duration rf \<le> su_timeout su \<and> rf_outer rf = None \<and> \<not> rf_profiled rf \<and>
     (\<forall>v. rf_slow rf v = Inr False)"

lemma inner_chain_coroutine:
  assumes "request_coroutine su h" and "unhindered su rf" and "after_routing r0 data r"
    and "map_of data ''process'' = None"
    and "formatters su (run_handler (su_call su) (su_params su) (su_body su)) (Plain_handler h) r = (res, r)"
  shows "inner_chain su rf (Plain_handler h) r = (res, r)"
  using assms
  by (intro executors_coroutine [where v = "map_of data ''profile_condition''"])
    (auto simp: request_coroutine_def unhindered_def after_routing_def chain_keys_def)

lemma coroutine_call:
  assumes "request_coroutine su h"
  shows "run_handler (su_call su) (su_params su) (su_body su) (Plain_handler h) r =
    su_body su h [(''request'', A_request)] r"
  using assms request_only_handler [of "su_params su" h] by (auto simp: request_coroutine_def)

section \<open>Properties\<close>

definition sample_setup :: "nat app_setup" where
  "sample_setup =
     \<lparr>su_call = patch_call (Suc 0) sample_config (\<lambda>f r. (Inr PNone, r)), su_router = two_routes,
      su_is_coro = (\<lambda>h. h \<noteq> 2),
      su_params = (\<lambda>h. [\<lparr>pm_name = ''request'', pm_inject = None, pm_default = False\<rparr>]),
      su_body = (\<lambda>h env r. (if h = 1 then Inr (R_value sample_value) else Inl ValueError, r)),
      su_on_error = (\<lambda>r e. (Inr (R_response (new_response 500 ''error'' None [] False)), r)),
      su_timeout = 10, su_json = default_json,
      su_template = \<lparr>tc_formats = [], tc_content_type = ''text/html'', tc_str = (\<lambda>a. [])\<rparr>, su_templates = [],
      su_format = (\<lambda>p k. Inl KeyError), su_str = (\<lambda>a. [])\<rparr>"

definition sample_facts :: run_facts where
  "sample_facts =
     \<lparr>rf_duration = 3, rf_outer = None, rf_cancelled = (\<lambda>r. (Inl CancelledError, r)), rf_profiled = False,
      rf_slow = (\<lambda>v. Inr False)\<rparr>"

definition sample_request :: "bytes \<Rightarrow> bytes \<Rightarrow> request" where
  "sample_request method url =
     (new_request url method None [] ''HTTP/1.1'' 0 ''http'')
       \<lparr>rq_scope := [(''get_transport_info'', Lazy F_get_transport_info)]\<rparr>"

lemma sample_usual:
  "usual_calls sample_setup 0 sample_config (\<lambda>f r. (Inr PNone, r)) PNone"
  "unhindered sample_setup sample_facts" "h \<noteq> 2 \<Longrightarrow> request_coroutine sample_setup h"
  by (auto simp: usual_calls_def sample_setup_def sample_config_def EMPTY_def unhindered_def
      sample_facts_def request_coroutine_def)

lemma sample_request_usual:
  assumes "ascii url" "ascii method" "CHR ''?'' \<in> set url \<longrightarrow> plain_target url"
  shows "usual_request (sample_request method url)"
  using assms
  by (simp add: usual_request_def sample_request_def fresh_request_def chain_keys_def look_scope_def
      new_request_def ascii_def)

text \<open>The handler's part of the chain on a route whose coroutine handler returns a container.\<close>

lemma json_inner:
  assumes "usual_calls su n cfg other info" and "usual_request r"
    and "table_answer (su_router su) (rq_method r) (target r) = (h, data)"
    and "map_of data ''process'' = None" and "map_of data ''template'' = None"
    and "(case map_of data ''status'' of None \<Rightarrow> PInt 200 | Some v \<Rightarrow> v) = PInt i"
    and "request_coroutine su h" and "\<And>t. su_body su h [(''request'', A_request)] t = (Inr (R_value v), t)"
    and "su_json su = default_json" and "is_container v" and "json_value True v = Inr s"
    and "unhindered su rf"
  obtains r' where "after_routing r data r'"
    "error_middleware (su_on_error su) (timed su rf) h0 (entered r) =
      (Inr (R_response (new_response i (map char_of s) (Some [(''content-type'', ''application/json'')]) [] False)), r')"
proof -
  let ?resp = "new_response i (map char_of s) (Some [(''content-type'', ''application/json'')]) [] False"
  obtain r' where routed: "routed su rf h0 (entered r) = inner_chain su rf (Plain_handler h) r'"
    and state: "after_routing r data r'"
    using routed_to_handler [OF assms(1-3)] by blast
  have none: "look_scope r' ''process'' = None" "look_scope r' ''template'' = None"
    using state assms(4,5) by (simp_all add: after_routing_def chain_keys_def)
  have status: "rq_get (su_call su) ''status'' (PInt 200) r' = (Inr (PInt i), r')"
    using state assms(6) by (cases "map_of data ''status''") (simp_all add: after_routing_def chain_keys_def rq_get_simps)
  have "run_handler (su_call su) (su_params su) (su_body su) (Plain_handler h) r' = (Inr (R_value v), r')"
    unfolding coroutine_call [OF assms(7)] by (rule assms(8))
  then have "formatters su (run_handler (su_call su) (su_params su) (su_body su)) (Plain_handler h) r' =
      (Inr (R_response ?resp), r')"
    by (rule formatters_json [where v = v and i = i, rotated 2]) (use none assms(9-11) status in simp_all)
  then have "routed su rf h0 (entered r) = (Inr (R_response ?resp), r')"
    unfolding routed using assms(4) by (intro inner_chain_coroutine [OF assms(7,12) state])
  then have "error_middleware (su_on_error su) (timed su rf) h0 (entered r) = (Inr (R_response ?resp), r')"
    using timed_in_time [of rf su h0 "entered r"] assms(12) by (simp add: error_middleware_def unhindered_def)
  with state show ?thesis by (rule that)
qed

lemma json_answered:
  assumes "usual_calls su n cfg other info" and "usual_request r"
    and "table_answer (su_router su) (rq_method r) (target r) = (h, data)"
    and "list_all (\<lambda>k. map_of data k = None) [''process'', ''template'', ''push'', ''_pushes'']"
    and "(case map_of data ''status'' of None \<Rightarrow> PInt 200 | Some v \<Rightarrow> v) = PInt i"
    and "request_coroutine su h" and "\<And>t. su_body su h [(''request'', A_request)] t = (Inr (R_value v), t)"
    and "su_json su = default_json" and "is_container v" and "json_value True v = Inr s"
    and "unhindered su rf"
  shows "fst (default_app su rf h0 r) =
    Inr (R_response (new_response i (map char_of s) (Some [(''content-type'', ''application/json'')]) [] False))"
proof -
  have none: "map_of data ''process'' = None" "map_of data ''template'' = None" "map_of data ''push'' = None"
    "map_of data ''_pushes'' = None"
    using assms(4) by simp_all
  obtain r' where "after_routing r data r'"
    "error_middleware (su_on_error su) (timed su rf) h0 (entered r) =
      (Inr (R_response (new_response i (map char_of s) (Some [(''content-type'', ''application/json'')]) [] False)), r')"
    using json_inner [OF assms(1-3) none(1,2) assms(5-11)] .
  then show ?thesis using outer_passes [OF assms(1,2)] none(3,4) by simp
qed

text \<open>From request to reply through the default application: a request for a route whose coroutine
  handler takes the request and returns, in time, a dictionary, list or tuple is answered with its JSON
  text, the status of the route (or 200) and the JSON content type. The route is found by the path without
  the query.\<close>

theorem default_app_answers_json:
  assumes "usual_calls su n cfg other info" and "usual_request r"
    and "table_answer (su_router su) (rq_method r) (target r) = (h, data)"
    and "list_all (\<lambda>k. map_of data k = None) [''process'', ''template'', ''push'', ''_pushes'']"
    and "(case map_of data ''status'' of None \<Rightarrow> PInt 200 | Some v \<Rightarrow> v) = PInt i"
    and "request_coroutine su h" and "\<And>t. su_body su h [(''request'', A_request)] t = (Inr (R_value v), t)"
    and "su_json su = default_json" and "is_container v" and "json_value True v = Inr s"
    and "unhindered su rf"
  shows "fst (default_app su rf h0 r) =
    Inr (R_response (new_response i (map char_of s) (Some [(''content-type'', ''application/json'')]) [] False))"
  using assms by (rule json_answered)

theorem default_app_answers_json_witness:
  "fst (default_app sample_setup sample_facts 0 (sample_request ''GET'' ''/a?x=1'')) =
     Inr (R_response (new_response 200 (map char_of sample_text)
       (Some [(''content-type'', ''application/json'')]) [] False))"
proof (rule default_app_answers_json [OF sample_usual(1) sample_request_usual _ _ _ sample_usual(3) _ _ _ sample_json
      sample_usual(2)])
  show "table_answer (su_router sample_setup) (rq_method (sample_request ''GET'' ''/a?x=1''))
      (target (sample_request ''GET'' ''/a?x=1'')) = (1, [(''pattern'', PBytes ''/a'')])"
    by (simp add: sample_setup_def sample_request_def new_request_def table_answer_def first_route_def
        two_routes_def slash_append_def ends_with_def)
qed (simp_all add: sample_setup_def ascii_def plain_target_def sample_value_def)

text \<open>C26: A coroutine handler that takes the request only and raises does not break the chain: when it is neither
  profiled nor cut short by the time limit, the reply is the response that the \<open>on_error\<close> of \<open>ErrorHandle\<close>
  makes of its exception, whatever that is except \<open>CancelledError\<close>.\<close>

theorem default_app_answers_error:
  assumes "usual_calls su n cfg other info" and "usual_request r"
    and "table_answer (su_router su) (rq_method r) (target r) = (h, data)"
    and "list_all (\<lambda>k. map_of data k = None) [''process'', ''template'', ''push'', ''_pushes'']"
    and "request_coroutine su h" and "\<And>t. su_body su h [(''request'', A_request)] t = (Inl e, t)"
    and "e \<noteq> CancelledError" and "unhindered su rf"
    and "\<And>t. su_on_error su t e = (Inr (R_response resp), t)"
  shows "fst (default_app su rf h0 r) = Inr (R_response resp)"
proof -
  obtain r' where routed: "routed su rf h0 (entered r) = inner_chain su rf (Plain_handler h) r'"
    and state: "after_routing r data r'"
    using routed_to_handler [OF assms(1-3)] by blast
  have none: "look_scope r' ''process'' = None" "look_scope r' ''template'' = None"
    using state assms(4) by (simp_all add: after_routing_def chain_keys_def)
  have "formatters su (run_handler (su_call su) (su_params su) (su_body su)) (Plain_handler h) r' = (Inl e, r')"
    using assms(6) by (intro formatters_error none(2)) (simp add: coroutine_call [OF assms(5)])
  then have "routed su rf h0 (entered r) = (Inl e, r')"
    unfolding routed using assms(4) by (intro inner_chain_coroutine [OF assms(5,8) state]) simp_all
  then have "error_middleware (su_on_error su) (timed su rf) h0 (entered r) = (Inr (R_response resp), r')"
    using timed_in_time [of rf su h0 "entered r"] assms(7-9) by (simp add: error_middleware_def unhindered_def)
  then show ?thesis
    using outer_passes [OF assms(1,2) state] assms(4) by simp
qed

theorem default_app_answers_error_witness:
  "fst (default_app sample_setup sample_facts 0 (sample_request ''POST'' ''/b'')) =
     Inr (R_response (new_response 500 ''error'' None [] False))"
proof (rule default_app_answers_error [OF sample_usual(1) sample_request_usual _ _ sample_usual(3) _ _
      sample_usual(2), where e = ValueError and h = 3 and data = "[(''pattern'', PBytes ''/b'')]"])
  show "table_answer (su_router sample_setup) (rq_method (sample_request ''POST'' ''/b''))
      (target (sample_request ''POST'' ''/b'')) = (3, [(''pattern'', PBytes ''/b'')])"
    by (simp add: sample_setup_def sample_request_def new_request_def table_answer_def first_route_def
        two_routes_def slash_append_def ends_with_def)
qed (simp_all add: sample_setup_def ascii_def)

text \<open>Annotations are lost on a handler that is not a coroutine function: \<open>InjectFromScope\<close> and
  \<open>AddRequest\<close> see the wrapper of the pool, which has no annotations, so such a handler is called with
  the request alone; if it requires a second parameter, the reply is an error, whatever the scope has.\<close>

theorem sync_handler_not_injected:
  assumes "look_scope r ''process'' = None" and "\<not> su_is_coro su h" and "\<not> rf_profiled rf" and "\<And>v. rf_slow rf v = Inr False"
    and "look_scope r ''profile_condition'' = None"
    and "su_params su h = p # q # ps" and "\<not> pm_default q" and "pm_name q \<noteq> pm_name p"
    and "look_scope r ''template'' = None"
  shows "inner_chain su rf (Plain_handler h) r = (Inl TypeError, r)"
proof -
  have "py_call (partial_arg A_request (new_callable (su_params su h))) = Inl TypeError"
    using assms(6-8) by (simp add: partial_arg_def new_callable_def py_call_def Let_def)
  then have "run_handler (su_call su) (su_params su) (su_body su) (In_pool ThreadPool (Plain_handler h)) r =
      (Inl TypeError, r)"
    by (simp add: run_handler_eqs)
  then have "formatters su (run_handler (su_call su) (su_params su) (su_body su)) (In_pool ThreadPool (Plain_handler h)) r =
      (Inl TypeError, r)"
    by (intro formatters_error assms(9))
  then show ?thesis
    using assms(1-5)
    by (simp add: executors_def run_process_def executor_middleware_def process_condition_def
        profile_middleware_def sync_to_async_def sync_condition_def rq_get_missing)
qed

theorem sync_handler_not_injected_witness:
  "inner_chain (sample_setup\<lparr>su_params := (\<lambda>h. [\<lparr>pm_name = ''request'', pm_inject = None, pm_default = False\<rparr>,
        \<lparr>pm_name = ''user'', pm_inject = Some ''name'', pm_default = False\<rparr>])\<rparr>) sample_facts (Plain_handler 2)
      ((sample_request ''GET'' ''/a/'')\<lparr>rq_scope := [(''name'', Plain (PBytes ''ann''))]\<rparr>) =
     (Inl TypeError, (sample_request ''GET'' ''/a/'')\<lparr>rq_scope := [(''name'', Plain (PBytes ''ann''))]\<rparr>)"
  by (rule sync_handler_not_injected
      [where p = "\<lparr>pm_name = ''request'', pm_inject = None, pm_default = False\<rparr>"
        and q = "\<lparr>pm_name = ''user'', pm_inject = Some ''name'', pm_default = False\<rparr>" and ps = "[]"])
    (simp_all add: sample_setup_def sample_facts_def look_scope_def)

text \<open>A coroutine handler that requires an argument fails whenever it is profiled: the wrapper of
  the profiler hides its parameters, so it is called without the request, and the reply to the request
  after a slow one is an error.\<close>

theorem profiled_handler_fails:
  assumes "look_scope r ''process'' = None" and "look_scope r ''template'' = None" and "rf_profiled rf"
    and "su_is_coro su h" and "p \<in> set (su_params su h)" and "\<not> pm_default p"
    and "look_scope r ''depth'' = None"
  shows "inner_chain su rf (Plain_handler h) r = (Inl TypeError, r)"
proof -
  have "list_ex (\<lambda>p. \<not> pm_default p) (su_params su h)"
    using assms(5,6) by (auto simp: list_ex_iff)
  then have "py_call (new_callable (su_params su h)) = Inl TypeError"
    by (simp add: new_callable_def py_call_def Let_def)
  then have "run_handler (su_call su) (su_params su) (su_body su) (Profiled (Plain_handler h)) r =
      (Inl TypeError, r)"
    by (simp add: run_handler_eqs)
  then have "formatters su (run_handler (su_call su) (su_params su) (su_body su)) (Profiled (Plain_handler h)) r =
      (Inl TypeError, r)"
    by (intro formatters_error assms(2))
  then show ?thesis
    using assms(1,3,4,7)
    by (simp add: executors_def run_process_def executor_middleware_def process_condition_def
        profile_middleware_def sync_to_async_def sync_condition_def rq_get_missing)
qed

theorem profiled_handler_fails_witness:
  "inner_chain sample_setup (sample_facts\<lparr>rf_profiled := True\<rparr>) (Plain_handler 1)
      (sample_request ''GET'' ''/a'') = (Inl TypeError, sample_request ''GET'' ''/a'')"
  by (rule profiled_handler_fails
      [where p = "\<lparr>pm_name = ''request'', pm_inject = None, pm_default = False\<rparr>"])
    (simp_all add: sample_setup_def sample_facts_def sample_request_def look_scope_def)

end
