(* ===== verification/Pools.thy ===== *)
theory Pools
  imports Executors Application
begin

text \<open>
  \<^verbatim>\<open>levin/components/concurrent.py\<close>, \<open>start\<close> and \<open>stop\<close>: the pool of an executor component over the life
  of the application. The attribute \<open>_executor\<close> exists from \<open>start\<close> on; the hooks that the application
  calls are those of its log, so the state of a pool is a function of the log.
\<close>

section \<open>One pool\<close>

datatype pool_state = No_pool | Open_pool int | Shut_pool

text \<open>The pools of the standard library refuse a number of workers that is not positive.\<close>

definition executor_start :: "int \<Rightarrow> pool_state \<Rightarrow> exn option \<times> pool_state" where
  "executor_start max_workers s =
     (if max_workers \<le> 0 then (Some ValueError, s) else (None, Open_pool max_workers))"

definition executor_stop :: "pool_state \<Rightarrow> exn option \<times> pool_state" where
  "executor_stop s = (case s of No_pool \<Rightarrow> (Some AttributeError, s) | _ \<Rightarrow> (None, Shut_pool))"

text \<open>What submitting a handler to the pool raises.\<close>

definition executor_submit :: "pool_state \<Rightarrow> exn option" where
  "executor_submit s =
     (case s of No_pool \<Rightarrow> Some AttributeError | Open_pool n \<Rightarrow> None | Shut_pool \<Rightarrow> Some RuntimeError)"

section \<open>Pools of an application\<close>

fun pool_after :: "int \<Rightarrow> nat \<Rightarrow> event list \<Rightarrow> pool_state \<Rightarrow> pool_state" where
  "pool_after n i [] s = s"
| "pool_after n i (Start j # ev) s = pool_after n i ev (if j = i then snd (executor_start n s) else s)"
| "pool_after n i (Stop j # ev) s = pool_after n i ev (if j = i then snd (executor_stop s) else s)"
| "pool_after n i (Init j # ev) s = pool_after n i ev s"

text \<open>The hooks of an application some of whose components are executors; \<open>other\<close> are the hooks of the
  rest. Starting a pool does not depend on its state; stopping it does.\<close>

definition start_hook ::
  "(component \<Rightarrow> int option) \<Rightarrow> (component \<Rightarrow> exn option) \<Rightarrow> component \<Rightarrow> exn option" where
  "start_hook workers other c =
     (case workers c of None \<Rightarrow> other c | Some n \<Rightarrow> fst (executor_start n No_pool))"

definition stop_hook ::
  "(component \<Rightarrow> int option) \<Rightarrow> (component \<Rightarrow> exn option) \<Rightarrow> event list \<Rightarrow> component \<Rightarrow> exn option" where
  "stop_hook workers other log c =
     (case workers c of
        None \<Rightarrow> other c
      | Some n \<Rightarrow> fst (executor_stop (pool_after n (co_id c) log No_pool)))"

definition start_pools ::
  "(component \<Rightarrow> int option) \<Rightarrow> (component \<Rightarrow> exn option) \<Rightarrow> 'h app \<Rightarrow> exn option \<times> 'h app" where
  "start_pools workers other app = app_start (start_hook workers other) app"

definition stop_pools ::
  "(component \<Rightarrow> int option) \<Rightarrow> (component \<Rightarrow> exn option) \<Rightarrow> 'h app \<Rightarrow> exn option \<times> 'h app" where
  "stop_pools workers other app = app_stop (stop_hook workers other (ap_log app)) app"

section \<open>Lemmas\<close>

lemma pool_after_append [simp]: "pool_after n i (xs @ ys) s = pool_after n i ys (pool_after n i xs s)"
proof (induction xs arbitrary: s)
  case Nil
  then show ?case by simp
next
  case (Cons x xs)
  then show ?case by (cases x) simp_all
qed

lemma pool_after_other:
  "Start i \<notin> set ev \<Longrightarrow> Stop i \<notin> set ev \<Longrightarrow> pool_after n i ev s = s"
proof (induction ev arbitrary: s)
  case Nil
  then show ?case by simp
next
  case (Cons x ev)
  then show ?case by (cases x) auto
qed

lemma pool_after_starts:
  assumes "\<And>x. x \<in> set ev \<Longrightarrow> \<exists>j. x = Start j" and "Start i \<in> set ev" and "0 < n"
  shows "pool_after n i ev s = Open_pool n"
  using assms(1,2)
proof (induction ev rule: rev_induct)
  case Nil
  then show ?case by simp
next
  case (snoc x ev)
  then obtain j where x: "x = Start j" by force
  show ?case
  proof (cases "j = i")
    case True
    with x assms(3) show ?thesis by (simp add: executor_start_def)
  next
    case False
    with snoc x show ?thesis by simp
  qed
qed

lemma pool_after_stops:
  assumes "\<And>x. x \<in> set ev \<Longrightarrow> \<exists>j. x = Stop j" and "Stop i \<in> set ev" and "s \<noteq> No_pool"
  shows "pool_after n i ev s = Shut_pool"
  using assms(1,2)
proof (induction ev rule: rev_induct)
  case Nil
  then show ?case by simp
next
  case (snoc x ev)
  then obtain j where x: "x = Stop j" by force
  have kept: "s \<noteq> No_pool \<Longrightarrow> pool_after n i zs s \<noteq> No_pool" if "\<And>x. x \<in> set zs \<Longrightarrow> \<exists>j. x = Stop j" for zs s
    using that
  proof (induction zs arbitrary: s)
    case Nil
    then show ?case by simp
  next
    case (Cons z zs)
    then obtain j where "z = Stop j" by force
    with Cons show ?case by (auto simp: executor_stop_def split: pool_state.split)
  qed
  show ?case
  proof (cases "j = i")
    case True
    have "pool_after n i ev s \<noteq> No_pool" using kept snoc.prems(1) assms(3) by simp
    with True x show ?thesis by (simp add: executor_stop_def split: pool_state.split)
  next
    case False
    with snoc x show ?thesis by simp
  qed
qed

lemma stop_loop_all:
  "list_all (\<lambda>c. hook c = None) cs \<Longrightarrow> stop_loop hook cs = (None, map (\<lambda>c. Stop (co_id c)) cs)"
  by (induction cs) simp_all

lemma stop_loop_first:
  "list_all (\<lambda>c. hook c = None) pre \<Longrightarrow> hook c = Some e \<Longrightarrow>
   stop_loop hook (pre @ c # post) = (Some e, map (\<lambda>c. Stop (co_id c)) (pre @ [c]))"
  by (induction pre) simp_all

definition pool_of :: "(component \<Rightarrow> int option) \<Rightarrow> 'h app \<Rightarrow> component \<Rightarrow> pool_state" where
  "pool_of workers app c =
     (case workers c of None \<Rightarrow> No_pool | Some n \<Rightarrow> pool_after n (co_id c) (ap_log app) No_pool)"

lemma unstarted_pool:
  assumes "app_inv app" and "\<not> ap_started app"
  shows "pool_after n i (ap_log app) s = s"
  using assms by (simp add: pool_after_other app_inv_def)

lemma start_pools_ok:
  assumes "\<not> ap_started app" and "list_all (\<lambda>c. \<not> start_fails (start_hook workers other) c) (ap_components app)"
  obtains app' where "start_pools workers other app = (None, app')" and "ap_started app'"
    and "ap_log app' = ap_log app @ start_events (ap_components app)"
    and "ap_components app' = filter (\<lambda>c. \<not> refused (start_hook workers other) c) (ap_components app)"
  using assms that
  by (simp add: start_pools_def app_start_def start_loop_ok remove_all_filter create_handler_def)

lemma start_loop_stops:
  assumes "list_all (\<lambda>c. \<not> start_fails hook c) pre" and "component_start hook bad = Some e" and "e \<noteq> DisableComponentError"
  shows "\<exists>rm. start_loop hook (pre @ bad # rest) = (Some e, rm, start_events (pre @ [bad]))"
  using assms(1)
proof (induction pre)
  case Nil
  have "co_enabled bad" using assms(2,3) by (auto simp: component_start_def split: if_splits)
  with assms(2,3) show ?case by (simp add: start_events_def)
next
  case (Cons c pre)
  then have "component_start hook c = None \<or> component_start hook c = Some DisableComponentError"
    by (auto simp: start_fails_def)
  with Cons show ?case by (auto simp: start_events_def)
qed

lemma started_pool:
  assumes "app_inv app" and "\<not> ap_started app"
    and "list_all (\<lambda>c. \<not> start_fails (start_hook workers other) c) (ap_components app)"
    and "c \<in> set (ap_components app)" and "co_enabled c" and "workers c = Some n"
  shows "0 < n" and "pool_after n (co_id c) (ap_log app @ start_events (ap_components app)) No_pool = Open_pool n"
proof -
  have "\<not> start_fails (start_hook workers other) c" using assms(3,4) by (simp add: list_all_iff)
  with assms(5,6) show n: "0 < n"
    by (auto simp: start_fails_def component_start_def start_hook_def executor_start_def split: if_splits)
  have "Start (co_id c) \<in> set (start_events (ap_components app))"
    using assms(4,5) by (auto simp: start_events_def)
  moreover have "\<exists>j. x = Start j" if "x \<in> set (start_events (ap_components app))" for x
    using that by (auto simp: start_events_def)
  ultimately have "pool_after n (co_id c) (start_events (ap_components app)) No_pool = Open_pool n"
    using n by (intro pool_after_starts) auto
  then show "pool_after n (co_id c) (ap_log app @ start_events (ap_components app)) No_pool = Open_pool n"
    using assms(1,2) by (simp add: unstarted_pool)
qed

section \<open>Properties\<close>

text \<open>C34: When no hook fails, every enabled executor has an open pool of its workers from \<open>start\<close> on, so
  handlers can be submitted, and \<open>stop\<close> shuts it down.\<close>

theorem pools_follow_app:
  assumes "app_reachable app" and "\<not> ap_started app"
    and "list_all (\<lambda>c. \<not> start_fails (start_hook workers other) c) (ap_components app)"
    and "list_all (\<lambda>c. other' c = None) (ap_components app)"
    and "c \<in> set (ap_components app)" and "co_enabled c" and "workers c = Some n"
  shows "case start_pools workers other app of
      (e, app1) \<Rightarrow> e = None \<and> pool_of workers app1 c = Open_pool n \<and>
        (case stop_pools workers other' app1 of (e', app2) \<Rightarrow> e' = None \<and> pool_of workers app2 c = Shut_pool)"
proof -
  note inv = app_reachable_inv [OF assms(1)]
  obtain app1 where app1: "start_pools workers other app = (None, app1)" "ap_started app1"
      "ap_log app1 = ap_log app @ start_events (ap_components app)"
      "ap_components app1 = filter (\<lambda>c. \<not> refused (start_hook workers other) c) (ap_components app)"
    using start_pools_ok [OF assms(2,3)] .
  have opened: "0 < n'" "pool_after n' (co_id d) (ap_log app1) No_pool = Open_pool n'"
    if "d \<in> set (ap_components app1)" "workers d = Some n'" for d n'
  proof -
    have "d \<in> set (ap_components app)" "co_enabled d"
      using that by (auto simp: app1(4) refused_def component_start_def split: if_splits)
    from started_pool [OF inv assms(2,3) this that(2)] show "0 < n'"
      "pool_after n' (co_id d) (ap_log app1) No_pool = Open_pool n'" by (simp_all add: app1(3))
  qed
  have "stop_hook workers other' (ap_log app1) d = None" if d: "d \<in> set (ap_components app1)" for d
  proof (cases "workers d")
    case None
    then show ?thesis using d assms(4) by (auto simp: stop_hook_def list_all_iff app1(4))
  next
    case (Some n')
    then show ?thesis using opened(2) [OF d Some] by (simp add: stop_hook_def executor_stop_def)
  qed
  then have "list_all (\<lambda>d. stop_hook workers other' (ap_log app1) d = None) (ap_components app1)"
    by (simp add: list_all_iff)
  note stopped = stop_loop_all [OF this]
  have "0 < n" using started_pool(1) [OF inv assms(2,3,5,6,7)] .
  then have kept: "c \<in> set (ap_components app1)"
    using assms(5-7) by (auto simp: app1(4) refused_def component_start_def start_hook_def executor_start_def)
  have "pool_after n (co_id c) (map (\<lambda>c. Stop (co_id c)) (ap_components app1)) (Open_pool n) = Shut_pool"
    by (rule pool_after_stops) (use kept in auto)
  then show ?thesis
    using app1(1,2) opened(2) [OF kept assms(7)] assms(7) stopped
    by (simp add: stop_pools_def app_stop_def pool_of_def)
qed

text \<open>When the \<open>start\<close> hook of a component fails, the executors after it have no pool, and \<open>stop\<close>
  fails with \<open>AttributeError\<close> at the first of them: the components after that are not stopped.\<close>

theorem failed_start_breaks_stop:
  assumes "app_reachable app" and "\<not> ap_started app" and "distinct (map co_id (ap_components app))"
    and "ap_components app = pre @ bad # mid @ c # post"
    and "list_all (\<lambda>d. \<not> start_fails (start_hook workers other) d) pre"
    and "start_fails (start_hook workers other) bad"
    and "list_all (\<lambda>d. workers d = None \<and> other' d = None) (pre @ bad # mid)" and "workers c = Some n"
  shows "ap_log (snd (stop_pools workers other' (snd (start_pools workers other app)))) =
      ap_log (snd (start_pools workers other app)) @ map (\<lambda>d. Stop (co_id d)) (pre @ bad # mid @ [c]) \<and>
    fst (stop_pools workers other' (snd (start_pools workers other app))) = Some AttributeError"
proof -
  note inv = app_reachable_inv [OF assms(1)]
  obtain e where bad: "component_start (start_hook workers other) bad = Some e" "e \<noteq> DisableComponentError"
    using assms(6) by (cases "component_start (start_hook workers other) bad") (auto simp: start_fails_def)
  obtain rm where loop: "start_loop (start_hook workers other) (ap_components app) =
      (Some e, rm, start_events (pre @ [bad]))"
    using start_loop_stops [OF assms(5) bad] assms(4) by metis
  define app1 where "app1 = snd (start_pools workers other app)"
  have app1: "ap_started app1" "ap_components app1 = ap_components app"
      "ap_log app1 = ap_log app @ start_events (pre @ [bad])"
    using assms(2) loop by (simp_all add: app1_def start_pools_def app_start_def)
  have "co_id c \<notin> co_id ` set (pre @ [bad])" using assms(3,4) by auto
  then have "Start (co_id c) \<notin> set (start_events (pre @ [bad]))" "Stop (co_id c) \<notin> set (start_events (pre @ [bad]))"
    by (auto simp: start_events_def)
  then have "pool_after n (co_id c) (start_events (pre @ [bad])) No_pool = No_pool" by (rule pool_after_other)
  then have "pool_after n (co_id c) (ap_log app1) No_pool = No_pool"
    using inv assms(2) by (simp add: app1(3) unstarted_pool)
  then have here: "stop_hook workers other' (ap_log app1) c = Some AttributeError"
    using assms(8) by (simp add: stop_hook_def executor_stop_def)
  have before: "list_all (\<lambda>d. stop_hook workers other' (ap_log app1) d = None) (pre @ bad # mid)"
    using assms(7) by (auto simp: stop_hook_def list_all_iff)
  have "stop_loop (stop_hook workers other' (ap_log app1)) (ap_components app1) =
      (Some AttributeError, map (\<lambda>d. Stop (co_id d)) (pre @ bad # mid @ [c]))"
    using stop_loop_first [OF before here, of post] by (simp add: app1(2) assms(4))
  then show ?thesis
    unfolding app1_def [symmetric] by (simp add: stop_pools_def app_stop_def app1(1))
qed

definition sample_workers :: "component \<Rightarrow> int option" where
  "sample_workers c = (if co_id c = 2 then Some 9 else None)"

text \<open>An application of a component, an executor and a component, each added in turn.\<close>

definition pool_app :: "nat app" where
  "pool_app =
     \<lparr>ap_components = [plain_component 1 True, plain_component 2 True, plain_component 3 True],
      ap_default = 0, ap_handler = None, ap_started = False, ap_log = [Init 1, Init 2, Init 3]\<rparr>"

lemma pool_app_reachable: "app_reachable pool_app"
proof -
  let ?add = "\<lambda>i app. snd (add_component (\<lambda>_. None) 0 (AComponent (plain_component i True)) None app)"
  let ?new = "\<lparr>ap_components = [], ap_default = 0 :: nat, ap_handler = None, ap_started = False, ap_log = []\<rparr>"
  have step: "app_reachable (?add i app)" if "app_reachable app" for i app
    by (rule app_reachable.step [OF that], rule app_step.add) (rule surjective_pairing)
  have "app_reachable (?add 3 (?add 2 (?add 1 ?new)))"
    by (intro step app_reachable.new)
  then show ?thesis
    by (simp add: add_component_def to_component_def insert_position_def py_insert_def pool_app_def
        plain_component_def)
qed

lemmas pool_app_simps =
  pool_app_def plain_component_def component_start_def co_enabled_def start_fails_def start_hook_def
  executor_start_def sample_workers_def

theorem pools_follow_app_witness:
  "pool_of sample_workers (snd (start_pools sample_workers (\<lambda>_. None) pool_app)) (plain_component 2 True) = Open_pool 9"
proof -
  have "list_all (\<lambda>c. \<not> start_fails (start_hook sample_workers (\<lambda>_. None)) c) (ap_components pool_app)"
    and "plain_component 2 True \<in> set (ap_components pool_app)" "co_enabled (plain_component 2 True)"
    and "sample_workers (plain_component 2 True) = Some 9" and "\<not> ap_started pool_app"
    and "list_all (\<lambda>c. (None :: exn option) = None) (ap_components pool_app)"
    by (simp_all add: pool_app_simps)
  from pools_follow_app [where other' = "\<lambda>_. None", OF pool_app_reachable this(5,1,6,2,3,4)] show ?thesis
    by (auto split: prod.splits)
qed

theorem failed_start_breaks_stop_witness:
  "fst (stop_pools sample_workers (\<lambda>_. None)
     (snd (start_pools sample_workers (\<lambda>c. if co_id c = 1 then Some KeyError else None) pool_app))) = Some AttributeError"
proof -
  let ?other = "\<lambda>c. if co_id c = 1 then Some KeyError else None"
  have "distinct (map co_id (ap_components pool_app))" "\<not> ap_started pool_app"
    "ap_components pool_app = [] @ plain_component 1 True # [] @ plain_component 2 True # [plain_component 3 True]"
    "list_all (\<lambda>d. \<not> start_fails (start_hook sample_workers ?other) d) []"
    "start_fails (start_hook sample_workers ?other) (plain_component 1 True)"
    "list_all (\<lambda>d. sample_workers d = None \<and> (None :: exn option) = None) ([] @ plain_component 1 True # [])"
    "sample_workers (plain_component 2 True) = Some 9"
    by (simp_all add: pool_app_simps)
  from failed_start_breaks_stop [where other' = "\<lambda>_. None", OF pool_app_reachable this(2,1,3,4,5,6,7)]
  show ?thesis by blast
qed

end
