(* ===== verification/Defaults.thy ===== *)
theory Defaults
  imports Pipeline Pools
begin

text \<open>
  \<^verbatim>\<open>levin/app.py\<close> as data: the default components with the attributes of their classes, the chain that
  an application makes of them, and the configuration of \<^verbatim>\<open>run.py\<close>. Of the attributes whose names begin
  with an underscore, which are never parameters, none is listed; functions, classes and other objects
  that are only passed on are told apart by a number.
\<close>

section \<open>The components\<close>

abbreviation static :: "nat \<Rightarrow> class_attr" where
  "static n \<equiv> AValue (PObj ''staticmethod'' n)"

definition default_component :: "nat \<Rightarrow> name \<Rightarrow> (name \<times> class_attr) list \<Rightarrow> component" where
  "default_component i name attrs =
     \<lparr>co_id = i, co_name = name, co_vars = (''name'', AValue (PStr (lit name))) # attrs, co_enable_default = True,
      co_dict = [], co_middleware = Some i\<rparr>"

definition patch_component :: component where
  "patch_component = default_component 1 ''patch_request''
     [(''json_loads'', static 0), (''json_content_type'', AValue (PBytes ''application/json'')),
      (''parse_url'', static 1), (''parse_query_params'', static 2), (''middleware'', AFunction)]"

definition push_component :: component where
  "push_component = default_component 2 ''push'' [(''middleware'', AFunction)]"

definition logger_component :: component where
  "logger_component = default_component 3 ''logger''
     [(''level'', AValue (PInt 20)), (''logger_name'', AValue (PStr (lit ''levin.components.logger''))),
      (''message_format'', AValue (PStr (lit (CHR 0x22 # ''%(method)s %(path)s %(protocol)s'' @ CHR 0x22 #
         '' %(status)s - %(body_size)s - %(time)s - %(stream)s - %(transport)s'')))),
      (''logger_config'', AValue (PObj ''DEFAULT_CONFIG'' 0)), (''extra'', AValue (PDict [])),
      (''init'', AFunction), (''start'', AFunction), (''stop'', AFunction), (''middleware'', AFunction)]"

definition error_component :: component where
  "error_component = default_component 4 ''error_handle'' [(''on_error'', static 3), (''middleware'', AFunction)]"

definition timeout_component :: component where
  "timeout_component = default_component 5 ''handler_timeout''
     [(''timeout'', AValue (PInt 10)), (''loop'', AValue PNone), (''start'', AFunction), (''middleware'', AFunction)]"

definition route_component :: component where
  "route_component = default_component 6 ''route''
     [(''not_found_handler'', static 4), (''clean'', AFunction), (''resolve'', AFunction), (''list'', AFunction),
      (''add'', AFunction), (''url'', AFunction), (''route'', AFunction), (''get'', AFunction), (''post'', AFunction),
      (''put'', AFunction), (''delete'', AFunction), (''middleware'', AFunction)]"

definition profile_component :: component where
  "profile_component = default_component 8 ''profile''
     [(''threshold'', AValue (PObj ''float'' 0)), (''get_time'', static 5), (''depth'', AValue (PInt 1)),
      (''with_memory'', AValue (PBool False)), (''callback'', static 6), (''profile_condition'', static 7),
      (''middleware'', AFunction)]"

definition json_component :: component where
  "json_component = default_component 10 ''json_format''
     [(''json_dumps'', static 8), (''default'', static 9), (''content_type'', AValue (PBytes ''application/json'')),
      (''types_to_format'', AValue (PTuple [PObj ''class'' 0, PObj ''class'' 1, PObj ''class'' 2])),
      (''middleware'', AFunction)]"

definition text_component :: component where
  "text_component = default_component 11 ''text_format''
     [(''content_type'', AValue (PBytes ''text/html'')), (''middleware'', AFunction)]"

definition template_component :: component where
  "template_component = default_component 12 ''templates''
     [(''templates_dirs'', AValue (PTuple [PStr (lit ''./templates'')])),
      (''templates_formats'', AValue (PTuple [PStr (lit ''.html'')])), (''content_type'', AValue (PBytes ''text/html'')),
      (''Template'', AValue (PObj ''class'' 3)), (''init'', AFunction), (''render'', AFunction),
      (''middleware'', AFunction), (''list'', AFunction)]"

definition inject_component :: component where
  "inject_component = default_component 13 ''injector'' [(''middleware'', static 10), (''Inject'', static 11)]"

definition request_component :: component where
  "request_component = default_component 14 ''add_request'' [(''middleware'', static 12)]"

definition cli_component_default :: component where
  "cli_component_default =
     (default_component 15 ''cli'' [(''init'', AFunction), (''run'', AFunction), (''components'', AFunction)])
       \<lparr>co_middleware := None\<rparr>"

definition default_components :: "component list" where
  "default_components =
     [patch_component, push_component, logger_component, error_component, timeout_component, route_component,
      executor_component 7 ''process_executor'' run_process_vars, profile_component,
      executor_component 9 ''sync_to_async'' sync_to_async_vars, json_component, text_component,
      template_component, inject_component, request_component, cli_component_default]"

lemmas default_component_simps =
  default_components_def default_component_def patch_component_def push_component_def logger_component_def
  error_component_def timeout_component_def route_component_def profile_component_def json_component_def
  text_component_def template_component_def inject_component_def request_component_def
  cli_component_default_def executor_component_def

section \<open>The chain\<close>

text \<open>The middleware of each component, on the rest of the chain. The handler that the chain is called
  with is replaced by the router's. \<open>_create_handler\<close> puts the middlewares of all components around \<open>_call_next\<close>;
  \<open>Cli\<close> has none.\<close>

definition default_middleware ::
  "'h app_setup \<Rightarrow> run_facts \<Rightarrow> component \<Rightarrow> 'h runner handler_chain \<Rightarrow> 'h runner handler_chain" where
  "default_middleware su rf c call_next =
     (let n = co_name c; call = su_call su
      in if n = ''patch_request'' then patch_middleware call_next
         else if n = ''push'' then push_middleware (su_format su) (su_str su) call call_next
         else if n = ''logger'' then logger_middleware call 0 call_next
         else if n = ''error_handle'' then error_middleware (su_on_error su) call_next
         else if n = ''handler_timeout'' then
           time_limit_middleware (su_timeout su) (rf_outer rf)
             (\<lambda>h r. \<lparr>tk_duration = rf_duration rf, tk_natural = call_next h r, tk_cancelled = rf_cancelled rf r\<rparr>)
         else if n = ''route'' then
           (\<lambda>h. router_middleware call 0 (su_router su) (\<lambda>handler. call_next (Plain_handler handler)))
         else if n = ''process_executor'' then run_process call call_next
         else if n = ''profile'' then profile_middleware call (rf_profiled rf) (rf_slow rf) Profiled call_next
         else if n = ''sync_to_async'' then sync_to_async (su_is_coro su) call call_next
         else if n = ''json_format'' then json_middleware (su_json su) call call_next
         else if n = ''text_format'' then text_middleware ''text/html'' call call_next
         else if n = ''templates'' then template_middleware (su_template su) (su_templates su) call call_next
         else if n = ''injector'' then inject_runner call (su_params su) call_next
         else if n = ''add_request'' then add_request_runner (su_params su) call_next
         else call_next)"

definition app_call ::
  "'h app_setup \<Rightarrow> run_facts \<Rightarrow> component list \<Rightarrow> 'h runner handler_chain" where
  "app_call su rf components =
     run_chain (default_middleware su rf) (end_of_chain (su_params su) (su_body su)) (create_chain components)"

lemma default_names:
  "map co_name default_components =
     [''patch_request'', ''push'', ''logger'', ''error_handle'', ''handler_timeout'', ''route'', ''process_executor'',
      ''profile'', ''sync_to_async'', ''json_format'', ''text_format'', ''templates'', ''injector'', ''add_request'', ''cli'']"
  by (simp add: default_component_simps)

lemma default_chain:
  "create_chain default_components =
     Layer patch_component (Layer push_component (Layer logger_component (Layer error_component
       (Layer timeout_component (Layer route_component
         (Layer (executor_component 7 ''process_executor'' run_process_vars) (Layer profile_component
           (Layer (executor_component 9 ''sync_to_async'' sync_to_async_vars) (Layer json_component
             (Layer text_component (Layer template_component (Layer inject_component (Layer request_component CallNext)))))))))))))"
  by (simp add: default_component_simps)

lemma default_middlewares:
  "default_middleware su rf patch_component f = patch_middleware f"
  "default_middleware su rf push_component f = push_middleware (su_format su) (su_str su) (su_call su) f"
  "default_middleware su rf logger_component f = logger_middleware (su_call su) 0 f"
  "default_middleware su rf error_component f = error_middleware (su_on_error su) f"
  "default_middleware su rf timeout_component f =
     time_limit_middleware (su_timeout su) (rf_outer rf)
       (\<lambda>h r. \<lparr>tk_duration = rf_duration rf, tk_natural = f h r, tk_cancelled = rf_cancelled rf r\<rparr>)"
  "default_middleware su rf route_component f h =
     router_middleware (su_call su) 0 (su_router su) (\<lambda>handler. f (Plain_handler handler))"
  "default_middleware su rf (executor_component i ''process_executor'' attrs) f = run_process (su_call su) f"
  "default_middleware su rf profile_component f =
     profile_middleware (su_call su) (rf_profiled rf) (rf_slow rf) Profiled f"
  "default_middleware su rf (executor_component i ''sync_to_async'' attrs) f =
     sync_to_async (su_is_coro su) (su_call su) f"
  "default_middleware su rf json_component f = json_middleware (su_json su) (su_call su) f"
  "default_middleware su rf text_component f = text_middleware ''text/html'' (su_call su) f"
  "default_middleware su rf template_component f =
     template_middleware (su_template su) (su_templates su) (su_call su) f"
  "default_middleware su rf inject_component f = inject_runner (su_call su) (su_params su) f"
  "default_middleware su rf request_component f = add_request_runner (su_params su) f"
  by (simp_all add: default_middleware_def default_component_simps)

text \<open>The outer components only pass the handler on.\<close>

lemma outer_components_pass:
  assumes "f h = g k"
  shows "patch_middleware f h = patch_middleware g k"
    and "push_middleware ext str call f h = push_middleware ext str call g k"
    and "logger_middleware call n f h = logger_middleware call n g k"
    and "error_middleware on_error f h = error_middleware on_error g k"
  using assms
  by (simp_all add: fun_eq_iff patch_middleware_def push_middleware_def logger_middleware_def error_middleware_def)

lemma time_limit_passes:
  "(\<And>r. f h r = g k r) \<Longrightarrow>
   time_limit_middleware timeout outer f h = time_limit_middleware timeout outer g k"
  by (simp add: fun_eq_iff time_limit_middleware_def)

text \<open>C16: The default application is the chain that \<open>_create_handler\<close> makes of the default components,
  in the order of \<^verbatim>\<open>levin/app.py\<close>, each with its own middleware.\<close>

theorem default_app_is_chain:
  "default_app su rf h = app_call su rf default_components k"
  unfolding app_call_def default_chain run_chain.simps default_middlewares default_app_def timed_def routed_def
    executors_def formatters_def run_handler_def
  by (intro outer_components_pass time_limit_passes refl)

text \<open>What \<^verbatim>\<open>run.py\<close> configures.\<close>

definition run_config :: "(name \<times> (name \<times> inst_value) list) list" where
  "run_config =
     [(''templates'', [(''path'', Value (PStr (lit ''/''))), (''enable'', Value (PBool False))]),
      (''json_format'', [(''json_dumps'', Value (PObj ''builtin'' 0)), (''default'', Value PNone)]),
      (''process_executor'', [(''max_workers'', Value (PInt 1))]),
      (''push'', [(''enable'', Value (PBool False))]),
      (''profile'', [(''depth'', Value (PInt 2))])]"

definition fresh_app :: "'h \<Rightarrow> 'h app" where
  "fresh_app h =
     \<lparr>ap_components = default_components, ap_default = h, ap_handler = None, ap_started = False,
      ap_log = map (\<lambda>c. Init (co_id c)) default_components\<rparr>"

lemma fresh_app_new: "new_app (\<lambda>_. None) default_components h = (None, fresh_app h)"
proof -
  have "init_components (\<lambda>_. None) cs app =
      (None, app\<lparr>ap_components := ap_components app @ cs, ap_log := ap_log app @ map (\<lambda>c. Init (co_id c)) cs\<rparr>)"
    for cs and app :: "'a app"
    by (induction cs arbitrary: app)
      (simp_all add: add_component_def to_component_def insert_position_def py_insert_def)
  then show ?thesis by (simp add: new_app_def fresh_app_def)
qed

lemma configure_each:
  assumes "distinct (map co_id (ap_components app))" and "distinct (map co_name (ap_components app))"
    and "n \<in> set (map co_name (ap_components app))"
  shows "app_configure ((n, kw) # configs) app =
    app_configure configs
      (app\<lparr>ap_components := map (\<lambda>c. if co_name c = n then configure kw c else c) (ap_components app)\<rparr>)"
proof -
  from assms(3) obtain c where c: "get_component n app = Some c"
    by (cases "get_component n app") (auto simp: get_component_def find_None_iff)
  then have "c \<in> set (ap_components app)" "co_name c = n"
    by (auto simp: get_component_def find_Some_iff)
  then have "co_id d = co_id c \<longleftrightarrow> co_name d = n" if "d \<in> set (ap_components app)" for d
    using assms(1,2) that by (auto simp: distinct_map inj_on_def)
  then have "update_component (co_id c) (configure kw) app =
      app\<lparr>ap_components := map (\<lambda>c. if co_name c = n then configure kw c else c) (ap_components app)\<rparr>"
    by (simp add: update_component_def cong: map_cong)
  with c show ?thesis by simp
qed

definition configured :: "(name \<times> (name \<times> inst_value) list) list \<Rightarrow> component \<Rightarrow> component" where
  "configured configs c = (case map_of configs (co_name c) of None \<Rightarrow> c | Some kw \<Rightarrow> configure kw c)"

lemma configured_frame [simp]:
  "co_id (configured configs c) = co_id c" "co_name (configured configs c) = co_name c"
  by (simp_all add: configured_def split: option.split)

lemma configured_Cons:
  assumes "n \<notin> fst ` set configs"
  shows "configured configs (if co_name c = n then configure kw c else c) = configured ((n, kw) # configs) c"
proof -
  have "map_of configs n = None" using assms by (simp add: map_of_eq_None_iff)
  then show ?thesis by (simp add: configured_def)
qed

lemma app_configure_all:
  "distinct (map co_id (ap_components app)) \<Longrightarrow> distinct (map co_name (ap_components app)) \<Longrightarrow>
   distinct (map fst configs) \<Longrightarrow> fst ` set configs \<subseteq> co_name ` set (ap_components app) \<Longrightarrow>
   app_configure configs app = (None, app\<lparr>ap_components := map (configured configs) (ap_components app)\<rparr>)"
proof (induction configs arbitrary: app)
  case Nil
  have "configured [] = (\<lambda>c. c)" by (simp add: configured_def fun_eq_iff)
  then show ?case by simp
next
  case (Cons config configs)
  obtain n kw where config: "config = (n, kw)" by (cases config)
  let ?set = "\<lambda>c. if co_name c = n then configure kw c else c"
  let ?app = "app\<lparr>ap_components := map ?set (ap_components app)\<rparr>"
  have same: "map co_id (map ?set cs) = map co_id cs" "map co_name (map ?set cs) = map co_name cs" for cs
    by simp_all
  have "n \<in> set (map co_name (ap_components app))" using Cons.prems(4) config by auto
  then have "app_configure (config # configs) app = app_configure configs ?app"
    using configure_each [OF Cons.prems(1,2)] config by simp
  also have "\<dots> = (None, ?app\<lparr>ap_components := map (configured configs) (map ?set (ap_components app))\<rparr>)"
  proof -
    have comps: "ap_components ?app = map ?set (ap_components app)" by simp
    have "co_name ` set (map ?set (ap_components app)) = co_name ` set (ap_components app)"
      by (simp only: set_map [symmetric] same(2))
    then have "app_configure configs ?app =
        (None, ?app\<lparr>ap_components := map (configured configs) (ap_components ?app)\<rparr>)"
      using Cons.prems unfolding config by (intro Cons.IH) (simp_all only: comps same list.map fst_conv distinct.simps set_simps image_insert insert_subset)
    then show ?thesis by (simp only: comps)
  qed
  also have "map (configured configs) (map ?set (ap_components app)) = map (configured (config # configs)) (ap_components app)"
    using Cons.prems(3) config by (simp add: configured_Cons)
  finally show ?case by simp
qed

text \<open>\<open>configure\<close> reaches every component that the configuration names, in any order, and no other.\<close>

theorem configure_reaches:
  assumes "distinct (map co_id (ap_components app))" and "distinct (map co_name (ap_components app))"
    and "distinct (map fst configs)" and "fst ` set configs \<subseteq> co_name ` set (ap_components app)"
  shows "app_configure configs app = (None, app\<lparr>ap_components := map (configured configs) (ap_components app)\<rparr>)"
  using assms by (rule app_configure_all)

lemma fresh_app_distinct:
  "distinct (map co_id (ap_components (fresh_app h)))" "distinct (map co_name (ap_components (fresh_app h)))"
  by (simp_all add: fresh_app_def default_component_simps)

theorem configure_reaches_witness:
  "app_configure [(''push'', [(''enable'', Value (PBool False))])] (fresh_app h) =
     (None, (fresh_app h)\<lparr>ap_components :=
        map (configured [(''push'', [(''enable'', Value (PBool False))])]) default_components\<rparr>)"
  by (subst configure_reaches [OF fresh_app_distinct])
    (simp_all add: fresh_app_def default_component_simps)

definition run_py :: "'h \<Rightarrow> exn option \<times> 'h app" where
  "run_py h =
     (case app_configure run_config (fresh_app h) of
        (Some e, app) \<Rightarrow> (Some e, app)
      | (None, app) \<Rightarrow> app_start (\<lambda>_. None) app)"

lemma run_configured:
  "app_configure run_config (fresh_app h) =
     (None, (fresh_app h)\<lparr>ap_components := map (configured run_config) default_components\<rparr>)"
  by (subst app_configure_all [OF fresh_app_distinct])
    (simp_all add: fresh_app_def run_config_def default_component_simps)

lemma run_enabled:
  "map co_name (filter co_enabled (map (configured run_config) default_components)) =
     [''patch_request'', ''logger'', ''error_handle'', ''handler_timeout'', ''route'', ''process_executor'',
      ''profile'', ''sync_to_async'', ''json_format'', ''text_format'', ''injector'', ''add_request'', ''cli'']"
  by (simp add: default_component_simps configured_def run_config_def configure_def set_from_def set_attr_def
      skip_param_def attr_is_method_def co_enabled_def run_process_vars_def sync_to_async_vars_def)

lemma run_py_components:
  "fst (run_py h) = None"
  "ap_components (snd (run_py h)) = filter co_enabled (map (configured run_config) default_components)"
proof -
  have "list_all (\<lambda>c. \<not> start_fails (\<lambda>_. None) c) cs" "refused (\<lambda>_. None) = (\<lambda>c. \<not> co_enabled c)" for cs
    by (auto simp: list_all_iff start_fails_def component_start_def refused_def)
  moreover have "run_py h =
      app_start (\<lambda>_. None) ((fresh_app h)\<lparr>ap_components := map (configured run_config) default_components\<rparr>)"
    by (simp add: run_py_def run_configured)
  ultimately show "fst (run_py h) = None"
    "ap_components (snd (run_py h)) = filter co_enabled (map (configured run_config) default_components)"
    by (simp_all add: app_start_def fresh_app_def start_loop_ok remove_all_filter
        create_handler_def)
qed

lemma find_name_None: "n \<notin> set (map co_name cs) \<Longrightarrow> find (\<lambda>c. co_name c = n) cs = None"
  by (auto simp: find_None_iff)

text \<open>The application of \<^verbatim>\<open>run.py\<close> starts without the pushes and the templates that its configuration
  disables, so \<open>app.templates\<close>, which its handlers use, raises \<open>AttributeError\<close>; the configured number
  of workers does not reach the executor.\<close>

theorem run_py_starts:
  "fst (run_py h) = None \<and>
   map co_name (ap_components (snd (run_py h))) =
     [''patch_request'', ''logger'', ''error_handle'', ''handler_timeout'', ''route'', ''process_executor'',
      ''profile'', ''sync_to_async'', ''json_format'', ''text_format'', ''injector'', ''add_request'', ''cli''] \<and>
   app_getattr ''templates'' (snd (run_py h)) = Inl AttributeError \<and>
   map_option (\<lambda>c. map_of (co_dict c) ''max_workers'') (get_component ''process_executor'' (snd (run_py h))) = Some None \<and>
   map_option (\<lambda>c. map_of (co_dict c) ''depth'') (get_component ''profile'' (snd (run_py h))) = Some (Some (Value (PInt 2)))"
proof -
  have "find (\<lambda>c. co_name c = ''templates'') (ap_components (snd (run_py h))) = None"
    by (rule find_name_None) (simp only: run_py_components run_enabled, simp)
  moreover have "map_option (\<lambda>c. map_of (co_dict c) p) (find (\<lambda>c. co_name c = n) (ap_components (snd (run_py h)))) =
      map_option (\<lambda>c. map_of (co_dict c) p)
        (find (\<lambda>c. co_name c = n) (filter co_enabled (map (configured run_config) default_components)))" for p n
    by (simp only: run_py_components)
  moreover have "map_option (\<lambda>c. map_of (co_dict c) ''max_workers'')
      (find (\<lambda>c. co_name c = ''process_executor'') (filter co_enabled (map (configured run_config) default_components))) =
      Some None"
    "map_option (\<lambda>c. map_of (co_dict c) ''depth'')
      (find (\<lambda>c. co_name c = ''profile'') (filter co_enabled (map (configured run_config) default_components))) =
      Some (Some (Value (PInt 2)))"
    by (simp_all add: default_component_simps configured_def run_config_def configure_def set_from_def set_attr_def
      skip_param_def attr_is_method_def co_enabled_def run_process_vars_def sync_to_async_vars_def)
  ultimately show ?thesis
    by (simp only: run_py_components run_enabled app_getattr_def get_component_def option.case simp_thms)
qed

end
