(* ===== verification/Answers.thy ===== *)
theory Answers
  imports Defaults
begin

text \<open>
  The handlers that the repository brings along, in the default application: \<open>_not_found_handler\<close>
  (\<^verbatim>\<open>levin/components/router.py\<close>), which answers what no route accepts, and the default handler of an
  application (\<^verbatim>\<open>levin/core/app.py\<close>), which answers when no component chooses another. The first is a
  plain function, so it runs in the thread pool.
\<close>

section \<open>The handlers\<close>

definition not_found_handler :: "request \<Rightarrow> response" where
  "not_found_handler r = new_response 404 ''Not found'' None [] False"

definition default_handler :: "request \<Rightarrow> response" where
  "default_handler r = new_response 200 ''<html><head></head><body>LEVIN</body></html>'' None [] False"

section \<open>Plain functions in the chain\<close>

text \<open>A function that can be called with one argument.\<close>

definition takes_request :: "'h app_setup \<Rightarrow> 'h \<Rightarrow> name \<Rightarrow> bool" where
  "takes_request su h n \<longleftrightarrow>
     \<not> su_is_coro su h \<and> (\<exists>p ps. su_params su h = p # ps \<and> pm_name p = n \<and> list_all pm_default ps)"

lemma one_argument:
  assumes "list_all pm_default ps"
  shows "py_call (partial_arg A_request (new_callable (p # ps))) = Inr [(pm_name p, A_request)]"
proof -
  have "\<not> list_ex (\<lambda>q. \<not> pm_default q \<and> pm_name q \<noteq> pm_name p) ps"
    using assms by (auto simp: list_ex_iff list_all_iff)
  then show ?thesis by (simp add: partial_arg_def new_callable_def py_call_def Let_def)
qed

lemma pool_call:
  assumes "takes_request su h n"
  shows "run_handler (su_call su) (su_params su) (su_body su) (In_pool ThreadPool (Plain_handler h)) r =
    su_body su h [(n, A_request)] r"
  using assms one_argument
  by (auto simp: takes_request_def run_handler_eqs split: prod.split)

lemma sync_wrapped:
  assumes "\<not> su_is_coro su h" and "look_scope r ''process'' = None" and "\<not> rf_profiled rf"
    and "\<And>v. rf_slow rf v = Inr False" and "call_next (In_pool ThreadPool (Plain_handler h)) r = (res, r1)"
    and "look_scope r1 ''profile_condition'' = map_option Plain v"
  shows "executors su rf call_next (Plain_handler h) r = (res, r1)"
proof -
  have "rq_get (su_call su) ''process'' (PBool False) r = (Inr (PBool False), r)"
    using assms(2) by (rule rq_get_missing)
  moreover have "sync_to_async (su_is_coro su) (su_call su) call_next (Plain_handler h) r = (res, r1)"
    using assms(1,5) calculation by (simp add: sync_to_async_def executor_middleware_def sync_condition_def)
  then have "profile_middleware (su_call su) False (rf_slow rf) Profiled
      (sync_to_async (su_is_coro su) (su_call su) call_next) (Plain_handler h) r = (res, r1)"
    using assms(4) rq_get_settled [OF assms(6)] by (intro profile_quiet) simp_all
  ultimately show ?thesis
    using assms(3) by (simp add: executors_def run_process_def executor_middleware_def process_condition_def)
qed

lemma formatters_response:
  assumes "look_scope r ''template'' = None" and "call_next h r = (Inr (R_response resp), r1)"
  shows "formatters su call_next h r = (Inr (R_response resp), r1)"
  using assms
  by (simp add: formatters_def json_middleware_def text_middleware_def template_middleware_def rq_get_missing)

section \<open>Properties\<close>

text \<open>C29: What no route accepts is answered with 404 \<open>Not found\<close> by the default application: the handler
  is called with the request alone, in the thread pool, and its response goes out as it is, whatever the
  method, the path and the query.\<close>

theorem default_app_not_found:
  assumes "usual_calls su n cfg other info" and "usual_request r"
    and "first_route (rt_routes (su_router su)) (rq_method r) (target r) = None"
    and "takes_request su (rt_not_found (su_router su)) ''request''"
    and "\<And>t. su_body su (rt_not_found (su_router su)) [(''request'', A_request)] t =
      (Inr (R_response (not_found_handler t)), t)"
    and "unhindered su rf"
  shows "fst (default_app su rf h0 r) = Inr (R_response (new_response 404 ''Not found'' None [] False))"
proof -
  let ?h = "rt_not_found (su_router su)" and ?resp = "new_response 404 ''Not found'' None [] False"
  have "table_answer (su_router su) (rq_method r) (target r) = (?h, [])"
    using assms(3) by (simp add: table_answer_def)
  from routed_to_handler [OF assms(1,2) this] obtain r' where
    routed: "routed su rf h0 (entered r) = inner_chain su rf (Plain_handler ?h) r'" and state: "after_routing r [] r'"
    by blast
  have none: "look_scope r' ''process'' = None" "look_scope r' ''template'' = None"
    "look_scope r' ''profile_condition'' = map_option Plain None"
    using state by (simp_all add: after_routing_def chain_keys_def)
  have "formatters su (run_handler (su_call su) (su_params su) (su_body su)) (In_pool ThreadPool (Plain_handler ?h)) r' =
      (Inr (R_response ?resp), r')"
    using pool_call [OF assms(4), of r'] assms(5) by (intro formatters_response none(2)) (simp add: not_found_handler_def)
  then have "routed su rf h0 (entered r) = (Inr (R_response ?resp), r')"
    unfolding routed using assms(4,6) none
    by (intro sync_wrapped) (simp_all add: takes_request_def unhindered_def)
  then have "error_middleware (su_on_error su) (timed su rf) h0 (entered r) = (Inr (R_response ?resp), r')"
    using timed_in_time [of rf su h0 "entered r"] assms(6) by (simp add: error_middleware_def unhindered_def)
  then show ?thesis using outer_passes [OF assms(1,2) state] by simp
qed

definition sample_without_route :: "nat app_setup" where
  "sample_without_route = sample_setup
     \<lparr>su_router := two_routes\<lparr>rt_not_found := 2\<rparr>,
      su_body := (\<lambda>h env t. (Inr (R_response (not_found_handler t)), t))\<rparr>"

theorem default_app_not_found_witness:
  "fst (default_app sample_without_route sample_facts 0 (sample_request ''PUT'' ''/a?x=1'')) =
     Inr (R_response (new_response 404 ''Not found'' None [] False))"
proof (rule default_app_not_found [OF _ sample_request_usual])
  show "usual_calls sample_without_route 0 sample_config (\<lambda>f r. (Inr PNone, r)) PNone"
    using sample_usual(1) by (simp add: usual_calls_def sample_without_route_def)
  show "unhindered sample_without_route sample_facts"
    using sample_usual(2) by (simp add: unhindered_def sample_without_route_def)
qed (simp_all add: sample_without_route_def sample_setup_def sample_request_def new_request_def first_route_def
  two_routes_def ascii_def plain_target_def takes_request_def)

text \<open>An application none of whose components has a middleware answers every request with the default
  page: the chain is \<open>_call_next\<close>, which calls the handler and nothing else.\<close>

lemma chain_without_middleware: "list_all (\<lambda>c. co_middleware c = None) cs \<Longrightarrow> create_chain cs = CallNext"
  by (induction cs) simp_all

theorem bare_app_answers_page:
  assumes "app_start hook app = (None, app')" and "\<not> ap_started app" and "ap_default app = default_handler"
    and "list_all (\<lambda>c. co_middleware c = None) (ap_components app)"
  shows "\<exists>chain h. ap_handler app' = Some (chain, h) \<and>
    run_chain mw (\<lambda>h. h r) chain h = new_response 200 ''<html><head></head><body>LEVIN</body></html>'' None [] False"
proof -
  obtain rm ev where "app' = create_handler default_handler
      (app\<lparr>ap_started := True, ap_log := ap_log app @ ev, ap_components := remove_all rm (ap_components app)\<rparr>)"
    using assms(1-3) by (auto simp: app_start_def split: prod.split_asm option.split_asm)
  moreover have "list_all (\<lambda>c. co_middleware c = None) (remove_all rm (ap_components app))"
    using assms(4) remove_all_subset by (auto simp: list_all_iff)
  ultimately show ?thesis by (simp add: create_handler_def chain_without_middleware default_handler_def)
qed

theorem bare_app_answers_page_witness:
  "\<exists>chain h. ap_handler (snd (app_start (\<lambda>_. None)
      \<lparr>ap_components = [cli_component_default], ap_default = default_handler, ap_handler = None, ap_started = False, ap_log = []\<rparr>)) =
      Some (chain, h) \<and>
    run_chain (\<lambda>c f. f) (\<lambda>h. h (sample_request ''GET'' ''/'')) chain h =
      new_response 200 ''<html><head></head><body>LEVIN</body></html>'' None [] False"
  by (rule bare_app_answers_page [of "\<lambda>_. None" "\<lparr>ap_components = [cli_component_default], ap_default = default_handler,
      ap_handler = None, ap_started = False, ap_log = []\<rparr>"])
    (simp_all add: app_start_def component_start_def default_component_simps co_enabled_def)

end
