(* ===== verification/Whole.thy ===== *)
theory Whole
  imports Server Answers
begin

text \<open>
  The server, the connection, the parsers and the default application together: what a client sends and
  what it gets back. The handler of a connection (\<^verbatim>\<open>self._handler\<close> in \<^verbatim>\<open>levin/core/connection.py\<close>) is the
  application's; here its reply becomes the event that the connection waits for.
\<close>

section \<open>The application as the handler of a connection\<close>

text \<open>The middle of \<open>handle_request\<close>: the handler is awaited and what it returns is written. What is not a
  response fails in the parser, which reads its status. A response whose status is not a number is left
  to the parser in question: \<open>None\<close> here.\<close>

definition app_serves ::
  "'p protocol \<Rightarrow> (request \<Rightarrow> reply result) \<Rightarrow> nat \<Rightarrow> 'p conn \<Rightarrow> 'p conn option" where
  "app_serves pr handler f c =
     (case cn_table c f of
        None \<Rightarrow> None
      | Some fu \<Rightarrow>
          (case handler (fu_request fu) of
             Inl e \<Rightarrow> Some (handler_raised pr f e c)
           | Inr (R_response resp) \<Rightarrow> Some (handler_returned pr f resp c)
           | Inr (R_odd status body headers) \<Rightarrow> None
           | Inr _ \<Rightarrow> Some (handler_raised pr f AttributeError c)))"

lemma app_serves_response:
  assumes "cn_table c f = Some fu" and "handler (fu_request fu) = Inr (R_response resp)"
  shows "app_serves pr handler f c = Some (handler_returned pr f resp c)"
  using assms by (simp add: app_serves_def)

text \<open>A request from the parser, as the connection hands it to the application.\<close>

lemma served_usual:
  assumes "ascii m" "ascii p" "ascii v" and "CHR ''?'' \<in> set p \<longrightarrow> plain_target p"
  shows "usual_request (fu_request (begin_request (new_request p m body hs v i scheme)))"
proof -
  let ?r = "fu_request (begin_request (new_request p m body hs v i scheme))"
  have "look_scope ?r k = (if k = ''get_transport_info'' then Some (Lazy F_get_transport_info) else None)" for k
    by (simp add: begin_request_def look_rq_set) (simp add: look_scope_def new_request_def)
  moreover have "rq_method ?r = m" "rq_raw_path ?r = p" "rq_protocol ?r = v"
    by (simp_all add: begin_request_def new_request_def)
  ultimately show ?thesis
    using assms by (simp add: usual_request_def fresh_request_def chain_keys_def)
qed

section \<open>Properties\<close>

text \<open>C1: The whole way: the bytes of an HTTP/1 request on a new connection, for a path that a route accepts
  whose coroutine handler returns a dictionary, list or tuple in time, are answered with the bytes of a
  response that has the status of the route and the JSON text of that value, and the request is over.\<close>

theorem http1_json_served:
  assumes "h2_receive lib (request_text m p v hs body) (h2_initiate lib s0) = (Inl e, s1)" and "protocol_error e"
    and "token_ok m" "token_ok p" "token_ok v" and "occurs_in ''HTTP'' v" and "\<forall>nv \<in> set hs. header_ok nv"
    and "wants_h2c (new_request p m (Some (surviving (splitlines body))) (map clean_header hs) v 0 ''http'') = None"
    and "ascii m" "ascii p" "ascii v" and "CHR ''?'' \<in> set p \<longrightarrow> plain_target p"
    and "usual_calls su n cfg other info" and "unhindered su rf" and "su_json su = default_json"
    and "table_answer (su_router su) m (takeWhile (\<lambda>c. c \<noteq> CHR ''?'') p) = (h, data)"
    and "list_all (\<lambda>k. map_of data k = None) [''process'', ''template'', ''push'', ''_pushes'']"
    and "(case map_of data ''status'' of None \<Rightarrow> PInt 200 | Some w \<Rightarrow> w) = PInt i" and "i \<in> fst ` set HTTP_STATUSES"
    and "request_coroutine su h" and "\<And>t. su_body su h [(''request'', A_request)] t = (Inr (R_value x), t)"
    and "is_container x" and "json_value True x = Inr s"
  shows "let pr = levin_protocol lib ht authority;
      c = snd (data_received pr (request_text m p v hs body) (connection_made pr (handle_connection s0 ssl response_500)))
    in \<exists>d. app_serves pr (\<lambda>r. fst (default_app su rf h0 r)) 0 c = Some d \<and>
         concat (cn_out d) =
           wire (new_response i (map char_of s) (Some [(''content-type'', ''application/json'')]) [] False) \<and>
         cn_futures d = []"
proof -
  let ?pr = "levin_protocol lib ht authority"
  let ?c = "snd (data_received ?pr (request_text m p v hs body) (connection_made ?pr (handle_connection s0 ssl response_500)))"
  let ?req = "new_request p m (Some (surviving (splitlines body))) (map clean_header hs) v 0 ''http''"
  let ?r = "fu_request (begin_request ?req)"
  let ?resp = "new_response i (map char_of s) (Some [(''content-type'', ''application/json'')]) [] False"
  have resp: "rs_status ?resp \<in> fst ` set HTTP_STATUSES" "rs_pushes ?resp = []"
    using assms(19) by (simp_all add: new_response_def)
  have c: "cn_table ?c 0 = Some (begin_request ?req)" "concat (cn_out (handler_returned ?pr 0 ?resp ?c)) = wire ?resp"
    "cn_futures (handler_returned ?pr 0 ?resp ?c) = []"
    using http1_served [OF assms(1-8) resp, of ht authority ssl] by (simp_all add: Let_def)
  have "rq_method ?r = m" "rq_raw_path ?r = p" by (simp_all add: begin_request_def new_request_def)
  then have "fst (default_app su rf h0 ?r) = Inr (R_response ?resp)"
    using assms(13-18,20-23) served_usual [OF assms(9-12)] by (intro json_answered) simp_all
  with c show ?thesis by (simp add: Let_def app_serves_response)
qed

theorem http1_json_served_witness:
  "let pr = levin_protocol toy_lib (\<lambda>_. two_chunks) (\<lambda>_. Inr []);
      c = snd (data_received pr (request_text ''GET'' ''/a?x=1'' ''HTTP/1.1'' [] [])
            (connection_made pr (handle_connection \<lparr>ty_window = 3, ty_open = True, ty_sent = []\<rparr> False response_500)))
    in \<exists>d. app_serves pr (\<lambda>r. fst (default_app sample_setup sample_facts 0 r)) 0 c = Some d \<and>
         concat (cn_out d) =
           wire (new_response 200 (map char_of sample_text) (Some [(''content-type'', ''application/json'')]) [] False) \<and>
         cn_futures d = []"
proof (rule http1_json_served [where e = ProtocolError and m = "''GET''" and p = "''/a?x=1''" and v = "''HTTP/1.1''" and body = "[]"
      and hs = "[]" and h = 1 and data = "[(''pattern'', PBytes ''/a'')]" and x = sample_value,
      OF _ _ _ _ _ _ _ _ _ _ _ _ sample_usual(1,2) _ _ _ _ _ sample_usual(3) _ _ sample_json])
  show "table_answer (su_router sample_setup) ''GET'' (takeWhile (\<lambda>c. c \<noteq> CHR ''?'') ''/a?x=1'') =
      (1, [(''pattern'', PBytes ''/a'')])"
    by (simp add: sample_setup_def table_answer_def first_route_def two_routes_def slash_append_def ends_with_def)
qed (simp_all add: toy_lib_def protocol_error_def token_ok_def is_space_def wants_h2c_def new_request_def
  create_headers_map_def ascii_def plain_target_def sample_setup_def sample_value_def HTTP_STATUSES_def)

end
