(* ===== verification/Sessions.thy ===== *)
theory Sessions
  imports Whole
begin

text \<open>
  A connection that is kept open: requests that arrive one after the other, each when the one before it has
  been answered (\<^verbatim>\<open>levin/core/connection.py\<close> with \<^verbatim>\<open>levin/core/parsers/http_simple.py\<close>). The first request
  chooses the parser; from then on the connection is a function from requests to responses.
\<close>

section \<open>One request after the other\<close>

text \<open>The data of a request arrive, its handler runs and the response is written; then the next. The future of
  the request is the next one of the connection. \<open>None\<close> is that of \<open>app_serves\<close>.\<close>

fun session ::
  "'p protocol \<Rightarrow> (request \<Rightarrow> reply result) \<Rightarrow> bytes list \<Rightarrow> 'p conn \<Rightarrow> 'p conn option" where
  "session pr handler [] c = Some c"
| "session pr handler (data # rest) c =
     (case app_serves pr handler (cn_next c) (snd (data_received pr data c)) of
        None \<Rightarrow> None
      | Some c' \<Rightarrow> session pr handler rest c')"

text \<open>A request as it is sent, and as the handler gets it.\<close>

record sent_request =
  sr_method :: bytes
  sr_path :: bytes
  sr_version :: bytes
  sr_headers :: "(bytes \<times> bytes) list"
  sr_body :: bytes

definition sent_text :: "sent_request \<Rightarrow> bytes" where
  "sent_text q = request_text (sr_method q) (sr_path q) (sr_version q) (sr_headers q) (sr_body q)"

definition parsed_request :: "sent_request \<Rightarrow> request" where
  "parsed_request q =
     new_request (sr_path q) (sr_method q) (Some (surviving (splitlines (sr_body q))))
       (map clean_header (sr_headers q)) (sr_version q) 0 ''http''"

definition handled_request :: "sent_request \<Rightarrow> request" where
  "handled_request q = fu_request (begin_request (parsed_request q))"

definition sent_ok :: "sent_request \<Rightarrow> bool" where
  "sent_ok q \<longleftrightarrow>
     token_ok (sr_method q) \<and> token_ok (sr_path q) \<and> token_ok (sr_version q) \<and>
     occurs_in ''HTTP'' (sr_version q) \<and> list_all header_ok (sr_headers q)"

section \<open>Lemmas\<close>

lemma sent_parsed: "sent_ok q \<Longrightarrow> simple_handle_request (sent_text q) = Inr ([], [parsed_request q], False)"
  unfolding sent_text_def parsed_request_def
  by (rule simple_request_text) (auto simp: sent_ok_def list_all_iff)

lemma begun_request: "begin_request (parsed_request q) =
    \<lparr>fu_state = Pending, fu_request = handled_request q, fu_stage = Handling, fu_closes = False\<rparr>"
  by (simp add: handled_request_def begin_request_def)

text \<open>What holds between the requests.\<close>

definition at_rest :: "bytes \<Rightarrow> 's parser conn \<Rightarrow> bool" where
  "at_rest out c \<longleftrightarrow>
     concat (cn_out c) = out \<and> cn_futures c = [] \<and>
     (\<exists>i < length (cn_parsers c). cn_parser c = Some i \<and> cn_parsers c ! i = P_simple)"

lemma scheduled_answer:
  assumes "at_rest out c" and "handler (handled_request q) = Inr (R_response resp)"
    and "rs_status resp \<in> fst ` set HTTP_STATUSES" and "rs_pushes resp = []"
  shows "\<exists>d. app_serves (levin_protocol lib ht authority) handler (cn_next c) (schedule (parsed_request q) c) = Some d \<and>
    at_rest (out @ wire resp) d"
proof -
  let ?pr = "levin_protocol lib ht authority" and ?c = "schedule (parsed_request q) c"
  obtain i where i: "cn_parser c = Some i" "i < length (cn_parsers c)" "cn_parsers c ! i = P_simple"
    using assms(1) by (auto simp: at_rest_def)
  have c: "cn_table ?c (cn_next c) = Some (begin_request (parsed_request q))" "pending ?c (cn_next c)"
    "\<not> closes ?c (cn_next c)" "cn_parser ?c = Some i" "cn_parsers ?c = cn_parsers c" "cn_out ?c = cn_out c"
    "cn_futures ?c = [cn_next c]"
    using i assms(1) by (simp_all add: schedule_def pending_def closes_def begun_request at_rest_def)
  have "app_serves ?pr handler (cn_next c) ?c = Some (handler_returned ?pr (cn_next c) resp ?c)"
    using assms(2) by (intro app_serves_response [OF c(1)]) (simp add: handled_request_def)
  moreover obtain d where "handler_returned ?pr (cn_next c) resp ?c = d"
    "concat (cn_out d) = concat (cn_out ?c) @ wire resp" "cn_parser d = Some i" "cn_parsers d = cn_parsers ?c"
    "cn_futures d = remove1 (cn_next c) (cn_futures ?c)"
    using simple_answer [of ?c i "cn_next c" resp lib ht authority] c i(2,3) assms(3,4) by auto
  ultimately show ?thesis using assms(1) c(5-7) i by (auto simp: at_rest_def)
qed

lemma rest_received:
  assumes "at_rest out c" and "sent_ok q"
  shows "snd (data_received (levin_protocol lib ht authority) (sent_text q) c) = schedule (parsed_request q) c"
proof -
  obtain i where "cn_parser c = Some i" "i < length (cn_parsers c)" "cn_parsers c ! i = P_simple"
    using assms(1) by (auto simp: at_rest_def)
  moreover have "(cn_parsers c)[i := P_simple] = cn_parsers c" using calculation(2,3) by (metis list_update_id)
  ultimately show ?thesis
    using sent_parsed [OF assms(2)] by (simp add: data_received_def conn_parse_def parser_request_def)
qed

lemma session_answers:
  assumes "at_rest out c" and "list_all sent_ok qs"
    and "\<And>q. q \<in> set qs \<Longrightarrow> handler (handled_request q) = Inr (R_response (answer q))"
    and "\<And>q. q \<in> set qs \<Longrightarrow> rs_status (answer q) \<in> fst ` set HTTP_STATUSES \<and> rs_pushes (answer q) = []"
  shows "\<exists>d. session (levin_protocol lib ht authority) handler (map sent_text qs) c = Some d \<and>
    at_rest (out @ concat (map (wire \<circ> answer) qs)) d"
  using assms
proof (induction qs arbitrary: out c)
  case Nil
  then show ?case by simp
next
  case (Cons q qs)
  obtain d where d: "app_serves (levin_protocol lib ht authority) handler (cn_next c) (schedule (parsed_request q) c) = Some d"
    "at_rest (out @ wire (answer q)) d"
    using scheduled_answer [OF Cons.prems(1), of handler q "answer q" lib ht authority] Cons.prems(3,4) by auto
  have "sent_ok q" using Cons.prems(2) by simp
  then have "session (levin_protocol lib ht authority) handler (map sent_text (q # qs)) c =
      session (levin_protocol lib ht authority) handler (map sent_text qs) d"
    using d(1) rest_received [OF Cons.prems(1)] by simp
  with Cons.IH [OF d(2)] Cons.prems(2-4) show ?case by simp
qed

text \<open>The first request: the HTTP/2 parser refuses it, and the HTTP/1 parser is chosen.\<close>

lemma first_received:
  fixes lib :: "'s h2_lib" and ht :: httptools and authority :: "request \<Rightarrow> pystr result" and ssl :: bool
  assumes "h2_receive lib (sent_text q) (h2_initiate lib s0) = (Inl e, s1)" and "protocol_error e"
    and "sent_ok q" and "wants_h2c (parsed_request q) = None"
  defines "pr \<equiv> levin_protocol lib ht authority"
  defines "c \<equiv> connection_made pr (handle_connection s0 ssl response_500)"
  shows "\<exists>d. snd (data_received pr (sent_text q) c) = schedule (parsed_request q) d \<and> at_rest [] d \<and> cn_next d = cn_next c"
proof -
  let ?data = "sent_text q" and ?hy = "hyper_connect lib (new_hyper s0)"
  have parsed: "simple_handle_request ?data = Inr ([], [parsed_request q], False)"
    using assms(3) by (rule sent_parsed)
  have "h2_receive lib ?data (hy_conn ?hy) = (Inl e, s1)"
    using assms(1) by (simp add: hyper_connect_def new_hyper_def)
  then have "fst (hyper_handle_request lib ?hy ?data) = Inl ParseError"
    using assms(2,4) parsed by (simp add: hyper_handle_request_def hyper_handle_http1_def handle_http1_cases)
  then have refuse: "list_all (\<lambda>p. fst (pr_request pr p ?data) = Inl ParseError) [P_hyper ?hy]"
    by (cases "hyper_handle_request lib ?hy ?data") (simp add: pr_def parser_request_def)
  have take_it: "pr_request pr P_simple ?data = (Inr ([], [parsed_request q], False), P_simple)"
    using parsed by (simp add: pr_def parser_request_def)
  have new: "cn_parsers c = [P_hyper ?hy] @ P_simple # [P_tools]" "cn_parser c = None" "cn_out c = []" "cn_futures c = []"
    by (simp_all add: c_def pr_def connection_made_def handle_connection_def new_conn_def default_parsers_def
        parser_connect_def)
  obtain hy' where "conn_parse pr ?data c =
      (Inr (Some ([], [parsed_request q], False)), c\<lparr>cn_parsers := [hy', P_simple, P_tools], cn_parser := Some 1\<rparr>)"
    using parse_loop_first [OF refuse take_it, of 0 "[P_tools]"] new by (simp add: conn_parse_def)
  then have "snd (data_received pr ?data c) =
      schedule (parsed_request q) (c\<lparr>cn_parsers := [hy', P_simple, P_tools], cn_parser := Some 1\<rparr>)"
    by (simp add: data_received_def)
  moreover have "at_rest [] (c\<lparr>cn_parsers := [hy', P_simple, P_tools], cn_parser := Some 1\<rparr>)"
    using new by (simp add: at_rest_def)
  ultimately show ?thesis by (intro exI [of _ "c\<lparr>cn_parsers := [hy', P_simple, P_tools], cn_parser := Some 1\<rparr>"]) simp
qed

section \<open>Properties\<close>

text \<open>C3: A connection that is kept open, with requests that arrive when the one before has been answered, is the
  function \<open>wire \<circ> answer\<close> mapped over the requests: as long as the handler answers with responses, their bytes
  are written in the order of the requests, one for each, and in the end no request is in progress. Nothing of an
  earlier request, or of the parser that was tried first, shows in a later response.\<close>

theorem http1_session:
  assumes "h2_receive lib (sent_text q) (h2_initiate lib s0) = (Inl e, s1)" and "protocol_error e"
    and "wants_h2c (parsed_request q) = None" and "list_all sent_ok (q # qs)"
    and "\<And>q'. q' \<in> set (q # qs) \<Longrightarrow> handler (handled_request q') = Inr (R_response (answer q'))"
    and "\<And>q'. q' \<in> set (q # qs) \<Longrightarrow> rs_status (answer q') \<in> fst ` set HTTP_STATUSES \<and> rs_pushes (answer q') = []"
  shows "let pr = levin_protocol lib ht authority
    in \<exists>d. session pr handler (map sent_text (q # qs)) (connection_made pr (handle_connection s0 ssl response_500)) = Some d \<and>
         concat (cn_out d) = concat (map (wire \<circ> answer) (q # qs)) \<and> cn_futures d = []"
proof -
  let ?pr = "levin_protocol lib ht authority"
  let ?c = "connection_made ?pr (handle_connection s0 ssl response_500)"
  have ok: "sent_ok q" using assms(4) by simp
  obtain c1 where first: "snd (data_received ?pr (sent_text q) ?c) = schedule (parsed_request q) c1" "at_rest [] c1"
    "cn_next c1 = cn_next ?c"
    using first_received [OF assms(1,2) ok assms(3), of ht authority ssl] by blast
  obtain c2 where second: "app_serves ?pr handler (cn_next c1) (schedule (parsed_request q) c1) = Some c2"
    "at_rest ([] @ wire (answer q)) c2"
    using scheduled_answer [OF first(2), of handler q "answer q" lib ht authority] assms(5,6) by auto
  obtain d where "session ?pr handler (map sent_text qs) c2 = Some d"
    "at_rest (wire (answer q) @ concat (map (wire \<circ> answer) qs)) d"
    using session_answers [of "wire (answer q)" c2 qs handler answer lib ht authority] second(2) assms(4-6) by auto
  then show ?thesis using first second(1) by (simp add: Let_def at_rest_def)
qed

definition get_page :: "bytes \<Rightarrow> sent_request" where
  "get_page p = \<lparr>sr_method = ''GET'', sr_path = p, sr_version = ''HTTP/1.1'', sr_headers = [], sr_body = []\<rparr>"

definition echo_path :: "request \<Rightarrow> reply result" where
  "echo_path r = Inr (R_response (new_response 200 (rq_raw_path r) None [] False))"

theorem http1_session_witness:
  "let pr = levin_protocol toy_lib (\<lambda>_. two_chunks) (\<lambda>_. Inr [])
    in \<exists>d. session pr echo_path (map sent_text [get_page ''/a'', get_page ''/b''])
           (connection_made pr (handle_connection \<lparr>ty_window = 3, ty_open = True, ty_sent = []\<rparr> False response_500)) = Some d \<and>
         concat (cn_out d) = wire (new_response 200 ''/a'' None [] False) @ wire (new_response 200 ''/b'' None [] False) \<and>
         cn_futures d = []"
proof -
  let ?s = "\<lparr>ty_window = 3, ty_open = True, ty_sent = []\<rparr>"
  let ?answer = "\<lambda>q. new_response 200 (sr_path q) None [] False"
  have refused: "h2_receive toy_lib (sent_text (get_page ''/a'')) (h2_initiate toy_lib ?s) = (Inl ProtocolError, ?s)"
    "protocol_error ProtocolError"
    by (simp_all add: toy_lib_def protocol_error_def)
  have plain: "wants_h2c (parsed_request (get_page ''/a'')) = None"
    by (simp add: wants_h2c_def parsed_request_def get_page_def new_request_def create_headers_map_def)
  have ok: "list_all sent_ok [get_page ''/a'', get_page ''/b'']"
    by (simp add: sent_ok_def get_page_def token_ok_def is_space_def)
  have path: "rq_raw_path (handled_request q) = sr_path q" for q
    by (simp add: handled_request_def begin_request_def parsed_request_def new_request_def)
  have answer: "echo_path (handled_request q) = Inr (R_response (?answer q))" for q by (simp add: echo_path_def path)
  have good: "rs_status (?answer q) \<in> fst ` set HTTP_STATUSES \<and> rs_pushes (?answer q) = []" for q
    by (simp add: new_response_def HTTP_STATUSES_def)
  have page: "sr_path (get_page p) = p" for p by (simp add: get_page_def)
  from http1_session [where answer = ?answer and handler = echo_path, OF refused plain ok answer good, of "\<lambda>_. two_chunks" "\<lambda>_. Inr []" False]
  show ?thesis by (simp add: Let_def page del: session.simps)
qed

end
