(* ===== verification/Http2_Served.thy ===== *)
theory Http2_Served
  imports Server
begin

text \<open>
  \<^verbatim>\<open>levin/core/connection.py\<close> with the parser of \<^verbatim>\<open>levin/core/parsers/hyper.py\<close>: one HTTP/2 request, from
  the bytes that the library takes to the frames of its response.
\<close>

section \<open>Events between the headers and the end\<close>

text \<open>Events that neither open nor end a stream.\<close>

fun passing :: "h2_event \<Rightarrow> bool" where
  "passing (Ev_data i data) = True"
| "passing (Ev_reset i) = True"
| "passing Ev_other = True"
| "passing _ = False"

lemma passing_only_data: "list_all passing evs \<Longrightarrow> only_data i evs"
proof (induction evs)
  case Nil
  then show ?case by simp
next
  case (Cons ev evs)
  then show ?case by (cases ev) simp_all
qed

lemma passing_events:
  "list_all passing evs \<Longrightarrow> \<exists>st'. hyper_events evs reqs close st = (Inr (reqs, close), st')"
proof (induction evs arbitrary: st)
  case Nil
  then show ?case by simp
next
  case (Cons ev evs)
  then show ?case by (cases ev) simp_all
qed

lemma one_request:
  assumes "list_all passing evs" and "request_from_event i hs = Inr req"
  shows "\<exists>st'. hyper_events (Ev_request i hs # evs @ [Ev_ended i]) [] False st =
    (Inr ([append_body (stream_data i evs) req], False), st')"
proof -
  let ?st = "st(i \<mapsto> req)"
  obtain st1 where evs: "hyper_events evs [] False ?st = (Inr ([], False), st1)"
    using passing_events [OF assms(1)] by blast
  have "st1 i = Some (append_body (stream_data i evs) req)"
    using hyper_events_data [OF evs passing_only_data [OF assms(1)]] by simp
  with evs assms(2) show ?thesis by (simp add: hyper_events_append)
qed

lemma request_stream:
  "request_from_event i hs = Inr req \<Longrightarrow> rq_stream req = i"
  by (auto simp: request_from_event_def new_request_def split: sum.splits)

section \<open>Receiving and answering\<close>

lemma begin_request_stream [simp]: "rq_stream (fu_request (begin_request req)) = rq_stream req"
  by (simp add: begin_request_def)

lemma append_body_stream [simp]: "rq_stream (append_body data req) = rq_stream req"
  by (simp add: append_body_def)

lemma no_output: "cn_out c = [] \<Longrightarrow> c\<lparr>cn_out := []\<rparr> = c"
  by (cases c) simp

lemma http2_received:
  fixes lib :: "'s h2_lib" and ht :: httptools and authority :: "request \<Rightarrow> pystr result"
  assumes "h2_receive lib data (h2_initiate lib s0) = (Inr (Ev_request i hs # evs @ [Ev_ended i]), s1)"
    and "h2_to_send lib s1 = (out, s2)" and "list_all passing evs" and "request_from_event i hs = Inr req"
  defines "pr \<equiv> levin_protocol lib ht authority"
  obtains st where
    "snd (data_received pr data (connection_made pr (handle_connection s0 ssl response_500))) =
     schedule (append_body (stream_data i evs) req)
       ((connection_made pr (handle_connection s0 ssl response_500))
          \<lparr>cn_parsers := [P_hyper \<lparr>hy_conn = s2, hy_streams = st\<rparr>, P_simple, P_tools], cn_parser := Some 0,
           cn_out := (if out = [] then [] else [out])\<rparr>)"
proof -
  let ?hy = "hyper_connect lib (new_hyper s0)" and ?req = "append_body (stream_data i evs) req"
  let ?c0 = "connection_made pr (handle_connection s0 ssl response_500)"
  have hy: "hy_conn ?hy = h2_initiate lib s0" by (simp add: hyper_connect_def new_hyper_def)
  obtain st where "hyper_events (Ev_request i hs # evs @ [Ev_ended i]) [] False (hy_streams ?hy) =
      (Inr ([?req], False), st)"
    using one_request [OF assms(3,4)] by blast
  then have parsed: "pr_request pr (P_hyper ?hy) data =
      (Inr (out, [?req], False), P_hyper \<lparr>hy_conn = s2, hy_streams = st\<rparr>)"
    using assms(1,2) hy by (simp add: pr_def parser_request_def hyper_handle_request_def)
  have "cn_parsers ?c0 = P_hyper ?hy # [P_simple, P_tools]" "cn_parser ?c0 = None" "cn_out ?c0 = []"
    by (simp_all add: pr_def connection_made_def handle_connection_def new_conn_def default_parsers_def
        parser_connect_def)
  then have "snd (data_received pr data ?c0) =
     schedule ?req (?c0\<lparr>cn_parsers := [P_hyper \<lparr>hy_conn = s2, hy_streams = st\<rparr>, P_simple, P_tools],
        cn_parser := Some 0, cn_out := (if out = [] then [] else [out])\<rparr>)"
    using parsed by (simp add: data_received_def conn_parse_def conn_write_def no_output)
  then show ?thesis using that by blast
qed

text \<open>A response without pushes that fits the window, on the connection of a request in progress.\<close>

lemma http2_answered:
  fixes lib :: "'s h2_lib" and ht :: httptools and authority :: "request \<Rightarrow> pystr result"
  assumes "h2_sends lib opn sent (rq_stream (fu_request fu))" and "\<not> rs_push resp" and "rs_pushes resp = []"
    and "h2_headers lib (rq_stream (fu_request fu)) (status_headers (with_h2_length resp)) (hy_conn hy) = (None, s)"
    and "opn s" and "h2_window lib (rq_stream (fu_request fu)) s = Inr w" and "1 \<le> w" and "int (length (rs_body resp)) \<le> w"
    and "cn_parser c = Some 0" and "cn_parsers c = P_hyper hy # ps" and "cn_table c f = Some fu"
    and "pending c f" and "\<not> closes c f"
  defines "d \<equiv> handler_returned (levin_protocol lib ht authority) f resp c"
  shows "cn_futures d = remove1 f (cn_futures c) \<and> cn_parser d = Some 0 \<and>
    (\<forall>k. k \<noteq> f \<longrightarrow> cn_table d k = cn_table c k) \<and>
    (\<exists>chunks hy' log. hyper_handle_response lib authority hy resp (fu_request fu) =
        (((chunks, None), with_h2_length resp), hy') \<and>
      cn_parsers d = P_hyper hy' # ps \<and> sent (hy_conn hy') = sent s @ log \<and>
      concat (map fst log) = rs_body resp \<and> \<not> opn (hy_conn hy'))"
proof -
  let ?pr = "levin_protocol lib ht authority"
  let ?g = "\<lambda>fu. fu\<lparr>fu_stage := Over\<rparr>"
  obtain chunks hy' log where h: "hyper_handle_response lib authority hy resp (fu_request fu) =
      (((chunks, None), with_h2_length resp), hy')"
    "sent (hy_conn hy') = sent s @ log" "frames_of (rs_body resp) w (rs_pushes resp \<noteq> []) log"
    "opn (hy_conn hy') = (rs_pushes resp \<noteq> [] \<or> w < 1 \<or> w < int (length (rs_body resp)))"
    using hyper_response_frames [OF assms(1,2,4,5,6)] by blast
  define c1 where "c1 = (set_fut f ?g c)\<lparr>cn_out := cn_out c @ chunks, cn_parsers := P_hyper hy' # ps\<rparr>"
  have c1: "pending c1 f" "\<not> closes c1 f" "cn_table c1 f = Some (?g fu)" "cn_parser c1 = Some 0"
    "cn_futures c1 = cn_futures c" "cn_parsers c1 = P_hyper hy' # ps" "\<And>k. k \<noteq> f \<Longrightarrow> cn_table c1 k = cn_table c k"
    using assms(9-13) by (auto simp: c1_def pending_def closes_def set_fut_def)
  have "write_response ?pr resp (fu_request fu) (set_fut f ?g c) = (None, with_h2_length resp, c1)"
    using assms(9,10) h(1) by (simp add: write_response_def parser_response_def c1_def)
  then have "d = settle ?pr f Done c1"
    using assms(3,11) c1(4) complete_settle [OF c1(1,2)] by (simp add: d_def handler_returned_def)
  moreover have "cn_parsers (settle ?pr f Done c1) = cn_parsers c1" "cn_parser (settle ?pr f Done c1) = cn_parser c1"
    using c1(3) by (simp_all add: settle_def done_callback_def Let_def set_fut_def)
  moreover have "concat (map fst log) = rs_body resp" using h(3) assms(8) by (simp add: frames_of_def)
  ultimately show ?thesis using h(1,2,4) assms(3,7,8) c1(3-7) by (auto simp: settle_futures settle_table)
qed

lemma http2_served:
  fixes lib :: "'s h2_lib" and ht :: httptools and authority :: "request \<Rightarrow> pystr result"
  assumes "h2_receive lib data (h2_initiate lib s0) = (Inr (Ev_request i hs # evs @ [Ev_ended i]), s1)"
    and "h2_to_send lib s1 = (out, s2)" and "list_all passing evs" and "request_from_event i hs = Inr req"
    and "h2_sends lib opn sent i" and "\<not> rs_push resp" and "rs_pushes resp = []"
    and "h2_headers lib i (status_headers (with_h2_length resp)) s2 = (None, s3)"
    and "opn s3" and "h2_window lib i s3 = Inr w" and "1 \<le> w" and "int (length (rs_body resp)) \<le> w"
  shows "let pr = levin_protocol lib ht authority;
      c = snd (data_received pr data (connection_made pr (handle_connection s0 ssl response_500)));
      d = handler_returned pr 0 resp c
    in concat (cn_out c) = out \<and> cn_futures c = [0] \<and>
       cn_table c 0 = Some (begin_request (append_body (stream_data i evs) req)) \<and> cn_futures d = [] \<and>
       (\<exists>hy log. cn_parsers d = [P_hyper hy, P_simple, P_tools] \<and> sent (hy_conn hy) = sent s3 @ log \<and>
          concat (map fst log) = rs_body resp \<and> \<not> opn (hy_conn hy))"
proof -
  let ?pr = "levin_protocol lib ht authority"
  let ?fu = "begin_request (append_body (stream_data i evs) req)"
  let ?c = "snd (data_received ?pr data (connection_made ?pr (handle_connection s0 ssl response_500)))"
  obtain st where c: "?c = schedule (append_body (stream_data i evs) req)
       ((connection_made ?pr (handle_connection s0 ssl response_500))
          \<lparr>cn_parsers := [P_hyper \<lparr>hy_conn = s2, hy_streams = st\<rparr>, P_simple, P_tools], cn_parser := Some 0,
           cn_out := (if out = [] then [] else [out])\<rparr>)"
    using http2_received [OF assms(1-4)] .
  have facts: "concat (cn_out ?c) = out" "cn_futures ?c = [0]" "cn_table ?c 0 = Some ?fu" "cn_parser ?c = Some 0"
    "cn_parsers ?c = P_hyper \<lparr>hy_conn = s2, hy_streams = st\<rparr> # [P_simple, P_tools]" "pending ?c 0" "\<not> closes ?c 0"
    unfolding c
    by (simp_all add: schedule_def connection_made_def handle_connection_def new_conn_def pending_def closes_def
        begin_request_def)
  have "rq_stream (fu_request ?fu) = i" using request_stream [OF assms(4)] by simp
  then show ?thesis
    using http2_answered [of lib opn sent ?fu resp "\<lparr>hy_conn = s2, hy_streams = st\<rparr>" s3 w ?c "[P_simple, P_tools]" 0 ht authority]
      assms(5-12) facts
    by (simp add: Let_def) blast
qed

section \<open>Properties\<close>

text \<open>C6: From frames to frames: on a new connection, data that the HTTP/2 library reports as one request
  with its body starts exactly one handler, on the request with that body, and what the library has to
  say is written; a response without pushes that fits the window is sent completely, ends the stream,
  and the request leaves the list.\<close>

theorem http2_request_served:
  fixes lib :: "'s h2_lib" and ht :: httptools and authority :: "request \<Rightarrow> pystr result"
  assumes "h2_receive lib data (h2_initiate lib s0) = (Inr (Ev_request i hs # evs @ [Ev_ended i]), s1)"
    and "h2_to_send lib s1 = (out, s2)" and "list_all passing evs" and "request_from_event i hs = Inr req"
    and "h2_sends lib opn sent i" and "\<not> rs_push resp" and "rs_pushes resp = []"
    and "h2_headers lib i (status_headers (with_h2_length resp)) s2 = (None, s3)"
    and "opn s3" and "h2_window lib i s3 = Inr w" and "1 \<le> w" and "int (length (rs_body resp)) \<le> w"
  shows "let pr = levin_protocol lib ht authority;
      c = snd (data_received pr data (connection_made pr (handle_connection s0 ssl response_500)));
      d = handler_returned pr 0 resp c
    in concat (cn_out c) = out \<and> cn_futures c = [0] \<and>
       cn_table c 0 = Some (begin_request (append_body (stream_data i evs) req)) \<and> cn_futures d = [] \<and>
       (\<exists>hy log. cn_parsers d = [P_hyper hy, P_simple, P_tools] \<and> sent (hy_conn hy) = sent s3 @ log \<and>
          concat (map fst log) = rs_body resp \<and> \<not> opn (hy_conn hy))"
  using assms by (rule http2_served)

text \<open>The library of the examples, receiving a request on stream 1 whose body comes in two parts.\<close>

definition toy_request :: "toy h2_lib" where
  "toy_request = toy_lib\<lparr>h2_receive := (\<lambda>data s.
     (Inr (Ev_request 1 [(lit '':method'', lit ''POST'')] # [Ev_data 1 ''a'', Ev_data 1 ''b''] @ [Ev_ended 1]), s))\<rparr>"

theorem http2_request_served_witness:
  "let pr = levin_protocol toy_request (\<lambda>_. two_chunks) (\<lambda>_. Inr []);
      c = snd (data_received pr ''preface'' (connection_made pr
            (handle_connection \<lparr>ty_window = 9, ty_open = True, ty_sent = []\<rparr> False response_500)))
   in cn_futures c = [0] \<and> cn_futures (handler_returned pr 0 (new_response 200 ''hello'' None [] False) c) = []"
proof -
  let ?s = "\<lparr>ty_window = 9, ty_open = True, ty_sent = []\<rparr>"
  have req: "request_from_event 1 [(lit '':method'', lit ''POST'')] =
      Inr (new_request ''/'' ''POST'' (Some []) [] ''HTTP/2'' 1 ''http'')"
    by code_simp
  have "h2_receive toy_request ''preface'' (h2_initiate toy_request ?s) =
      (Inr (Ev_request 1 [(lit '':method'', lit ''POST'')] # [Ev_data 1 ''a'', Ev_data 1 ''b''] @ [Ev_ended 1]), ?s)"
    "h2_to_send toy_request ?s = (''frames'', ?s)" "h2_sends toy_request ty_open ty_sent 1"
    "h2_headers toy_request 1 (status_headers (with_h2_length (new_response 200 ''hello'' None [] False))) ?s = (None, ?s)"
    "h2_window toy_request 1 ?s = Inr 9" "ty_open ?s"
    using toy_sends by (simp_all add: toy_request_def toy_lib_def h2_sends_def)
  from http2_request_served [OF this(1,2) _ req this(3) _ _ this(4,6,5), of "\<lambda>_. two_chunks" "\<lambda>_. Inr []" False]
  show ?thesis by (simp add: Let_def new_response_def)
qed

end
