(* ===== verification/Http2_Whole.thy ===== *)
theory Http2_Whole
  imports Whole Http2_Served
begin

text \<open>
  The default application behind an HTTP/2 connection: \<^verbatim>\<open>levin/app.py\<close>, \<^verbatim>\<open>levin/core/connection.py\<close> and
  \<^verbatim>\<open>levin/core/parsers/hyper.py\<close> together.
\<close>

lemma append_body_new:
  "append_body data (new_request p m (Some body) hs v i scheme) = new_request p m (Some (body @ data)) hs v i scheme"
  by (simp add: append_body_def new_request_def)

section \<open>Properties\<close>

text \<open>C2: The whole way over HTTP/2: frames that carry one request, for a path that a route accepts whose
  coroutine handler returns a dictionary, list or tuple in time, are answered on the stream of the request with
  the JSON text of that value, after headers with the status of the route; the stream is ended and the request
  is over.\<close>

theorem http2_json_served:
  fixes lib :: "'s h2_lib" and ht :: httptools and authority :: "request \<Rightarrow> pystr result"
  assumes "h2_receive lib data (h2_initiate lib s0) = (Inr (Ev_request k hs # evs @ [Ev_ended k]), s1)"
    and "h2_to_send lib s1 = (out, s2)" and "list_all passing evs"
    and "event_headers hs ''GET'' ''/'' [] = Inr (m, p, headers)"
    and "ascii m" "ascii p" and "CHR ''?'' \<in> set p \<longrightarrow> plain_target p"
    and "usual_calls su n cfg other info" and "unhindered su rf" and "su_json su = default_json"
    and "table_answer (su_router su) m (takeWhile (\<lambda>c. c \<noteq> CHR ''?'') p) = (h, meta)"
    and "list_all (\<lambda>key. map_of meta key = None) [''process'', ''template'', ''push'', ''_pushes'']"
    and "(case map_of meta ''status'' of None \<Rightarrow> PInt 200 | Some w \<Rightarrow> w) = PInt i"
    and "request_coroutine su h" and "\<And>t. su_body su h [(''request'', A_request)] t = (Inr (R_value x), t)"
    and "is_container x" and "json_value True x = Inr text"
    and "resp = new_response i (map char_of text) (Some [(''content-type'', ''application/json'')]) [] False"
    and "h2_sends lib opn sent k"
    and "h2_headers lib k (status_headers (with_h2_length resp)) s2 = (None, s3)"
    and "opn s3" and "h2_window lib k s3 = Inr w" and "1 \<le> w" and "int (length text) \<le> w"
  shows "let pr = levin_protocol lib ht authority;
      c = snd (data_received pr data (connection_made pr (handle_connection s0 ssl response_500)))
    in concat (cn_out c) = out \<and>
       (\<exists>d. app_serves pr (\<lambda>r. fst (default_app su rf h0 r)) 0 c = Some d \<and> cn_futures d = [] \<and>
         (\<exists>hy log. cn_parsers d = [P_hyper hy, P_simple, P_tools] \<and> sent (hy_conn hy) = sent s3 @ log \<and>
            concat (map fst log) = map char_of text \<and> \<not> opn (hy_conn hy)))"
proof -
  let ?pr = "levin_protocol lib ht authority"
  let ?c = "snd (data_received ?pr data (connection_made ?pr (handle_connection s0 ssl response_500)))"
  let ?req = "new_request p m (Some []) headers ''HTTP/2'' k ''http''"
  let ?fu = "begin_request (append_body (stream_data k evs) ?req)"
  have req: "request_from_event k hs = Inr ?req" using assms(4) by (simp add: request_from_event_def)
  have plain: "\<not> rs_push resp" "rs_pushes resp = []" "int (length (rs_body resp)) \<le> w" "rs_body resp = map char_of text"
    using assms(18,24) by (simp_all add: new_response_def)
  have c: "concat (cn_out ?c) = out" "cn_table ?c 0 = Some ?fu" "cn_futures (handler_returned ?pr 0 resp ?c) = []"
    "\<exists>hy log. cn_parsers (handler_returned ?pr 0 resp ?c) = [P_hyper hy, P_simple, P_tools] \<and>
       sent (hy_conn hy) = sent s3 @ log \<and> concat (map fst log) = map char_of text \<and> \<not> opn (hy_conn hy)"
    using http2_served [OF assms(1-3) req assms(19) plain(1,2) assms(20-23) plain(3), of ht authority ssl]
    unfolding plain(4) by (simp_all add: Let_def)
  have "usual_request (fu_request ?fu)"
    unfolding append_body_new using assms(5-7) by (intro served_usual) (simp_all add: ascii_def)
  moreover have "rq_method (fu_request ?fu) = m" "rq_raw_path (fu_request ?fu) = p"
    unfolding append_body_new by (simp_all add: begin_request_def new_request_def)
  ultimately have "fst (default_app su rf h0 (fu_request ?fu)) = Inr (R_response resp)"
    unfolding assms(18) using assms(8-17) by (intro json_answered) simp_all
  with c show ?thesis by (simp add: Let_def app_serves_response)
qed

definition toy_get :: "toy h2_lib" where
  "toy_get = toy_lib\<lparr>h2_receive := (\<lambda>data s.
     (Inr (Ev_request 1 [(lit '':path'', lit ''/a?x=1'')] # [] @ [Ev_ended 1]), s))\<rparr>"

theorem http2_json_served_witness:
  "let pr = levin_protocol toy_get (\<lambda>_. two_chunks) (\<lambda>_. Inr []);
      c = snd (data_received pr ''preface'' (connection_made pr
            (handle_connection \<lparr>ty_window = 99, ty_open = True, ty_sent = []\<rparr> False response_500)))
    in concat (cn_out c) = ''frames'' \<and>
       (\<exists>d. app_serves pr (\<lambda>r. fst (default_app sample_setup sample_facts 0 r)) 0 c = Some d \<and> cn_futures d = [] \<and>
         (\<exists>hy log. cn_parsers d = [P_hyper hy, P_simple, P_tools] \<and> ty_sent (hy_conn hy) = log \<and>
            concat (map fst log) = map char_of sample_text \<and> \<not> ty_open (hy_conn hy)))"
proof -
  let ?s = "\<lparr>ty_window = 99, ty_open = True, ty_sent = []\<rparr>"
  let ?resp = "new_response 200 (map char_of sample_text) (Some [(''content-type'', ''application/json'')]) [] False"
  have lib: "h2_receive toy_get ''preface'' (h2_initiate toy_get ?s) =
      (Inr (Ev_request 1 [(lit '':path'', lit ''/a?x=1'')] # [] @ [Ev_ended 1]), ?s)"
    "h2_to_send toy_get ?s = (''frames'', ?s)" "h2_sends toy_get ty_open ty_sent 1"
    "h2_headers toy_get 1 (status_headers (with_h2_length ?resp)) ?s = (None, ?s)" "ty_open ?s"
    "h2_window toy_get 1 ?s = Inr 99"
    using toy_sends by (simp_all add: toy_get_def toy_lib_def h2_sends_def)
  have head: "event_headers [(lit '':path'', lit ''/a?x=1'')] ''GET'' ''/'' [] = Inr (''GET'', ''/a?x=1'', [])"
    by code_simp
  have route: "table_answer (su_router sample_setup) ''GET'' (takeWhile (\<lambda>c. c \<noteq> CHR ''?'') ''/a?x=1'') =
      (1, [(''pattern'', PBytes ''/a'')])"
    by (simp add: sample_setup_def table_answer_def first_route_def two_routes_def slash_append_def ends_with_def)
  have coro: "request_coroutine sample_setup 1" by (rule sample_usual(3)) simp
  have "int (length sample_text) \<le> 99" by (simp add: sample_text_def)
  from http2_json_served [where i = 200 and evs = "[]" and h = 1 and x = sample_value and resp = ?resp and m = "''GET''"
      and p = "''/a?x=1''" and h0 = 0 and ssl = False and ht = "\<lambda>_. two_chunks" and authority = "\<lambda>_. Inr []",
      OF lib(1,2) _ head _ _ _ sample_usual(1,2) _ route _ _ coro _ _ sample_json refl
      lib(3-6) _ this]
  show ?thesis
    by (simp add: ascii_def plain_target_def sample_setup_def sample_value_def)
qed

end
