(* ===== verification/Http2_Streams.thy ===== *)
theory Http2_Streams
  imports Http2_Served
begin

text \<open>
  Several HTTP/2 requests in progress on one connection (\<^verbatim>\<open>levin/core/connection.py\<close> with
  \<^verbatim>\<open>levin/core/parsers/hyper.py\<close>): what is sent on the stream of one response does not depend on when the
  handlers of the others return. The streams share the flow-control window of the connection.
\<close>

section \<open>Several streams\<close>

text \<open>What \<open>h2\<close> keeps of its streams, as its documentation describes it: a stream is ready when the headers of its
  response may be sent, which is done once; from then on it is open for data until it is ended. Which header
  lists \<open>h2\<close> accepts depends on the list alone (\<open>vw_valid\<close>).\<close>

record 's h2_view =
  vw_ready :: "int \<Rightarrow> 's \<Rightarrow> bool"
  vw_open :: "int \<Rightarrow> 's \<Rightarrow> bool"
  vw_sent :: "int \<Rightarrow> 's \<Rightarrow> (bytes \<times> bool) list"
  vw_valid :: "(hval \<times> hval) list \<Rightarrow> bool"

text \<open>The calls for one stream leave the others and what was sent on them as they are; headers are sent on a ready
  stream and use no window; data use up the window of the connection, that is that of every stream, by at most
  their length.\<close>

definition others_kept :: "'s h2_lib \<Rightarrow> ('s, 'v) h2_view_scheme \<Rightarrow> int \<Rightarrow> nat \<Rightarrow> 's \<Rightarrow> 's \<Rightarrow> bool" where
  "others_kept lib vw j n s s' \<longleftrightarrow>
     vw_ready vw j s' = vw_ready vw j s \<and> vw_open vw j s' = vw_open vw j s \<and> vw_sent vw j s' = vw_sent vw j s \<and>
     (\<forall>w. h2_window lib j s = Inr w \<longrightarrow> (\<exists>w'. h2_window lib j s' = Inr w' \<and> w - int n \<le> w'))"

definition h2_multiplexes :: "'s h2_lib \<Rightarrow> ('s, 'v) h2_view_scheme \<Rightarrow> bool" where
  "h2_multiplexes lib vw \<longleftrightarrow>
     (\<forall>i. h2_sends lib (vw_open vw i) (vw_sent vw i) i) \<and>
     (\<forall>j s. others_kept lib vw j 0 s (snd (h2_to_send lib s))) \<and>
     (\<forall>i hs s. vw_ready vw i s \<longrightarrow> vw_valid vw hs \<longrightarrow>
        (\<exists>s'. h2_headers lib i hs s = (None, s') \<and> vw_open vw i s' \<and> vw_sent vw i s' = vw_sent vw i s \<and>
           h2_window lib i s' = h2_window lib i s \<and> (\<forall>j. j \<noteq> i \<longrightarrow> others_kept lib vw j 0 s s'))) \<and>
     (\<forall>i j d fin s. i \<noteq> j \<longrightarrow> others_kept lib vw j (length d) s (snd (h2_data lib i d fin s)))"

lemma others_kept_refl [intro]: "others_kept lib vw j n s s"
  by (simp add: others_kept_def)

lemma others_kept_trans:
  assumes "others_kept lib vw j m s s1" and "others_kept lib vw j n s1 s2" and "k = m + n"
  shows "others_kept lib vw j k s s2"
proof -
  have "\<exists>w'. h2_window lib j s2 = Inr w' \<and> w - int k \<le> w'" if "h2_window lib j s = Inr w" for w
  proof -
    obtain w1 where "h2_window lib j s1 = Inr w1" "w - int m \<le> w1"
      using assms(1) \<open>h2_window lib j s = Inr w\<close> unfolding others_kept_def by blast
    moreover obtain w2 where "h2_window lib j s2 = Inr w2" "w1 - int n \<le> w2"
      using assms(2) calculation(1) unfolding others_kept_def by blast
    ultimately show ?thesis using assms(3) by auto
  qed
  then show ?thesis using assms(1,2) unfolding others_kept_def by simp
qed

lemma multiplexes_sends: "h2_multiplexes lib vw \<Longrightarrow> h2_sends lib (vw_open vw i) (vw_sent vw i) i"
  by (simp add: h2_multiplexes_def)

lemma multiplexes_collect: "h2_multiplexes lib vw \<Longrightarrow> others_kept lib vw j 0 s (snd (h2_to_send lib s))"
  by (simp add: h2_multiplexes_def)

lemma multiplexes_data: "h2_multiplexes lib vw \<Longrightarrow> i \<noteq> j \<Longrightarrow> others_kept lib vw j (length d) s (snd (h2_data lib i d fin s))"
  by (simp add: h2_multiplexes_def)

lemma multiplexes_headers:
  assumes "h2_multiplexes lib vw" and "vw_ready vw i s" and "vw_valid vw hs"
  obtains s' where "h2_headers lib i hs s = (None, s')" "vw_open vw i s'" "vw_sent vw i s' = vw_sent vw i s"
    "h2_window lib i s' = h2_window lib i s" "\<And>j. j \<noteq> i \<Longrightarrow> others_kept lib vw j 0 s s'"
proof -
  have "\<exists>s'. h2_headers lib i hs s = (None, s') \<and> vw_open vw i s' \<and> vw_sent vw i s' = vw_sent vw i s \<and>
      h2_window lib i s' = h2_window lib i s \<and> (\<forall>j. j \<noteq> i \<longrightarrow> others_kept lib vw j 0 s s')"
    using assms by (simp add: h2_multiplexes_def)
  then show ?thesis using that by blast
qed

text \<open>What the calls of the loop keep, the loop keeps: a relation that also counts the bytes.\<close>

lemma send_loop_keeps:
  assumes refl: "\<And>n s. R n s s" and trans: "\<And>m n s t u. R m s t \<Longrightarrow> R n t u \<Longrightarrow> R (m + n) s u"
    and data: "\<And>d fin s. R (length d) s (snd (h2_data lib i d fin s))"
    and collect: "\<And>s. R 0 s (snd (h2_to_send lib s))"
  shows "send_loop n lib p i pushes body s = (y, s') \<Longrightarrow> R (length body) s s'"
proof (induction n arbitrary: body s y)
  case 0
  then show ?case by (simp add: refl)
next
  case (Suc n)
  have more: "R n s t" if "R m s t" "m \<le> n" for m n s t
    using trans [OF that(1) refl, of "n - m"] that(2) by simp
  show ?case
  proof (cases "\<exists>w. h2_window lib p s = Inr w \<and> 1 \<le> w")
    case False
    then have "s' = s" using Suc.prems by (auto split: sum.splits if_splits)
    then show ?thesis by (simp add: refl)
  next
    case True
    then obtain w where w: "h2_window lib p s = Inr w" "\<not> w < 1" by auto
    define k where "k = min (min (nat w) (length body)) (h2_frame_size lib s)"
    define fin where "fin \<longleftrightarrow> \<not> pushes \<and> length body \<le> k"
    obtain e s1 where call: "h2_data lib i (take k body) fin s = (e, s1)" by (cases "h2_data lib i (take k body) fin s")
    obtain b s2 where out: "h2_to_send lib s1 = (b, s2)" by (cases "h2_to_send lib s1")
    have "k \<le> length body" by (simp add: k_def)
    then have d: "R k s s1" using data [of "take k body" s fin] call by simp
    have d2: "R k s s2" using trans [OF d collect [of s1]] out by simp
    have loop: "send_loop (Suc n) lib p i pushes body s =
      (case e of
         Some x \<Rightarrow> (([], if protocol_error x then None else Some x), s1)
       | None \<Rightarrow>
           if drop k body = [] then (([b], None), s2)
           else (case send_loop n lib p i pushes (drop k body) s2 of ((chunks, e'), s3) \<Rightarrow> ((b # chunks, e'), s3)))"
      using w call out by (simp add: Let_def fin_def [symmetric] k_def [symmetric] split: option.split)
    consider "s' = s1" | "s' = s2" | y' where "send_loop n lib p i pushes (drop k body) s2 = (y', s')"
      using Suc.prems [unfolded loop] by (auto split: option.splits prod.splits if_splits)
    then show ?thesis
    proof cases
      case 1
      then show ?thesis using more [OF d \<open>k \<le> length body\<close>] by simp
    next
      case 2
      then show ?thesis using more [OF d2 \<open>k \<le> length body\<close>] by simp
    next
      case 3
      from trans [OF d2 Suc.IH [OF this]] show ?thesis using \<open>k \<le> length body\<close> by simp
    qed
  qed
qed

lemma send_loop_others:
  assumes "h2_multiplexes lib vw" and "i \<noteq> j" and "send_loop n lib p i pushes body s = (y, s')"
  shows "others_kept lib vw j (length body) s s'"
  using multiplexes_data [OF assms(1,2)] multiplexes_collect [OF assms(1)]
  by (intro send_loop_keeps [where R = "others_kept lib vw j", OF _ _ _ _ assms(3)]) (auto intro: others_kept_trans)

lemma response_others:
  assumes "h2_multiplexes lib vw" and "vw_ready vw (rq_stream req) (hy_conn hy)"
    and "vw_valid vw (status_headers (with_h2_length resp))" and "\<not> rs_push resp"
    and "hyper_handle_response lib authority hy resp req = ((y, resp'), hy')" and "rq_stream req \<noteq> j"
  shows "others_kept lib vw j (length (rs_body resp)) (hy_conn hy) (hy_conn hy')"
proof -
  let ?i = "rq_stream req" and ?hs = "status_headers (with_h2_length resp)"
  obtain s where head: "h2_headers lib ?i ?hs (hy_conn hy) = (None, s)" "others_kept lib vw j 0 (hy_conn hy) s"
    using multiplexes_headers [OF assms(1-3)] assms(6) by metis
  have "send_loop (Suc (length (rs_body resp))) lib ?i ?i (rs_pushes resp \<noteq> []) (rs_body resp) s = (y, hy_conn hy')"
    using assms(4,5) head(1)
    by (auto simp: hyper_handle_response_def send_response_def Let_def simp del: send_loop.simps split: prod.splits)
  from others_kept_trans [OF head(2) send_loop_others [OF assms(1,6) this]] show ?thesis by simp
qed

section \<open>Responses in any order\<close>

definition stream_of :: "'p conn \<Rightarrow> nat \<Rightarrow> int" where
  "stream_of c f = (case cn_table c f of None \<Rightarrow> 0 | Some fu \<Rightarrow> rq_stream (fu_request fu))"

text \<open>The handlers of the requests return one after the other.\<close>

fun all_returned :: "'p protocol \<Rightarrow> (nat \<times> response) list \<Rightarrow> 'p conn \<Rightarrow> 'p conn" where
  "all_returned pr [] c = c"
| "all_returned pr ((f, resp) # rs) c = all_returned pr rs (handler_returned pr f resp c)"

text \<open>A request that can be answered completely, when at most \<open>n\<close> bytes go out before its answer has.\<close>

definition answerable ::
  "'s h2_lib \<Rightarrow> ('s, 'v) h2_view_scheme \<Rightarrow> nat \<Rightarrow> 's parser conn \<Rightarrow> 's \<Rightarrow> nat \<times> response \<Rightarrow> bool" where
  "answerable lib vw n c s fr =
     (case fr of (f, resp) \<Rightarrow>
        pending c f \<and> \<not> closes c f \<and> vw_ready vw (stream_of c f) s \<and>
        vw_valid vw (status_headers (with_h2_length resp)) \<and> \<not> rs_push resp \<and> rs_pushes resp = [] \<and>
        (\<exists>w. h2_window lib (stream_of c f) s = Inr w \<and> int n < w))"

definition total_length :: "(nat \<times> response) list \<Rightarrow> nat" where
  "total_length rs = sum_list (map (\<lambda>(f, resp). length (rs_body resp)) rs)"

lemma total_length_simps [simp]:
  "total_length [] = 0" "total_length ((f, resp) # rs) = length (rs_body resp) + total_length rs"
  by (simp_all add: total_length_def)

lemma stream_answer:
  fixes lib :: "'s h2_lib" and ht :: httptools and authority :: "request \<Rightarrow> pystr result"
  assumes "h2_multiplexes lib vw" and "cn_parser c = Some 0" and "cn_parsers c = P_hyper hy # ps"
    and "answerable lib vw n c (hy_conn hy) (f, resp)" and "length (rs_body resp) \<le> n"
  defines "d \<equiv> handler_returned (levin_protocol lib ht authority) f resp c"
  obtains hy' log where "cn_parsers d = P_hyper hy' # ps" "cn_parser d = Some 0"
    "cn_futures d = remove1 f (cn_futures c)" "\<And>k. k \<noteq> f \<Longrightarrow> cn_table d k = cn_table c k"
    "vw_sent vw (stream_of c f) (hy_conn hy') = vw_sent vw (stream_of c f) (hy_conn hy) @ log"
    "concat (map fst log) = rs_body resp" "\<not> vw_open vw (stream_of c f) (hy_conn hy')"
    "\<And>j. j \<noteq> stream_of c f \<Longrightarrow> others_kept lib vw j (length (rs_body resp)) (hy_conn hy) (hy_conn hy')"
proof -
  let ?hs = "status_headers (with_h2_length resp)"
  have ready: "pending c f" "\<not> closes c f" "vw_ready vw (stream_of c f) (hy_conn hy)" "vw_valid vw ?hs" "\<not> rs_push resp"
    "rs_pushes resp = []"
    using assms(4) by (auto simp: answerable_def)
  obtain w where w: "h2_window lib (stream_of c f) (hy_conn hy) = Inr w" "int n < w"
    using assms(4) by (auto simp: answerable_def)
  obtain fu where fu: "cn_table c f = Some fu" using pending_table [OF ready(1)] by blast
  then have i: "rq_stream (fu_request fu) = stream_of c f" by (simp add: stream_of_def)
  obtain s where head: "h2_headers lib (stream_of c f) ?hs (hy_conn hy) = (None, s)" and own: "vw_open vw (stream_of c f) s"
    "vw_sent vw (stream_of c f) s = vw_sent vw (stream_of c f) (hy_conn hy)" "h2_window lib (stream_of c f) s = Inr w"
    using multiplexes_headers [OF assms(1) ready(3,4)] w(1) by metis
  have "h2_sends lib (vw_open vw (stream_of c f)) (vw_sent vw (stream_of c f)) (rq_stream (fu_request fu))"
    using multiplexes_sends [OF assms(1)] i by simp
  then have answered: "cn_futures d = remove1 f (cn_futures c) \<and> cn_parser d = Some 0 \<and>
    (\<forall>k. k \<noteq> f \<longrightarrow> cn_table d k = cn_table c k) \<and>
    (\<exists>chunks hy' log. hyper_handle_response lib authority hy resp (fu_request fu) =
        (((chunks, None), with_h2_length resp), hy') \<and>
      cn_parsers d = P_hyper hy' # ps \<and> vw_sent vw (stream_of c f) (hy_conn hy') = vw_sent vw (stream_of c f) s @ log \<and>
      concat (map fst log) = rs_body resp \<and> \<not> vw_open vw (stream_of c f) (hy_conn hy'))"
    unfolding d_def using ready head own w(2) fu i assms(2,3,5)
    by (intro http2_answered [where s = s and w = w]) auto
  then obtain chunks hy' log where resp:
    "hyper_handle_response lib authority hy resp (fu_request fu) = (((chunks, None), with_h2_length resp), hy')"
    "cn_parsers d = P_hyper hy' # ps" "vw_sent vw (stream_of c f) (hy_conn hy') = vw_sent vw (stream_of c f) s @ log"
    "concat (map fst log) = rs_body resp" "\<not> vw_open vw (stream_of c f) (hy_conn hy')"
    by blast
  have "others_kept lib vw j (length (rs_body resp)) (hy_conn hy) (hy_conn hy')" if "j \<noteq> stream_of c f" for j
    using response_others [OF assms(1) _ ready(4,5) resp(1)] ready(3) i that by metis
  with answered resp own show ?thesis by (intro that) auto
qed

lemma answerable_later:
  assumes "answerable lib vw (m + n) c s (g, resp)" and "cn_table d g = cn_table c g"
    and "others_kept lib vw (stream_of c g) m s s'"
  shows "answerable lib vw n d s' (g, resp)"
proof -
  have "pending d g = pending c g" "closes d g = closes c g" "stream_of d g = stream_of c g"
    using assms(2) by (simp_all add: pending_def closes_def stream_of_def)
  moreover obtain w where w: "h2_window lib (stream_of c g) s = Inr w" "int (m + n) < w"
    using assms(1) by (auto simp: answerable_def)
  moreover obtain w' where "h2_window lib (stream_of c g) s' = Inr w'" "w - int m \<le> w'"
    using assms(3) w(1) unfolding others_kept_def by blast
  ultimately show ?thesis using assms(1,3) by (auto simp: answerable_def others_kept_def)
qed

section \<open>Properties\<close>

text \<open>C7: Over HTTP/2 the responses do not get into each other's way: the handlers of any requests in
  progress may return in any order, and every response arrives completely on the stream of its own request
  and ends it, provided the library accepts its headers and the window of the connection has room for all of
  them; no other stream is touched, and none of the requests remains in the list.\<close>

theorem streams_keep_responses:
  fixes lib :: "'s h2_lib" and ht :: httptools and authority :: "request \<Rightarrow> pystr result"
  assumes "h2_multiplexes lib vw" and "cn_parser c = Some 0" and "cn_parsers c = P_hyper hy # ps"
    and "distinct (map (stream_of c \<circ> fst) rs)"
    and "list_all (answerable lib vw (total_length rs) c (hy_conn hy)) rs"
  shows "let d = all_returned (levin_protocol lib ht authority) rs c
    in cn_futures d = fold (remove1 \<circ> fst) rs (cn_futures c) \<and>
       (\<exists>hy'. cn_parsers d = P_hyper hy' # ps \<and>
          list_all (\<lambda>(f, resp). \<exists>log. vw_sent vw (stream_of c f) (hy_conn hy') = vw_sent vw (stream_of c f) (hy_conn hy) @ log \<and>
            concat (map fst log) = rs_body resp \<and> \<not> vw_open vw (stream_of c f) (hy_conn hy')) rs \<and>
          (\<forall>i. i \<notin> (stream_of c \<circ> fst) ` set rs \<longrightarrow>
            vw_sent vw i (hy_conn hy') = vw_sent vw i (hy_conn hy) \<and> vw_open vw i (hy_conn hy') = vw_open vw i (hy_conn hy)))"
  using assms(2-5) unfolding Let_def
proof (induction rs arbitrary: c hy)
  case Nil
  then show ?case by auto
next
  case (Cons fr rs)
  let ?pr = "levin_protocol lib ht authority"
  obtain f resp where fr: "fr = (f, resp)" by (cases fr)
  define d where "d = handler_returned ?pr f resp c"
  have now: "answerable lib vw (length (rs_body resp) + total_length rs) c (hy_conn hy) (f, resp)"
    and later: "\<forall>(g, r) \<in> set rs. answerable lib vw (length (rs_body resp) + total_length rs) c (hy_conn hy) (g, r)"
    using Cons.prems(4) by (auto simp: fr list_all_iff)
  obtain hy1 log where step: "cn_parsers d = P_hyper hy1 # ps" "cn_parser d = Some 0"
    "cn_futures d = remove1 f (cn_futures c)" "\<And>k. k \<noteq> f \<Longrightarrow> cn_table d k = cn_table c k"
    "vw_sent vw (stream_of c f) (hy_conn hy1) = vw_sent vw (stream_of c f) (hy_conn hy) @ log"
    "concat (map fst log) = rs_body resp" "\<not> vw_open vw (stream_of c f) (hy_conn hy1)"
    "\<And>j. j \<noteq> stream_of c f \<Longrightarrow> others_kept lib vw j (length (rs_body resp)) (hy_conn hy) (hy_conn hy1)"
    using stream_answer [OF assms(1) Cons.prems(1,2) now, of ht authority] unfolding d_def by auto
  have other: "stream_of c g \<noteq> stream_of c f" "cn_table d g = cn_table c g" "stream_of d g = stream_of c g"
    if "(g, r) \<in> set rs" for g r
  proof -
    show ne: "stream_of c g \<noteq> stream_of c f" using Cons.prems(3) that by (force simp: fr)
    then show same: "cn_table d g = cn_table c g" using step(4) by metis
    then show "stream_of d g = stream_of c g" by (simp add: stream_of_def)
  qed
  have streams: "map (stream_of d \<circ> fst) rs = map (stream_of c \<circ> fst) rs" using other(3) by auto
  have "list_all (answerable lib vw (total_length rs) d (hy_conn hy1)) rs"
    unfolding list_all_iff
  proof (clarify, goal_cases)
    case (1 g r)
    with later have "answerable lib vw (length (rs_body resp) + total_length rs) c (hy_conn hy) (g, r)" by blast
    from answerable_later [OF this other(2) [OF 1] step(8) [OF other(1) [OF 1]]] show ?case .
  qed
  moreover have "distinct (map (stream_of d \<circ> fst) rs)" unfolding streams using Cons.prems(3) by (simp add: o_def)
  ultimately obtain hy' where rest: "cn_futures (all_returned ?pr rs d) = fold (remove1 \<circ> fst) rs (cn_futures d)"
    "cn_parsers (all_returned ?pr rs d) = P_hyper hy' # ps"
    "list_all (\<lambda>(g, r). \<exists>log. vw_sent vw (stream_of d g) (hy_conn hy') = vw_sent vw (stream_of d g) (hy_conn hy1) @ log \<and>
       concat (map fst log) = rs_body r \<and> \<not> vw_open vw (stream_of d g) (hy_conn hy')) rs"
    "\<forall>i. i \<notin> (stream_of d \<circ> fst) ` set rs \<longrightarrow>
       vw_sent vw i (hy_conn hy') = vw_sent vw i (hy_conn hy1) \<and> vw_open vw i (hy_conn hy') = vw_open vw i (hy_conn hy1)"
    using Cons.IH [OF step(2,1)] by blast
  have image: "(stream_of d \<circ> fst) ` set rs = (stream_of c \<circ> fst) ` set rs" using streams by (metis list.set_map)
  have "stream_of c f \<notin> (stream_of c \<circ> fst) ` set rs" using Cons.prems(3) by (simp add: fr)
  then have mine: "vw_sent vw (stream_of c f) (hy_conn hy') = vw_sent vw (stream_of c f) (hy_conn hy) @ log"
    "\<not> vw_open vw (stream_of c f) (hy_conn hy')"
    using rest(4) step(5,7) image by auto
  have "list_all (\<lambda>(g, r). \<exists>log. vw_sent vw (stream_of c g) (hy_conn hy') = vw_sent vw (stream_of c g) (hy_conn hy) @ log \<and>
       concat (map fst log) = rs_body r \<and> \<not> vw_open vw (stream_of c g) (hy_conn hy')) rs"
    unfolding list_all_iff
  proof (clarify, goal_cases)
    case (1 g r)
    then have "vw_sent vw (stream_of c g) (hy_conn hy1) = vw_sent vw (stream_of c g) (hy_conn hy)"
      using step(8) [of "stream_of c g"] other(1) by (simp add: others_kept_def)
    with bspec [OF rest(3) [unfolded list_all_iff] 1] other(3) [OF 1] show ?case by simp
  qed
  moreover have "vw_sent vw i (hy_conn hy') = vw_sent vw i (hy_conn hy) \<and> vw_open vw i (hy_conn hy') = vw_open vw i (hy_conn hy)"
    if "i \<notin> (stream_of c \<circ> fst) ` set (fr # rs)" for i
    using rest(4) step(8) image that by (auto simp: fr others_kept_def)
  ultimately show ?case
    using rest(1,2) step(3,6) mine by (auto simp: fr o_def d_def [symmetric])
qed

text \<open>A library of several streams: the window of the connection and those of the streams, which streams exist,
  had their headers and were ended, the frames sent on each, and the next identifier for a promise. Headers and
  data are refused out of turn, data beyond the window, and an empty header list.\<close>

record channels =
  ch_window :: int
  ch_credit :: "int \<Rightarrow> int"
  ch_exists :: "int \<Rightarrow> bool"
  ch_headed :: "int \<Rightarrow> bool"
  ch_ended :: "int \<Rightarrow> bool"
  ch_sent :: "int \<Rightarrow> (bytes \<times> bool) list"
  ch_next :: int

definition channel_ready :: "int \<Rightarrow> channels \<Rightarrow> bool" where
  "channel_ready i s \<longleftrightarrow> ch_exists s i \<and> \<not> ch_headed s i \<and> \<not> ch_ended s i"

definition channel_open :: "int \<Rightarrow> channels \<Rightarrow> bool" where
  "channel_open i s \<longleftrightarrow> ch_exists s i \<and> ch_headed s i \<and> \<not> ch_ended s i"

definition channel_window :: "int \<Rightarrow> channels \<Rightarrow> int" where
  "channel_window i s = min (ch_window s) (ch_credit s i)"

definition channel_data :: "int \<Rightarrow> bytes \<Rightarrow> bool \<Rightarrow> channels \<Rightarrow> exn option \<times> channels" where
  "channel_data i d fin s =
     (if channel_open i s \<and> int (length d) \<le> channel_window i s
      then (None, s\<lparr>ch_window := ch_window s - int (length d),
                    ch_credit := (ch_credit s)(i := ch_credit s i - int (length d)),
                    ch_sent := (ch_sent s)(i := ch_sent s i @ [(d, fin)]), ch_ended := (ch_ended s)(i := fin)\<rparr>)
      else (Some ProtocolError, s))"

definition channel_headers :: "int \<Rightarrow> (hval \<times> hval) list \<Rightarrow> channels \<Rightarrow> exn option \<times> channels" where
  "channel_headers i hs s =
     (if channel_ready i s \<and> hs \<noteq> [] then (None, s\<lparr>ch_headed := (ch_headed s)(i := True)\<rparr>) else (Some ProtocolError, s))"

definition channel_push :: "int \<Rightarrow> int \<Rightarrow> (hval \<times> hval) list \<Rightarrow> channels \<Rightarrow> exn option \<times> channels" where
  "channel_push i j hs s =
     (let s' = s\<lparr>ch_exists := (ch_exists s)(j := True), ch_credit := (ch_credit s)(j := 50), ch_next := j + 2\<rparr>
      in (if channel_open i s \<and> odd i \<and> hs \<noteq> [] then None else Some ProtocolError, s'))"

definition channel_lib :: "channels h2_lib" where
  "channel_lib =
     \<lparr>h2_initiate = (\<lambda>s. s), h2_receive = (\<lambda>data s. (Inr [], s)), h2_to_send = (\<lambda>s. (''frames'', s)),
      h2_clear = (\<lambda>s. s), h2_upgrade = (\<lambda>settings s. (None, s)), h2_next_id = (\<lambda>s. Inr (ch_next s)),
      h2_push = channel_push, h2_end = (\<lambda>i s. (None, s\<lparr>ch_ended := (ch_ended s)(i := True)\<rparr>)),
      h2_headers = channel_headers, h2_window = (\<lambda>i s. Inr (channel_window i s)), h2_frame_size = (\<lambda>s. 2),
      h2_data = channel_data, h2_push_enabled = (\<lambda>s. True)\<rparr>"

lemmas channel_simps =
  channel_lib_def channel_ready_def channel_open_def channel_window_def channel_data_def channel_headers_def channel_push_def

definition channel_view :: "channels h2_view" where
  "channel_view =
     \<lparr>vw_ready = channel_ready, vw_open = channel_open, vw_sent = (\<lambda>i s. ch_sent s i), vw_valid = (\<lambda>hs. hs \<noteq> [])\<rparr>"

lemma channel_sends: "h2_sends channel_lib (channel_open i) (\<lambda>s. ch_sent s i) i"
  by (auto simp: h2_sends_def channel_simps)

lemma channel_multiplexes: "h2_multiplexes channel_lib channel_view"
  unfolding h2_multiplexes_def
proof (intro conjI allI impI)
  show "h2_sends channel_lib (vw_open channel_view i) (vw_sent channel_view i) i" for i
    using channel_sends by (simp add: channel_view_def)
qed (auto simp: others_kept_def channel_view_def channel_simps)

definition idle_channels :: channels where
  "idle_channels =
     \<lparr>ch_window = 99, ch_credit = (\<lambda>i. 50), ch_exists = (\<lambda>i. odd i), ch_headed = (\<lambda>i. False), ch_ended = (\<lambda>i. False),
      ch_sent = (\<lambda>i. []), ch_next = 2\<rparr>"

definition two_streams :: "channels parser conn" where
  "two_streams = schedule (new_request ''/b'' ''GET'' (Some []) [] ''HTTP/2'' 3 ''https'')
     (schedule (new_request ''/a'' ''GET'' (Some []) [] ''HTTP/2'' 1 ''https'')
       ((new_conn [P_hyper \<lparr>hy_conn = idle_channels, hy_streams = (\<lambda>_. None)\<rparr>] False response_500)
          \<lparr>cn_connected := True, cn_parser := Some 0\<rparr>))"

abbreviation channel_protocol :: "channels parser protocol" where
  "channel_protocol \<equiv> levin_protocol channel_lib (\<lambda>_. two_chunks) (\<lambda>_. Inr [])"

theorem streams_keep_responses_witness:
  "let rs = [(1, new_response 200 ''second'' None [] False), (0, new_response 200 ''first'' None [] False)];
       d = all_returned channel_protocol rs two_streams
   in cn_futures d = [] \<and>
      (\<exists>hy. cn_parsers d = [P_hyper hy] \<and> concat (map fst (ch_sent (hy_conn hy) 1)) = ''first'' \<and>
         concat (map fst (ch_sent (hy_conn hy) 3)) = ''second'' \<and> ch_sent (hy_conn hy) 5 = [])"
proof -
  let ?rs = "[(1, new_response 200 ''second'' None [] False), (0 :: nat, new_response 200 ''first'' None [] False)]"
  let ?hy = "\<lparr>hy_conn = idle_channels, hy_streams = (\<lambda>_. None)\<rparr>"
  have c: "cn_parser two_streams = Some 0" "cn_parsers two_streams = P_hyper ?hy # []" "cn_futures two_streams = [0, 1]"
    "stream_of two_streams 0 = 1" "stream_of two_streams 1 = 3" "pending two_streams 0" "pending two_streams 1"
    "\<not> closes two_streams 0" "\<not> closes two_streams 1"
    by (simp_all add: two_streams_def schedule_def new_conn_def begin_request_def stream_of_def pending_def closes_def
        new_request_def)
  then have ready: "list_all (answerable channel_lib channel_view (total_length ?rs) two_streams (hy_conn ?hy)) ?rs"
    by (simp add: answerable_def channel_view_def channel_simps idle_channels_def new_response_def status_headers_def)
  have "distinct (map (stream_of two_streams \<circ> fst) ?rs)" using c by simp
  from streams_keep_responses [OF channel_multiplexes c(1,2) this ready, of "\<lambda>_. two_chunks" "\<lambda>_. Inr []"]
  obtain hy log1 log2 where "cn_futures (all_returned channel_protocol ?rs two_streams) = []"
    "cn_parsers (all_returned channel_protocol ?rs two_streams) = [P_hyper hy]"
    "ch_sent (hy_conn hy) 3 = log1" "concat (map fst log1) = ''second''"
    "ch_sent (hy_conn hy) 1 = log2" "concat (map fst log2) = ''first''" "ch_sent (hy_conn hy) 5 = []"
    using c by (auto simp: idle_channels_def channel_view_def new_response_def Let_def simp del: all_returned.simps)
  then show ?thesis unfolding Let_def by (intro conjI exI [of _ hy]) simp_all
qed

end
