(* ===== verification/Whole_Pushes.thy ===== *)
theory Whole_Pushes
  imports Http2_Whole Http2_Streams
begin

text \<open>
  A route with a push (\<^verbatim>\<open>levin/components/h2.py\<close>) in the default application behind an HTTP/2 connection: the
  response of the route, and the push that the connection makes of it, which is a request to the same
  application (\<^verbatim>\<open>handle_push\<close> in \<^verbatim>\<open>levin/core/connection.py\<close>).
\<close>

section \<open>The push of a route\<close>

text \<open>A push whose path is plain text.\<close>

definition plain_push :: "bytes \<Rightarrow> bool" where
  "plain_push t \<longleftrightarrow> t \<noteq> [] \<and> list_all (\<lambda>c. seg_ok (Lit c)) t"

lemma plain_push_route:
  assumes "plain_push t"
  shows "route_push ext str (PStr (lit t)) sc = Inr \<lparr>pu_path = t, pu_method = ''GET''\<rparr>"
proof -
  have segs: "args (map Lit t) = []" "fill (map Lit t) [] = t" "pattern_text (map Lit t) = t" for t
    by (induction t) simp_all
  have "list_all seg_ok (map Lit t)" using assms by (simp add: plain_push_def list_all_iff)
  from route_push_values [OF this, of "[]" sc ext str] show ?thesis by (simp add: segs del: lit_simps)
qed

text \<open>The outer components when the route has a push.\<close>

lemma outer_pushes:
  assumes "usual_calls su n cfg other info" and "usual_request r" and "after_routing r data r'"
    and "map_of data ''push'' = Some (PStr (lit t))" and "map_of data ''_pushes'' = None" and "plain_push t"
    and "error_middleware (su_on_error su) (timed su rf) h0 (entered r) = (Inr (R_response resp), r')"
  shows "fst (default_app su rf h0 r) =
    Inr (R_response (resp\<lparr>rs_pushes := rs_pushes resp @ [\<lparr>pu_path = t, pu_method = ''GET''\<rparr>]\<rparr>))"
proof -
  let ?r = "r'\<lparr>rq_scope := AList.update ''get_transport_info'' (Plain info) (rq_scope r')\<rparr>"
  have "look_scope ?r ''push'' = Some (Plain (PStr (lit t)))" "look_scope ?r ''_pushes'' = None"
    using assms(3-5) by (simp_all add: after_routing_def chain_keys_def)
  moreover have "lit t \<noteq> []" using assms(6) by (cases t) (simp_all add: plain_push_def)
  ultimately show ?thesis
    unfolding default_app_eq push_middleware_def logger_outer [OF assms(1-3,7)]
    using plain_push_route [OF assms(6), of "su_format su" "su_str su" "rq_scope ?r"]
    by (simp add: rq_get_missing rq_get_plain del: lit_simps)
qed

lemma json_pushed:
  assumes "usual_calls su n cfg other info" and "usual_request r"
    and "table_answer (su_router su) (rq_method r) (target r) = (h, data)"
    and "map_of data ''process'' = None" "map_of data ''template'' = None" "map_of data ''_pushes'' = None"
    and "map_of data ''push'' = Some (PStr (lit t))" "plain_push t"
    and "(case map_of data ''status'' of None \<Rightarrow> PInt 200 | Some v \<Rightarrow> v) = PInt i"
    and "request_coroutine su h" and "\<And>t. su_body su h [(''request'', A_request)] t = (Inr (R_value v), t)"
    and "su_json su = default_json" and "is_container v" and "json_value True v = Inr s"
    and "unhindered su rf"
  shows "fst (default_app su rf h0 r) = Inr (R_response
    (new_response i (map char_of s) (Some [(''content-type'', ''application/json'')])
       [\<lparr>pu_path = t, pu_method = ''GET''\<rparr>] False))"
proof -
  obtain r' where "after_routing r data r'"
    "error_middleware (su_on_error su) (timed su rf) h0 (entered r) =
      (Inr (R_response (new_response i (map char_of s) (Some [(''content-type'', ''application/json'')]) [] False)), r')"
    using json_inner [OF assms(1-5,9-15)] .
  from outer_pushes [OF assms(1,2) this(1) assms(7,6,8) this(2)] show ?thesis by (simp add: new_response_def)
qed

section \<open>The library\<close>

text \<open>What the documentation of \<open>h2\<close> says of pushes. On a stream of the client's, which has an odd number and is
  open, a promise is accepted while the client takes pushes, the connection is open and identifiers are left
  (\<open>vw_pushes\<close>), if its header list is valid. The promised stream is ready for headers, nothing was sent on it, and
  its window is what the connection has left or the client's initial window, whichever is less (\<open>vw_room\<close>); ending
  the stream of the request after that keeps its window as it is, and the promised stream. Nothing but data takes
  from the room for pushes, and data no more than their length.\<close>

record 's push_view = "'s h2_view" +
  vw_pushes :: "'s \<Rightarrow> bool"
  vw_room :: "'s \<Rightarrow> int"
  vw_valid_push :: "(hval \<times> hval) list \<Rightarrow> bool"

definition room_kept :: "'s push_view \<Rightarrow> nat \<Rightarrow> 's \<Rightarrow> 's \<Rightarrow> bool" where
  "room_kept vw n s s' \<longleftrightarrow> vw_pushes vw s \<longrightarrow> vw_pushes vw s' \<and> vw_room vw s - int n \<le> vw_room vw s'"

definition h2_promises :: "'s h2_lib \<Rightarrow> 's push_view \<Rightarrow> bool" where
  "h2_promises lib vw \<longleftrightarrow>
     h2_multiplexes lib vw \<and>
     (\<forall>s. room_kept vw 0 s (snd (h2_to_send lib s))) \<and>
     (\<forall>i d fin s. room_kept vw (length d) s (snd (h2_data lib i d fin s))) \<and>
     (\<forall>i hs s. vw_ready vw i s \<longrightarrow> vw_valid vw hs \<longrightarrow> room_kept vw 0 s (snd (h2_headers lib i hs s))) \<and>
     (\<forall>s. vw_pushes vw s \<longrightarrow> h2_push_enabled lib s) \<and>
     (\<forall>i s. odd i \<longrightarrow> vw_open vw i s \<longrightarrow> vw_pushes vw s \<longrightarrow>
        (\<exists>j. h2_next_id lib s = Inr j \<and> j \<noteq> i \<and>
           (\<forall>hs. vw_valid_push vw hs \<longrightarrow>
              (\<exists>s1 s2. h2_push lib i j hs s = (None, s1) \<and> h2_end lib i s1 = (None, s2) \<and>
                 vw_ready vw j s2 \<and> vw_sent vw j s2 = [] \<and> h2_window lib i s2 = h2_window lib i s \<and>
                 h2_window lib j s2 = Inr (vw_room vw s)))))"

lemma room_kept_refl: "room_kept vw n s s"
  by (simp add: room_kept_def)

lemma room_kept_trans: "room_kept vw m s t \<Longrightarrow> room_kept vw n t u \<Longrightarrow> room_kept vw (m + n) s u"
  by (auto simp: room_kept_def)

lemma promises_multiplexes: "h2_promises lib vw \<Longrightarrow> h2_multiplexes lib vw"
  by (simp add: h2_promises_def)

lemma promises_push:
  assumes "h2_promises lib vw" and "odd i" and "vw_open vw i s" and "vw_pushes vw s" and "vw_valid_push vw hs"
  obtains j s1 s2 where "h2_next_id lib s = Inr j" "j \<noteq> i" "h2_push lib i j hs s = (None, s1)" "h2_end lib i s1 = (None, s2)"
    "vw_ready vw j s2" "vw_sent vw j s2 = []" "h2_window lib i s2 = h2_window lib i s" "h2_window lib j s2 = Inr (vw_room vw s)"
proof -
  obtain j where "h2_next_id lib s = Inr j" "j \<noteq> i"
    "\<forall>hs. vw_valid_push vw hs \<longrightarrow>
       (\<exists>s1 s2. h2_push lib i j hs s = (None, s1) \<and> h2_end lib i s1 = (None, s2) \<and> vw_ready vw j s2 \<and>
          vw_sent vw j s2 = [] \<and> h2_window lib i s2 = h2_window lib i s \<and> h2_window lib j s2 = Inr (vw_room vw s))"
    using assms(1-4) unfolding h2_promises_def by blast
  with assms(5) show ?thesis using that by blast
qed

lemma send_loop_room:
  assumes "h2_promises lib vw" and "send_loop n lib p i pushes body s = (y, s')"
  shows "room_kept vw (length body) s s'"
  using assms(1)
  by (intro send_loop_keeps [where R = "room_kept vw", OF _ _ _ _ assms(2)])
    (simp_all add: room_kept_refl room_kept_trans h2_promises_def)

text \<open>The body of a push: the loop asks for the window of the request's stream and sends on the promised one, so
  both must have room. The data take from the windows of both, as they take from that of the connection.\<close>

lemma push_loop_delivers:
  assumes "h2_multiplexes lib vw" and "i \<noteq> j"
  shows "vw_open vw j s \<Longrightarrow> h2_window lib i s = Inr w \<Longrightarrow> h2_window lib j s = Inr v \<Longrightarrow> 1 \<le> w \<Longrightarrow>
    int (length body) \<le> w \<Longrightarrow> int (length body) \<le> v \<Longrightarrow> length body < n \<Longrightarrow>
    \<exists>chunks s' log. send_loop n lib i j False body s = ((chunks, None), s') \<and>
      vw_sent vw j s' = vw_sent vw j s @ log \<and> concat (map fst log) = body \<and> \<not> vw_open vw j s'"
proof (induction n arbitrary: body s w v)
  case 0
  then show ?case by simp
next
  case (Suc n)
  note sends = multiplexes_sends [OF assms(1), of j]
  define k where "k = min (min (nat w) (length body)) (h2_frame_size lib s)"
  define fin where "fin \<longleftrightarrow> length body \<le> k"
  have frame: "0 < h2_frame_size lib s" using sends by (simp add: h2_sends_def)
  have k: "int k \<le> v" "k \<le> length body" "k \<le> h2_frame_size lib s" using Suc.prems(6) by (auto simp: k_def)
  obtain s1 where call: "h2_data lib j (take k body) fin s = (None, s1)" "vw_open vw j s1 = (\<not> fin)"
    "vw_sent vw j s1 = vw_sent vw j s @ [(take k body, fin)]" "h2_window lib j s1 = Inr (v - int k)"
    using h2_sends_data [OF sends Suc.prems(1,3), of "take k body" fin] k by auto
  obtain b s2 where out: "h2_to_send lib s1 = (b, s2)" by (cases "h2_to_send lib s1")
  note s2 = h2_sends_collect [OF sends out]
  have loop: "send_loop (Suc n) lib i j False body s =
    (if drop k body = [] then (([b], None), s2)
     else (case send_loop n lib i j False (drop k body) s2 of ((chunks, e), s3) \<Rightarrow> ((b # chunks, e), s3)))"
    using Suc.prems(2,4) call(1) out by (simp add: Let_def fin_def [symmetric] k_def [symmetric])
  show ?case
  proof (cases "length body \<le> k")
    case True
    with k(2) have "k = length body" by simp
    with loop call s2 show ?thesis by (auto simp: fin_def)
  next
    case False
    then have "0 < k" using Suc.prems(4) frame by (auto simp: k_def)
    have "others_kept lib vw i k s s1"
      using multiplexes_data [OF assms(1) assms(2) [symmetric], of "take k body" s fin] call(1) k(2) by simp
    moreover have "others_kept lib vw i 0 s1 s2" using multiplexes_collect [OF assms(1), of i s1] out by simp
    ultimately have "others_kept lib vw i k s s2" by (rule others_kept_trans) simp
    then obtain w' where w': "h2_window lib i s2 = Inr w'" "w - int k \<le> w'"
      using Suc.prems(2) unfolding others_kept_def by blast
    have "vw_open vw j s2" "h2_window lib j s2 = Inr (v - int k)" using call(2,4) s2 False by (simp_all add: fin_def)
    moreover have "1 \<le> w'" "int (length (drop k body)) \<le> w'" "int (length (drop k body)) \<le> v - int k"
      "length (drop k body) < n"
      using Suc.prems(5-7) w'(2) False k(2) \<open>0 < k\<close> by auto
    ultimately have "\<exists>chunks s' log. send_loop n lib i j False (drop k body) s2 = ((chunks, None), s') \<and>
        vw_sent vw j s' = vw_sent vw j s2 @ log \<and> concat (map fst log) = drop k body \<and> \<not> vw_open vw j s'"
      using w'(1) by (intro Suc.IH)
    then obtain chunks s3 log where "send_loop n lib i j False (drop k body) s2 = ((chunks, None), s3)"
      "vw_sent vw j s3 = vw_sent vw j s2 @ log" "concat (map fst log) = drop k body" "\<not> vw_open vw j s3"
      by blast
    with loop False call(3) s2 show ?thesis by (auto intro!: exI [of _ "(take k body, fin) # log"])
  qed
qed

text \<open>The response of a push on the wire.\<close>

lemma push_frames:
  assumes "h2_promises lib vw" and "rs_push resp" and "rs_pushes resp = []"
    and "authority req = Inr auth" and "vw_valid_push vw (push_headers req auth)"
    and "vw_valid vw (status_headers (with_h2_length resp))"
    and "odd (rq_stream req)" and "vw_open vw (rq_stream req) (hy_conn hy)" and "vw_pushes vw (hy_conn hy)"
    and "h2_window lib (rq_stream req) (hy_conn hy) = Inr w" and "1 \<le> w" "int (length (rs_body resp)) \<le> w"
    and "int (length (rs_body resp)) \<le> vw_room vw (hy_conn hy)"
  shows "\<exists>chunks hy' j log. h2_next_id lib (hy_conn hy) = Inr j \<and>
    hyper_handle_response lib authority hy resp req = (((chunks, None), with_h2_length resp), hy') \<and>
    vw_sent vw j (hy_conn hy') = log \<and> concat (map fst log) = rs_body resp \<and> \<not> vw_open vw j (hy_conn hy')"
proof -
  let ?i = "rq_stream req" and ?s = "hy_conn hy" and ?hs = "status_headers (with_h2_length resp)"
  note multiplexes = promises_multiplexes [OF assms(1)]
  obtain j s1 s2 where push: "h2_next_id lib ?s = Inr j" "j \<noteq> ?i" "h2_push lib ?i j (push_headers req auth) ?s = (None, s1)"
    "h2_end lib ?i s1 = (None, s2)" "vw_ready vw j s2" "vw_sent vw j s2 = []" "h2_window lib ?i s2 = h2_window lib ?i ?s"
    "h2_window lib j s2 = Inr (vw_room vw ?s)"
    using promises_push [OF assms(1,7,8,9,5)] .
  obtain s3 where head: "h2_headers lib j ?hs s2 = (None, s3)" "vw_open vw j s3" "vw_sent vw j s3 = vw_sent vw j s2"
    "h2_window lib j s3 = h2_window lib j s2" "others_kept lib vw ?i 0 s2 s3"
    using multiplexes_headers [OF multiplexes push(5) assms(6)] push(2) by metis
  obtain w' where w': "h2_window lib ?i s3 = Inr w'" "w \<le> w'"
    using head(5) push(7) assms(10) unfolding others_kept_def by fastforce
  have "\<exists>chunks s' log. send_loop (Suc (length (rs_body resp))) lib ?i j False (rs_body resp) s3 = ((chunks, None), s') \<and>
      vw_sent vw j s' = vw_sent vw j s3 @ log \<and> concat (map fst log) = rs_body resp \<and> \<not> vw_open vw j s'"
    using push(2,8) head(2,4) w' assms(11-13)
    by (intro push_loop_delivers [OF multiplexes, where w = w' and v = "vw_room vw ?s"]) auto
  then obtain chunks s4 log where body:
    "send_loop (Suc (length (rs_body resp))) lib ?i j False (rs_body resp) s3 = ((chunks, None), s4)"
    "vw_sent vw j s4 = vw_sent vw j s3 @ log" "concat (map fst log) = rs_body resp" "\<not> vw_open vw j s4"
    by blast
  have "hyper_handle_response lib authority hy resp req =
      (((chunks, None), with_h2_length resp), hy\<lparr>hy_conn := s4\<rparr>)"
    using assms(2-4) push(1,3,4) head(1) body(1)
    by (simp add: hyper_handle_response_def send_response_def Let_def del: send_loop.simps)
  then show ?thesis
    using push(1,6) body(2-4) head(3) by (intro exI [of _ chunks] exI [of _ "hy\<lparr>hy_conn := s4\<rparr>"]) auto
qed

text \<open>When the window of the request's stream is used up, a push yields nothing, whatever window the promised stream has:
  its headers are left with the library, no byte of its body is sent, and the stream is not ended.\<close>

lemma starved_push:
  assumes "h2_promises lib vw" and "rs_push resp"
    and "authority req = Inr auth" and "vw_valid_push vw (push_headers req auth)"
    and "vw_valid vw (status_headers (with_h2_length resp))"
    and "odd (rq_stream req)" and "vw_open vw (rq_stream req) (hy_conn hy)" and "vw_pushes vw (hy_conn hy)"
    and "h2_window lib (rq_stream req) (hy_conn hy) = Inr 0"
    and "\<And>s s' j hs. h2_headers lib j hs s = (None, s') \<Longrightarrow> h2_window lib (rq_stream req) s' = h2_window lib (rq_stream req) s"
  shows "\<exists>hy' j. hyper_handle_response lib authority hy resp req = ((([], None), with_h2_length resp), hy') \<and>
    h2_next_id lib (hy_conn hy) = Inr j \<and> vw_sent vw j (hy_conn hy') = [] \<and> vw_open vw j (hy_conn hy') \<and>
    h2_window lib j (hy_conn hy') = Inr (vw_room vw (hy_conn hy))"
proof -
  let ?i = "rq_stream req" and ?s = "hy_conn hy" and ?hs = "status_headers (with_h2_length resp)"
  obtain j s1 s2 where push: "h2_next_id lib ?s = Inr j" "j \<noteq> ?i" "h2_push lib ?i j (push_headers req auth) ?s = (None, s1)"
    "h2_end lib ?i s1 = (None, s2)" "vw_ready vw j s2" "vw_sent vw j s2 = []" "h2_window lib ?i s2 = h2_window lib ?i ?s"
    "h2_window lib j s2 = Inr (vw_room vw ?s)"
    using promises_push [OF assms(1,6,7,8,4)] .
  obtain s3 where head: "h2_headers lib j ?hs s2 = (None, s3)" "vw_open vw j s3" "vw_sent vw j s3 = vw_sent vw j s2"
    "h2_window lib j s3 = h2_window lib j s2"
    using multiplexes_headers [OF promises_multiplexes [OF assms(1)] push(5) assms(5)] by metis
  have "h2_window lib ?i s3 = Inr 0" using assms(9,10) head(1) push(7) by metis
  then have "hyper_handle_response lib authority hy resp req = ((([], None), with_h2_length resp), hy\<lparr>hy_conn := s3\<rparr>)"
    using assms(2,3) push(1,3,4) head(1) by (simp add: hyper_handle_response_def send_response_def Let_def)
  then show ?thesis using push(1,6,8) head(2-4) by (intro exI [of _ "hy\<lparr>hy_conn := s3\<rparr>"] exI [of _ j]) simp
qed

section \<open>On a connection\<close>

text \<open>The middle of \<open>handle_push\<close>, as \<open>app_serves\<close> is that of \<open>handle_request\<close>.\<close>

definition push_serves ::
  "'p protocol \<Rightarrow> (request \<Rightarrow> reply result) \<Rightarrow> nat \<Rightarrow> nat \<Rightarrow> 'p conn \<Rightarrow> 'p conn option" where
  "push_serves pr handler f k c =
     (case cn_table c f of
        None \<Rightarrow> None
      | Some fu \<Rightarrow>
          (case fu_stage fu of
             Pushing ps \<Rightarrow>
               (case map_of ps k of
                  None \<Rightarrow> None
                | Some req \<Rightarrow>
                    (case handler req of
                       Inl e \<Rightarrow> Some (push_raised pr f k e c)
                     | Inr (R_response resp) \<Rightarrow> Some (push_returned pr f k resp c)
                     | Inr (R_odd status body headers) \<Rightarrow> None
                     | Inr _ \<Rightarrow> Some (push_raised pr f k AttributeError c)))
           | _ \<Rightarrow> None))"

lemma page_returned:
  fixes lib :: "'s h2_lib" and ht :: httptools and authority :: "request \<Rightarrow> pystr result"
  assumes i_def: "i = rq_stream (fu_request fu)"
    and "h2_promises lib vw" and "\<not> rs_push resp" and "rs_pushes resp = [p]"
    and "vw_valid vw (status_headers (with_h2_length resp))"
    and "vw_ready vw i (hy_conn hy)" and "vw_pushes vw (hy_conn hy)" and "h2_window lib i (hy_conn hy) = Inr w"
    and "int (length (rs_body resp)) < w"
    and "cn_parser c = Some 0" and "cn_parsers c = P_hyper hy # ps" and "cn_table c f = Some fu"
  obtains hy' log d where "handler_returned (levin_protocol lib ht authority) f resp c = d"
    "cn_parsers d = P_hyper hy' # ps" "cn_parser d = Some 0" "cn_futures d = cn_futures c"
    "cn_table d f = Some (fu\<lparr>fu_stage := Pushing [(0, push_request c (fu_request fu) p)]\<rparr>)"
    "vw_sent vw i (hy_conn hy') = vw_sent vw i (hy_conn hy) @ log" "concat (map fst log) = rs_body resp"
    "vw_open vw i (hy_conn hy')" "h2_window lib i (hy_conn hy') = Inr (w - int (length (rs_body resp)))"
    "room_kept vw (length (rs_body resp)) (hy_conn hy) (hy_conn hy')"
proof -
  let ?pr = "levin_protocol lib ht authority" and ?g = "\<lambda>fu. fu\<lparr>fu_stage := Over\<rparr>"
  let ?hs = "status_headers (with_h2_length resp)"
  note multiplexes = promises_multiplexes [OF assms(2)]
  obtain s where head: "h2_headers lib i ?hs (hy_conn hy) = (None, s)" "vw_open vw i s"
    "vw_sent vw i s = vw_sent vw i (hy_conn hy)" "h2_window lib i s = Inr w"
    using multiplexes_headers [OF multiplexes assms(6,5)] assms(8) by metis
  have "h2_sends lib (vw_open vw i) (vw_sent vw i) (rq_stream (fu_request fu))"
    unfolding i_def by (rule multiplexes_sends [OF multiplexes])
  from hyper_response_frames [OF this assms(3), of hy s w authority] head obtain chunks hy' log where
    h: "hyper_handle_response lib authority hy resp (fu_request fu) = (((chunks, None), with_h2_length resp), hy')"
    "vw_sent vw i (hy_conn hy') = vw_sent vw i s @ log" "frames_of (rs_body resp) w (rs_pushes resp \<noteq> []) log"
    "vw_open vw i (hy_conn hy') = (rs_pushes resp \<noteq> [] \<or> w < 1 \<or> w < int (length (rs_body resp)))"
    "h2_window lib i (hy_conn hy') = Inr (w - int (min (nat w) (length (rs_body resp))))"
    unfolding i_def by auto
  have "send_loop (Suc (length (rs_body resp))) lib i i (rs_pushes resp \<noteq> []) (rs_body resp) s = ((chunks, None), hy_conn hy')"
    using assms(3) h(1) head(1)
    by (auto simp: i_def hyper_handle_response_def send_response_def Let_def simp del: send_loop.simps split: prod.splits)
  then have "room_kept vw (length (rs_body resp)) s (hy_conn hy')" by (rule send_loop_room [OF assms(2)])
  moreover have "room_kept vw 0 (hy_conn hy) s"
    using assms(2,5,6) head(1) unfolding h2_promises_def by (metis snd_conv)
  ultimately have room: "room_kept vw (length (rs_body resp)) (hy_conn hy) (hy_conn hy')"
    using room_kept_trans [of vw 0] by fastforce
  define c1 where "c1 = (set_fut f ?g c)\<lparr>cn_out := cn_out c @ chunks, cn_parsers := P_hyper hy' # ps\<rparr>"
  have w: "write_response ?pr resp (fu_request fu) (set_fut f ?g c) = (None, with_h2_length resp, c1)"
    using assms(10,11) h(1) by (simp add: write_response_def parser_response_def c1_def)
  have c1: "cn_parser c1 = Some 0" "cn_parsers c1 = P_hyper hy' # ps" "cn_futures c1 = cn_futures c"
    "cn_table c1 f = Some (?g fu)" "push_request c1 r q = push_request c r q" for r q
    using assms(10,12) by (simp_all add: c1_def set_fut_def push_request_def conn_scheme_def)
  have "h2_push_enabled lib (hy_conn hy')" using assms(2,7) room by (simp add: h2_promises_def room_kept_def)
  then have support: "pr_push_support ?pr (P_hyper hy')" by (simp add: parser_push_support_def hyper_push_support_def)
  define d where "d = set_fut f (\<lambda>x. x\<lparr>fu_stage := Pushing [(0, push_request c (fu_request fu) p)]\<rparr>) c1"
  have "handler_returned ?pr f resp c = d"
    using assms(4,12) w c1 support by (simp add: handler_returned_def d_def)
  moreover have "cn_parsers d = P_hyper hy' # ps" "cn_parser d = Some 0" "cn_futures d = cn_futures c"
    "cn_table d f = Some (fu\<lparr>fu_stage := Pushing [(0, push_request c (fu_request fu) p)]\<rparr>)"
    using c1 by (simp_all add: d_def) (simp add: set_fut_def c1)
  moreover have "vw_sent vw i (hy_conn hy') = vw_sent vw i (hy_conn hy) @ log" "concat (map fst log) = rs_body resp"
    "vw_open vw i (hy_conn hy')" "h2_window lib i (hy_conn hy') = Inr (w - int (length (rs_body resp)))"
    using h(2-5) assms(4,9) head(3) by (simp_all add: frames_of_def)
  ultimately show ?thesis using room by (rule that)
qed

lemma push_answered:
  fixes lib :: "'s h2_lib" and ht :: httptools and authority :: "request \<Rightarrow> pystr result"
  assumes "h2_promises lib vw" and "rs_pushes resp = []"
    and "authority req = Inr auth" and "vw_valid_push vw (push_headers req auth)"
    and "vw_valid vw (status_headers (with_h2_length resp))"
    and "odd (rq_stream req)" and "vw_open vw (rq_stream req) (hy_conn hy)" and "vw_pushes vw (hy_conn hy)"
    and "h2_window lib (rq_stream req) (hy_conn hy) = Inr w" and "1 \<le> w" "int (length (rs_body resp)) \<le> w"
    and "int (length (rs_body resp)) \<le> vw_room vw (hy_conn hy)"
    and "cn_parser d = Some 0" and "cn_parsers d = P_hyper hy # ps" and "cn_table d f = Some fu"
    and "fu_stage fu = Pushing [(k, req)]" and "pending d f" and "\<not> closes d f"
  obtains hy' j where "h2_next_id lib (hy_conn hy) = Inr j"
    "cn_parsers (push_returned (levin_protocol lib ht authority) f k resp d) = P_hyper hy' # ps"
    "cn_futures (push_returned (levin_protocol lib ht authority) f k resp d) = remove1 f (cn_futures d)"
    "concat (map fst (vw_sent vw j (hy_conn hy'))) = rs_body resp" "\<not> vw_open vw j (hy_conn hy')"
proof -
  let ?pr = "levin_protocol lib ht authority" and ?g = "\<lambda>fu. fu\<lparr>fu_stage := drop_push k (fu_stage fu)\<rparr>"
  let ?resp = "resp\<lparr>rs_push := True\<rparr>"
  have "status_headers (with_h2_length ?resp) = status_headers (with_h2_length resp)"
    by (simp add: status_headers_def with_h2_length_def)
  then obtain chunks hy' j where h: "h2_next_id lib (hy_conn hy) = Inr j"
    "hyper_handle_response lib authority hy ?resp req = (((chunks, None), with_h2_length ?resp), hy')"
    "concat (map fst (vw_sent vw j (hy_conn hy'))) = rs_body resp" "\<not> vw_open vw j (hy_conn hy')"
    using push_frames [of lib vw ?resp authority req auth hy w] assms(1-12) by auto
  define d1 where "d1 = (set_fut f ?g d)\<lparr>cn_out := cn_out d @ chunks, cn_parsers := P_hyper hy' # ps\<rparr>"
  have w: "write_response ?pr ?resp req (set_fut f ?g d) = (None, with_h2_length ?resp, d1)"
    using assms(13,14) h(2) by (simp add: write_response_def parser_response_def d1_def)
  have d1: "pending d1 f" "\<not> closes d1 f" "cn_table d1 f = Some (?g fu)" "no_push_left d1 f" "cn_futures d1 = cn_futures d"
    "cn_parsers d1 = P_hyper hy' # ps"
    using assms(15-18) by (auto simp: d1_def pending_def closes_def set_fut_def no_push_left_def drop_push_def)
  have "push_returned ?pr f k resp d = settle ?pr f Done d1"
    using assms(15,16) w d1(4) complete_settle [OF d1(1,2)] by (simp add: push_returned_def)
  moreover have "cn_parsers (settle ?pr f Done d1) = cn_parsers d1"
    using d1(3) by (simp add: settle_def done_callback_def Let_def set_fut_def)
  ultimately show ?thesis using h(1,3,4) d1(3,5,6) by (intro that) (simp_all add: settle_futures)
qed

text \<open>The request of a push, as the application gets it.\<close>

lemma push_usual:
  assumes "plain_push t" and "ascii (rq_protocol r)"
  shows "usual_request (push_request c r \<lparr>pu_path = t, pu_method = ''GET''\<rparr>)"
    "rq_method (push_request c r \<lparr>pu_path = t, pu_method = ''GET''\<rparr>) = ''GET''"
    "target (push_request c r \<lparr>pu_path = t, pu_method = ''GET''\<rparr>) = t"
    "rq_stream (push_request c r \<lparr>pu_path = t, pu_method = ''GET''\<rparr>) = rq_stream r"
proof -
  have req: "push_request c r \<lparr>pu_path = t, pu_method = ''GET''\<rparr> =
      fu_request (begin_request (new_request t ''GET'' (Some []) (rq_headers r) (rq_protocol r) (rq_stream r) (conn_scheme c)))"
    by (simp add: push_request_def begin_request_def)
  have chars: "\<forall>x \<in> set t. x \<noteq> CHR ''?'' \<and> code x < 128"
    using assms(1) by (auto simp: plain_push_def list_all_iff is_meta_def)
  then have "ascii t" "CHR ''?'' \<notin> set t" by (auto simp: ascii_def)
  then show "usual_request (push_request c r \<lparr>pu_path = t, pu_method = ''GET''\<rparr>)"
    unfolding req using assms(2) by (intro served_usual) (simp_all add: ascii_def)
  show "rq_method (push_request c r \<lparr>pu_path = t, pu_method = ''GET''\<rparr>) = ''GET''"
    "rq_stream (push_request c r \<lparr>pu_path = t, pu_method = ''GET''\<rparr>) = rq_stream r"
    by (simp_all add: req begin_request_def new_request_def)
  show "target (push_request c r \<lparr>pu_path = t, pu_method = ''GET''\<rparr>) = t"
    using chars by (simp add: req begin_request_def new_request_def takeWhile_eq_all_conv)
qed

section \<open>Properties\<close>

abbreviation json_response :: "int \<Rightarrow> pystr \<Rightarrow> response" where
  "json_response a t \<equiv> new_response a (map char_of t) (Some [(''content-type'', ''application/json'')]) [] False"

text \<open>C4: A page with a push, the whole way: a request in progress for a route with a push, whose handler returns
  a container in time, is answered on its stream with the JSON text of the value; then the push, a request of the
  connection's own for the pushed path, goes through the same application, and the JSON text of its handler's
  value is sent completely on the promised stream, which is ended. After that the request is over. Both bodies
  must fit the window of the request's stream, which the loop asks for even when it sends the push, and the
  second one also what is left for the promised stream.\<close>

theorem pushed_page_served:
  fixes lib :: "'s h2_lib" and ht :: httptools and authority :: "request \<Rightarrow> pystr result"
  assumes "cn_parser c = Some 0" and "cn_parsers c = P_hyper hy # ps" and "cn_table c f = Some fu"
    and "pending c f" and "\<not> closes c f" and "usual_request (fu_request fu)"
    and "usual_calls su n cfg other info" and "unhindered su rf" and "su_json su = default_json"
    and "table_answer (su_router su) (rq_method (fu_request fu)) (target (fu_request fu)) = (h, data)"
    and "list_all (\<lambda>k. map_of data k = None) [''process'', ''template'', ''_pushes'']"
    and "map_of data ''push'' = Some (PStr (lit t))" and "plain_push t"
    and "(case map_of data ''status'' of None \<Rightarrow> PInt 200 | Some v \<Rightarrow> v) = PInt a"
    and "request_coroutine su h" and "\<And>r. su_body su h [(''request'', A_request)] r = (Inr (R_value x), r)"
    and "is_container x" and "json_value True x = Inr text"
    and "table_answer (su_router su) ''GET'' t = (h', data')"
    and "list_all (\<lambda>k. map_of data' k = None) [''process'', ''template'', ''push'', ''_pushes'']"
    and "(case map_of data' ''status'' of None \<Rightarrow> PInt 200 | Some v \<Rightarrow> v) = PInt a'"
    and "request_coroutine su h'" and "\<And>r. su_body su h' [(''request'', A_request)] r = (Inr (R_value x'), r)"
    and "is_container x'" and "json_value True x' = Inr text'"
    and "authority (push_request c (fu_request fu) \<lparr>pu_path = t, pu_method = ''GET''\<rparr>) = Inr auth"
    and "h2_promises lib vw" and "i = rq_stream (fu_request fu)" and "odd i"
    and "vw_ready vw i (hy_conn hy)" and "vw_pushes vw (hy_conn hy)"
    and "vw_valid vw (status_headers (with_h2_length (json_response a text)))"
    and "vw_valid vw (status_headers (with_h2_length (json_response a' text')))"
    and "vw_valid_push vw (push_headers (push_request c (fu_request fu) \<lparr>pu_path = t, pu_method = ''GET''\<rparr>) auth)"
    and "h2_window lib i (hy_conn hy) = Inr w" and "int (length text) + int (length text') < w"
    and "int (length text) + int (length text') \<le> vw_room vw (hy_conn hy)"
  shows "let pr = levin_protocol lib ht authority; app = (\<lambda>r. fst (default_app su rf h0 r))
    in \<exists>d hy1 log. app_serves pr app f c = Some d \<and> cn_futures d = cn_futures c \<and> cn_parsers d = P_hyper hy1 # ps \<and>
      vw_sent vw i (hy_conn hy1) = vw_sent vw i (hy_conn hy) @ log \<and> concat (map fst log) = map char_of text \<and>
      (\<exists>d' hy2 j. push_serves pr app f 0 d = Some d' \<and> cn_futures d' = remove1 f (cn_futures c) \<and>
         cn_parsers d' = P_hyper hy2 # ps \<and> h2_next_id lib (hy_conn hy1) = Inr j \<and>
         concat (map fst (vw_sent vw j (hy_conn hy2))) = map char_of text' \<and> \<not> vw_open vw j (hy_conn hy2))"
proof -
  let ?pr = "levin_protocol lib ht authority" and ?app = "\<lambda>r. fst (default_app su rf h0 r)"
  let ?p = "\<lparr>pu_path = t, pu_method = ''GET''\<rparr>"
  let ?resp = "new_response a (map char_of text) (Some [(''content-type'', ''application/json'')]) [?p] False"
  let ?resp' = "json_response a' text'"
  let ?req = "push_request c (fu_request fu) ?p"
  have none: "map_of data ''process'' = None" "map_of data ''template'' = None" "map_of data ''_pushes'' = None"
    using assms(11) by simp_all
  have page: "?app (fu_request fu) = Inr (R_response ?resp)"
    using json_pushed [OF assms(7,6,10) none assms(12-16,9,17,18,8)] .
  have resp: "\<not> rs_push ?resp" "rs_pushes ?resp = [?p]" "rs_body ?resp = map char_of text" "rs_pushes ?resp' = []"
    "rs_body ?resp' = map char_of text'"
    by (simp_all add: new_response_def)
  have head: "vw_valid vw (status_headers (with_h2_length ?resp))"
    using assms(32) by (simp add: status_headers_def with_h2_length_def new_response_def)
  have small: "int (length (rs_body ?resp)) < w" using assms(36) resp(3) by simp
  obtain hy1 log d where
    d: "handler_returned ?pr f ?resp c = d" "cn_parsers d = P_hyper hy1 # ps" "cn_parser d = Some 0"
      "cn_futures d = cn_futures c" "cn_table d f = Some (fu\<lparr>fu_stage := Pushing [(0, ?req)]\<rparr>)"
      "vw_sent vw i (hy_conn hy1) = vw_sent vw i (hy_conn hy) @ log" "concat (map fst log) = map char_of text"
      "vw_open vw i (hy_conn hy1)" "h2_window lib i (hy_conn hy1) = Inr (w - int (length text))"
      "room_kept vw (length text) (hy_conn hy) (hy_conn hy1)"
    using page_returned [OF assms(28,27) resp(1,2) head assms(30,31,35) small assms(1-3), of ht authority]
    unfolding resp(3) by (metis length_map)
  have served: "app_serves ?pr ?app f c = Some d"
    using app_serves_response [of c f fu ?app ?resp ?pr] assms(3) page d(1) by simp
  have ascii: "ascii (rq_protocol (fu_request fu))" using assms(6) by (simp add: usual_request_def)
  note push = push_usual [OF assms(13) ascii, of c]
  have "table_answer (su_router su) (rq_method ?req) (target ?req) = (h', data')"
    unfolding push(2,3) by (rule assms(19))
  from json_answered [OF assms(7) push(1) this assms(20-23,9,24,25,8)]
  have pushed: "?app ?req = Inr (R_response ?resp')" .
  have state: "pending d f" "\<not> closes d f" using assms(3-5) d(5) by (simp_all add: pending_def closes_def)
  have i: "rq_stream ?req = i" using push(4) assms(28) by simp
  have start: "odd (rq_stream ?req)" "vw_open vw (rq_stream ?req) (hy_conn hy1)" "vw_pushes vw (hy_conn hy1)"
    "h2_window lib (rq_stream ?req) (hy_conn hy1) = Inr (w - int (length text))"
    using assms(29,31) d(8-10) by (simp_all add: i room_kept_def)
  have fits: "1 \<le> w - int (length text)" "int (length (rs_body ?resp')) \<le> w - int (length text)"
    "int (length (rs_body ?resp')) \<le> vw_room vw (hy_conn hy1)"
    using assms(31,36,37) d(10) resp(5) by (simp_all add: room_kept_def)
  have stage: "fu_stage (fu\<lparr>fu_stage := Pushing [(0, ?req)]\<rparr>) = Pushing [(0, ?req)]" by simp
  obtain hy2 j where sent: "h2_next_id lib (hy_conn hy1) = Inr j"
    "cn_parsers (push_returned ?pr f 0 ?resp' d) = P_hyper hy2 # ps"
    "cn_futures (push_returned ?pr f 0 ?resp' d) = remove1 f (cn_futures d)"
    "concat (map fst (vw_sent vw j (hy_conn hy2))) = rs_body ?resp'" "\<not> vw_open vw j (hy_conn hy2)"
    by (rule push_answered [where authority = authority,
          OF assms(27) resp(4) assms(26,34,33) start fits d(3,2,5) stage state])
  have "push_serves ?pr ?app f 0 d = Some (push_returned ?pr f 0 ?resp' d)"
    using d(5) pushed by (simp add: push_serves_def)
  then show ?thesis
    unfolding Let_def using served d(2,4,6,7) sent resp(5) by (intro exI conjI) auto
qed

text \<open>A page \<open>/a\<close> that pushes \<open>/b\<close>, and the library of several streams.\<close>

definition pushing_setup :: "nat app_setup" where
  "pushing_setup = sample_setup\<lparr>su_router :=
     \<lparr>rt_routes = [(EqualsCondition ''GET'' ''/a'' [(''push'', PStr (lit ''/b''))], 1), (EqualsCondition ''GET'' ''/b'' [], 3)],
      rt_not_found = 0\<rparr>,
     su_body := (\<lambda>h env r. (Inr (R_value (if h = 1 then sample_value else PList [PInt 7])), r))\<rparr>"

definition channel_push_view :: "channels push_view" where
  "channel_push_view =
     \<lparr>vw_ready = channel_ready, vw_open = channel_open, vw_sent = (\<lambda>i s. ch_sent s i), vw_valid = (\<lambda>hs. hs \<noteq> []),
      vw_pushes = (\<lambda>s. \<not> ch_exists s (ch_next s) \<and> \<not> ch_headed s (ch_next s) \<and> \<not> ch_ended s (ch_next s) \<and>
        ch_sent s (ch_next s) = []),
      vw_room = (\<lambda>s. min (ch_window s) 50), vw_valid_push = (\<lambda>hs. hs \<noteq> [])\<rparr>"

lemma channel_promises: "h2_promises channel_lib channel_push_view"
  unfolding h2_promises_def
proof (intro conjI allI impI)
  show "h2_multiplexes channel_lib channel_push_view"
    using channel_multiplexes by (simp add: h2_multiplexes_def others_kept_def channel_view_def channel_push_view_def)
next
  fix i :: int and s
  assume "odd i" "vw_open channel_push_view i s" "vw_pushes channel_push_view s"
  then show "\<exists>j. h2_next_id channel_lib s = Inr j \<and> j \<noteq> i \<and>
      (\<forall>hs. vw_valid_push channel_push_view hs \<longrightarrow>
         (\<exists>s1 s2. h2_push channel_lib i j hs s = (None, s1) \<and> h2_end channel_lib i s1 = (None, s2) \<and>
            vw_ready channel_push_view j s2 \<and> vw_sent channel_push_view j s2 = [] \<and>
            h2_window channel_lib i s2 = h2_window channel_lib i s \<and>
            h2_window channel_lib j s2 = Inr (vw_room channel_push_view s)))"
    by (auto simp: channel_push_view_def channel_simps)
qed (auto simp: room_kept_def channel_push_view_def channel_simps)

theorem pushed_page_served_witness:
  "let app = (\<lambda>r. fst (default_app pushing_setup sample_facts 0 r));
      c = (schedule (new_request ''/a'' ''GET'' (Some []) [] ''HTTP/2'' 1 ''https'')
        ((new_conn [P_hyper \<lparr>hy_conn = idle_channels, hy_streams = (\<lambda>_. None)\<rparr>] False response_500)
          \<lparr>cn_connected := True, cn_parser := Some 0\<rparr>))
    in \<exists>d hy1. app_serves channel_protocol app 0 c = Some d \<and> cn_futures d = [0] \<and> cn_parsers d = [P_hyper hy1] \<and>
      concat (map fst (ch_sent (hy_conn hy1) 1)) = map char_of sample_text \<and>
      (\<exists>d' hy2 j. push_serves channel_protocol app 0 0 d = Some d' \<and> cn_futures d' = [] \<and> cn_parsers d' = [P_hyper hy2] \<and>
         concat (map fst (ch_sent (hy_conn hy2) j)) = ''[7]'' \<and> \<not> channel_open j (hy_conn hy2))"
proof -
  let ?hy = "\<lparr>hy_conn = idle_channels, hy_streams = (\<lambda>_. None)\<rparr>"
  let ?req = "new_request ''/a'' ''GET'' (Some []) [] ''HTTP/2'' 1 ''https''"
  let ?c = "schedule ?req ((new_conn [P_hyper ?hy] False response_500 :: channels parser conn)
          \<lparr>cn_connected := True, cn_parser := Some 0\<rparr>)"
  let ?fu = "begin_request ?req"
  have c: "cn_parser ?c = Some 0" "cn_parsers ?c = P_hyper ?hy # []" "cn_table ?c 0 = Some ?fu" "pending ?c 0"
    "\<not> closes ?c 0" "cn_futures ?c = [0]"
    by (simp_all add: schedule_def new_conn_def begin_request_def pending_def closes_def new_request_def)
  have req: "usual_request (fu_request ?fu)" "rq_method (fu_request ?fu) = ''GET''" "target (fu_request ?fu) = ''/a''"
    "rq_stream (fu_request ?fu) = 1"
    by (intro served_usual) (simp_all add: ascii_def begin_request_def new_request_def)
  have su: "usual_calls pushing_setup 0 sample_config (\<lambda>f r. (Inr PNone, r)) PNone" "unhindered pushing_setup sample_facts"
    "request_coroutine pushing_setup 1" "request_coroutine pushing_setup 3"
    using sample_usual by (simp_all add: usual_calls_def unhindered_def request_coroutine_def pushing_setup_def)
  have route: "table_answer (su_router pushing_setup) ''GET'' ''/a'' =
      (1, [(''pattern'', PBytes ''/a''), (''push'', PStr (lit ''/b''))])"
    "table_answer (su_router pushing_setup) ''GET'' ''/b'' = (3, [(''pattern'', PBytes ''/b'')])"
    by (simp_all add: pushing_setup_def table_answer_def first_route_def slash_append_def ends_with_def del: lit_simps)
  have other: "json_value True (PList [PInt 7]) = Inr (lit ''[7]'')" by code_simp
  have len: "int (length sample_text) + int (length (lit ''[7]'')) < 50" by (simp add: sample_text_def)
  have route': "table_answer (su_router pushing_setup) (rq_method (fu_request ?fu)) (target (fu_request ?fu)) =
      (1, [(''pattern'', PBytes ''/a''), (''push'', PStr (lit ''/b''))])"
    unfolding req(2,3) by (rule route(1))
  have json: "su_json pushing_setup = default_json" by (simp add: pushing_setup_def sample_setup_def)
  have body: "su_body pushing_setup 1 [(''request'', A_request)] r = (Inr (R_value sample_value), r)"
    "su_body pushing_setup 3 [(''request'', A_request)] r = (Inr (R_value (PList [PInt 7])), r)" for r
    by (simp_all add: pushing_setup_def)
  have keys: "list_all (\<lambda>k. map_of [(''pattern'', PBytes ''/a''), (''push'', PStr (lit ''/b''))] k = None)
      [''process'', ''template'', ''_pushes'']"
    "map_of [(''pattern'', PBytes ''/a''), (''push'', PStr (lit ''/b''))] ''push'' = Some (PStr (lit ''/b''))"
    "plain_push ''/b''"
    "(case map_of [(''pattern'', PBytes ''/a''), (''push'', PStr (lit ''/b''))] ''status'' of
        None \<Rightarrow> PInt 200 | Some v \<Rightarrow> v) = PInt 200"
    "list_all (\<lambda>k. map_of [(''pattern'', PBytes ''/b'')] k = None) [''process'', ''template'', ''push'', ''_pushes'']"
    "(case map_of [(''pattern'', PBytes ''/b'')] ''status'' of None \<Rightarrow> PInt 200 | Some v \<Rightarrow> v) = PInt 200"
    by (simp_all add: plain_push_def is_meta_def del: lit_simps)
  have conts: "is_container sample_value" "is_container (PList [PInt 7])" by (simp_all add: sample_value_def)
  have view: "1 = rq_stream (fu_request ?fu)" "odd (1 :: int)" "vw_ready channel_push_view 1 (hy_conn ?hy)"
    "vw_pushes channel_push_view (hy_conn ?hy)"
    "vw_valid channel_push_view (status_headers r)" "vw_valid_push channel_push_view (push_headers q auth)"
    "h2_window channel_lib 1 (hy_conn ?hy) = Inr 50" "vw_room channel_push_view (hy_conn ?hy) = 50" for r q auth
    using req(4) by (simp_all add: idle_channels_def channel_push_view_def channel_simps status_headers_def push_headers_def)
  have len': "int (length sample_text) + int (length (lit ''[7]'')) \<le> vw_room channel_push_view (hy_conn ?hy)"
    unfolding view(8) using len by simp
  note run = pushed_page_served [where authority = "\<lambda>_. Inr []" and ht = "\<lambda>_. two_chunks" and h = 1 and ?h0.0 = 0 and i = 1,
      OF c(1-5) req(1) su(1,2) json route' keys(1-4) su(3) body(1) conts(1) sample_json route(2) keys(5,6) su(4) body(2)
      conts(2) other refl channel_promises view(1-4) view(5) view(5) view(6,7) len len']
  have empty: "ch_sent (hy_conn ?hy) 1 = []" "vw_sent channel_push_view = (\<lambda>i s. ch_sent s i)"
    "vw_open channel_push_view = channel_open"
    by (simp_all add: idle_channels_def channel_push_view_def)
  have seven: "map char_of (lit ''[7]'') = ''[7]''" by code_simp
  from run show ?thesis unfolding Let_def c(6) empty seven by auto
qed

end
