(* ===== verification/Http2_Upgrade.thy ===== *)
theory Http2_Upgrade
  imports Http2_Served
begin

text \<open>
  The upgrade from HTTP/1.1 to HTTP/2 on a connection: \<^verbatim>\<open>levin/core/parsers/hyper.py\<close> asks the HTTP/1 parser
  about data that the library refuses, switches protocols, and the request that asked for it is answered as
  stream 1.
\<close>

lemma upgrade_parsed:
  assumes "h2_receive lib data (hy_conn hy) = (Inl e, s)" and "protocol_error e" and "occurs_in ''HTTP'' data"
    and "simple_handle_request data = Inr ([], [req], False)" and "wants_h2c req = Some settings"
    and "h2_upgrade lib settings (h2_clear lib s) = (None, s1)" and "h2_to_send lib s1 = (out, s2)"
  shows "hyper_handle_request lib hy data =
    (Inr (switching @ CRLF @ out, [req\<lparr>rq_stream := 1\<rparr>], False), hy\<lparr>hy_conn := s2\<rparr>)"
proof -
  have "switching \<noteq> []" by (simp add: switching_def)
  moreover have "map_of (rq_headers req) ''http2-settings'' = Some settings"
    using assms(5) by (auto simp: wants_h2c_def split: option.splits if_splits)
  ultimately show ?thesis
    using assms by (simp add: hyper_handle_request_def hyper_handle_http1_def handle_http1_cases)
qed

lemma occurs_after: "occurs_in xs ys \<Longrightarrow> occurs_in xs (as @ ys)"
  by (induction as) simp_all

lemma occurs_before: "occurs_in xs ys \<Longrightarrow> occurs_in xs (ys @ bs)"
proof (induction ys)
  case Nil
  then show ?case by (cases bs) simp_all
next
  case (Cons c ys)
  have "take (length xs) ((c # ys) @ bs) = xs" if "take (length xs) (c # ys) = xs"
  proof -
    have "length xs \<le> length (c # ys)" using arg_cong [OF that, of length] by simp
    then show ?thesis using that by (simp only: take_append) simp
  qed
  with Cons show ?case by auto
qed

section \<open>Properties\<close>

text \<open>C8: An HTTP/1.1 request that asks for the upgrade, as the first data on a connection, is answered with the
  announcement of the switch and the first frames of HTTP/2; its handler starts as stream 1, and its response is
  sent completely on that stream and ends it.\<close>

theorem upgrade_served:
  fixes lib :: "'s h2_lib" and ht :: httptools and authority :: "request \<Rightarrow> pystr result"
  assumes "h2_receive lib (request_text m p v hs body) (h2_initiate lib s0) = (Inl e, s)" and "protocol_error e"
    and "token_ok m" "token_ok p" "token_ok v" and "occurs_in ''HTTP'' v" and "\<forall>nv \<in> set hs. header_ok nv"
    and "wants_h2c (new_request p m (Some (surviving (splitlines body))) (map clean_header hs) v 0 ''http'') = Some settings"
    and "h2_upgrade lib settings (h2_clear lib s) = (None, s1)" and "h2_to_send lib s1 = (out, s2)"
    and "h2_sends lib opn sent 1" and "\<not> rs_push resp" and "rs_pushes resp = []"
    and "h2_headers lib 1 (status_headers (with_h2_length resp)) s2 = (None, s3)"
    and "opn s3" and "h2_window lib 1 s3 = Inr w" and "1 \<le> w" and "int (length (rs_body resp)) \<le> w"
  shows "let pr = levin_protocol lib ht authority;
      c = snd (data_received pr (request_text m p v hs body) (connection_made pr (handle_connection s0 ssl response_500)));
      d = handler_returned pr 0 resp c
    in concat (cn_out c) = switching @ CRLF @ out \<and> cn_futures c = [0] \<and>
       cn_table c 0 = Some (begin_request
         (new_request p m (Some (surviving (splitlines body))) (map clean_header hs) v 1 ''http'')) \<and>
       cn_futures d = [] \<and>
       (\<exists>hy log. cn_parsers d = [P_hyper hy, P_simple, P_tools] \<and> sent (hy_conn hy) = sent s3 @ log \<and>
          concat (map fst log) = rs_body resp \<and> \<not> opn (hy_conn hy))"
proof -
  let ?pr = "levin_protocol lib ht authority" and ?data = "request_text m p v hs body"
  let ?req = "new_request p m (Some (surviving (splitlines body))) (map clean_header hs) v 0 ''http''"
  let ?up = "new_request p m (Some (surviving (splitlines body))) (map clean_header hs) v 1 ''http''"
  let ?hy = "hyper_connect lib (new_hyper s0)"
  let ?start = "connection_made ?pr (handle_connection s0 ssl response_500)"
  let ?c = "snd (data_received ?pr ?data ?start)"
  let ?fu = "begin_request ?up"
  have "hy_conn ?hy = h2_initiate lib s0" by (simp add: hyper_connect_def new_hyper_def)
  moreover have "simple_handle_request ?data = Inr ([], [?req], False)" using assms(3-7) by (rule simple_request_text)
  moreover have "occurs_in ''HTTP'' ?data"
    unfolding request_text_def using assms(6) by (intro occurs_after occurs_before)
  moreover have "?req\<lparr>rq_stream := 1\<rparr> = ?up" by (simp add: new_request_def)
  ultimately have "pr_request ?pr (P_hyper ?hy) ?data =
      (Inr (switching @ CRLF @ out, [?up], False), P_hyper (?hy\<lparr>hy_conn := s2\<rparr>))"
    using upgrade_parsed [of lib ?data ?hy e s ?req settings s1 out s2] assms(1,2,8-10)
    by (simp add: parser_request_def)
  moreover have "cn_parsers ?start = P_hyper ?hy # [P_simple, P_tools]" "cn_parser ?start = None" "cn_out ?start = []"
    by (simp_all add: connection_made_def handle_connection_def new_conn_def default_parsers_def parser_connect_def)
  moreover have "switching \<noteq> []" by (simp add: switching_def)
  ultimately have c: "?c = schedule ?up (?start\<lparr>cn_parsers := [P_hyper (?hy\<lparr>hy_conn := s2\<rparr>), P_simple, P_tools],
      cn_parser := Some 0, cn_out := [switching @ CRLF @ out]\<rparr>)"
    by (simp add: data_received_def conn_parse_def conn_write_def)
  have facts: "concat (cn_out ?c) = switching @ CRLF @ out" "cn_futures ?c = [0]" "cn_table ?c 0 = Some ?fu"
    "cn_parser ?c = Some 0" "cn_parsers ?c = P_hyper (?hy\<lparr>hy_conn := s2\<rparr>) # [P_simple, P_tools]"
    "pending ?c 0" "\<not> closes ?c 0"
    unfolding c
    by (simp_all add: schedule_def connection_made_def handle_connection_def new_conn_def pending_def closes_def
        begin_request_def)
  have "rq_stream (fu_request ?fu) = 1" by (simp add: new_request_def)
  then show ?thesis
    using http2_answered [of lib opn sent ?fu resp "?hy\<lparr>hy_conn := s2\<rparr>" s3 w ?c "[P_simple, P_tools]" 0 ht authority]
      assms(11-18) facts
    by (simp add: Let_def) blast
qed

theorem upgrade_served_witness:
  "let pr = levin_protocol toy_lib (\<lambda>_. two_chunks) (\<lambda>_. Inr []);
      c = snd (data_received pr (request_text ''GET'' ''/'' ''HTTP/1.1'' [(''Upgrade'', ''h2c''), (''HTTP2-Settings'', ''AAMA'')] [])
            (connection_made pr (handle_connection \<lparr>ty_window = 9, ty_open = True, ty_sent = []\<rparr> False response_500)));
      d = handler_returned pr 0 (new_response 200 ''hello'' None [] False) c
   in concat (cn_out c) = switching @ CRLF @ ''frames'' \<and> rq_stream (fu_request (the (cn_table c 0))) = 1 \<and>
      cn_futures d = [] \<and>
      (\<exists>hy. cn_parsers d = [P_hyper hy, P_simple, P_tools] \<and> concat (map fst (ty_sent (hy_conn hy))) = ''hello'')"
proof -
  let ?s = "\<lparr>ty_window = 9, ty_open = True, ty_sent = []\<rparr>"
  let ?resp = "new_response 200 ''hello'' None [] False"
  have wants: "wants_h2c (new_request ''/'' ''GET'' (Some (surviving (splitlines [])))
      (map clean_header [(''Upgrade'', ''h2c''), (''HTTP2-Settings'', ''AAMA'')]) ''HTTP/1.1'' 0 ''http'') = Some ''AAMA''"
    by code_simp
  have lib: "h2_receive toy_lib data (h2_initiate toy_lib ?s) = (Inl ProtocolError, ?s)" "protocol_error ProtocolError"
    "h2_upgrade toy_lib ''AAMA'' (h2_clear toy_lib ?s) = (None, ?s)" "h2_to_send toy_lib ?s = (''frames'', ?s)"
    "h2_headers toy_lib 1 (status_headers (with_h2_length ?resp)) ?s = (None, ?s)" "ty_open ?s"
    "h2_window toy_lib 1 ?s = Inr 9" for data
    by (simp_all add: toy_lib_def protocol_error_def)
  have head: "token_ok ''GET''" "token_ok ''/''" "token_ok ''HTTP/1.1''" "occurs_in ''HTTP'' ''HTTP/1.1''"
    "\<forall>nv \<in> set [(''Upgrade'', ''h2c''), (''HTTP2-Settings'', ''AAMA'')]. header_ok nv"
    by (simp_all add: token_ok_def is_space_def header_ok_def)
  have plain: "\<not> rs_push ?resp" "rs_pushes ?resp = []" "(1 :: int) \<le> 9" "int (length (rs_body ?resp)) \<le> 9"
    by (simp_all add: new_response_def)
  from upgrade_served [OF lib(1,2) head wants lib(3,4) toy_sends plain(1,2) lib(5-7) plain(3,4),
      of "\<lambda>_. two_chunks" "\<lambda>_. Inr []" False]
  show ?thesis by (auto simp: Let_def begin_request_def new_request_def new_response_def)
qed

end
