(* ===== verification/Draining.thy ===== *)
theory Draining
  imports Connection
begin

text \<open>
  \<^verbatim>\<open>levin/core/connection.py\<close>, over whole runs: that \<open>close\<close> comes to an end, that nothing but
  responses is written once the transport is closing, and that no request stays in the list when
  every handler has ended.
\<close>

section \<open>The loop of close, without fuel\<close>

text \<open>\<open>close\<close> as the interpreter runs it: the iteration over the list at index \<open>i\<close>, where failing a
  future with the close callback runs the whole loop again from the start.\<close>

inductive close_run :: "'p protocol \<Rightarrow> nat \<Rightarrow> 'p conn \<Rightarrow> 'p conn \<Rightarrow> bool" for pr where
  finished: "length (cn_futures c) \<le> i \<Longrightarrow> close_run pr i c c"
| plain: "i < length (cn_futures c) \<Longrightarrow> \<not> closes c (cn_futures c ! i) \<Longrightarrow>
    close_run pr (Suc i) (settle pr (cn_futures c ! i) (Failed CloseException) c) c' \<Longrightarrow> close_run pr i c c'"
| closing: "i < length (cn_futures c) \<Longrightarrow> closes c (cn_futures c ! i) \<Longrightarrow>
    close_run pr 0 ((settle pr (cn_futures c ! i) (Failed CloseException) c)\<lparr>cn_closing := True\<rparr>) c1 \<Longrightarrow>
    close_run pr (Suc i) c1 c' \<Longrightarrow> close_run pr i c c'"

lemma close_run_unique: "close_run pr i c c' \<Longrightarrow> close_run pr i c c'' \<Longrightarrow> c'' = c'"
proof (induction arbitrary: c'' rule: close_run.induct)
  case (finished c i)
  from finished(2) finished(1) show ?case by (cases rule: close_run.cases) auto
next
  case (plain i c c')
  from plain(5) plain(1,2,4) show ?case by (cases rule: close_run.cases) auto
next
  case (closing i c c1 c')
  from closing(7) show ?case
  proof (cases rule: close_run.cases)
    case (closing c2)
    with \<open>\<And>c''. close_run pr 0 _ c'' \<Longrightarrow> c'' = c1\<close> have "c2 = c1" by blast
    with closing \<open>\<And>c''. close_run pr (Suc i) c1 c'' \<Longrightarrow> c'' = c'\<close> show ?thesis by blast
  qed (use closing(1,2) in simp_all)
qed

lemma close_loop_run:
  "conn_inv c \<Longrightarrow> length (cn_futures c) < n \<Longrightarrow> close_run pr i c (close_loop n pr i c)"
proof (induction n arbitrary: i c)
  case 0
  then show ?case by simp
next
  case (Suc n)
  show ?case
  proof (cases "i < length (cn_futures c)")
    case False
    then show ?thesis by (simp add: close_run.finished)
  next
    case True
    define c1 where "c1 = settle pr (cn_futures c ! i) (Failed CloseException) c"
    have c1: "conn_inv c1" "length (cn_futures c1) < n"
      using Suc.prems True settle_shortens [of c "cn_futures c ! i" pr "Failed CloseException"]
      by (simp_all add: c1_def conn_inv_settle)
    show ?thesis
    proof (cases "closes c (cn_futures c ! i)")
      case False
      have "close_run pr (Suc i) c1 (close_loop n pr (Suc i) c1)" using c1 by (rule Suc.IH)
      with True False have "close_run pr i c (close_loop n pr (Suc i) c1)"
        unfolding c1_def by (rule close_run.plain)
      moreover have "close_loop (Suc n) pr i c = close_loop n pr (Suc i) c1"
        using True False by (simp add: Let_def c1_def)
      ultimately show ?thesis by simp
    next
      case closing: True
      define c2 where "c2 = close_loop n pr 0 (c1\<lparr>cn_closing := True\<rparr>)"
      have inner: "close_run pr 0 (c1\<lparr>cn_closing := True\<rparr>) c2"
        unfolding c2_def using c1 by (intro Suc.IH) (simp_all add: conn_inv_closing)
      have "conn_inv c2" "length (cn_futures c2) < n"
        using c1 length_close_loop [of n pr 0 "c1\<lparr>cn_closing := True\<rparr>"]
        by (simp_all add: c2_def inv.P_close_loop conn_inv_closing)
      then have "close_run pr (Suc i) c2 (close_loop n pr (Suc i) c2)" by (rule Suc.IH)
      with True closing inner have "close_run pr i c (close_loop n pr (Suc i) c2)"
        unfolding c1_def by (rule close_run.closing)
      moreover have "close_loop (Suc n) pr i c = close_loop n pr (Suc i) c2"
        using True closing by (simp add: Let_def c1_def c2_def)
      ultimately show ?thesis by simp
    qed
  qed
qed

section \<open>Silence\<close>

definition silent :: "bytes list \<Rightarrow> 'p conn \<Rightarrow> bool" where
  "silent out c \<longleftrightarrow> cn_closing c \<and> cn_out c = out"

lemma silent_settle: "silent out c \<Longrightarrow> silent out (settle pr f st c)"
  by (auto simp: silent_def settle_def done_callback_def write_500_def Let_def split: option.split fut_state.split)

interpretation silence: loop_property pr "silent out" for pr :: "'p protocol" and out
  by unfold_locales (simp_all add: silent_settle, simp add: silent_def)

lemma silent_set_fut [simp]: "silent out (set_fut f g c) = silent out c"
  by (simp add: silent_def)

section \<open>Pending requests\<close>

definition only_pending :: "nat set \<Rightarrow> 'p conn \<Rightarrow> bool" where
  "only_pending fs c \<longleftrightarrow> (\<forall>f. pending c f \<longrightarrow> f \<in> fs)"

interpretation left: loop_property pr "only_pending fs" for pr :: "'p protocol" and fs
  by unfold_locales (simp_all add: only_pending_def pending_settle, simp add: pending_def)

lemma complete_left:
  assumes "only_pending fs c" and "st \<noteq> Pending"
  shows "only_pending (fs - {f}) (complete pr f st c)"
proof (cases "pending c f")
  case False
  with assms show ?thesis by (auto simp: complete_def only_pending_def)
next
  case True
  have "only_pending (fs - {f}) (settle pr f st c)"
    using assms by (auto simp: only_pending_def pending_settle)
  with True show ?thesis by (simp add: complete_def Let_def left.P_conn_close)
qed

text \<open>The end of a handler. A request that already has an outcome has no handler any more.\<close>

datatype answer = Returned response | Raised exn

definition handler_ends :: "'p protocol \<Rightarrow> nat \<times> answer \<Rightarrow> 'p conn \<Rightarrow> 'p conn" where
  "handler_ends pr ev c =
     (case ev of (f, a) \<Rightarrow>
        if pending c f then
          (case a of Returned resp \<Rightarrow> handler_returned pr f resp c | Raised e \<Rightarrow> handler_raised pr f e c)
        else c)"

definition without_pushes :: "'p protocol \<Rightarrow> nat \<times> answer \<Rightarrow> bool" where
  "without_pushes pr ev \<longleftrightarrow>
     (case snd ev of
        Raised e \<Rightarrow> True
      | Returned resp \<Rightarrow> \<forall>p req. rs_pushes (snd (fst (pr_response pr p resp req))) = [])"

lemma write_response_left:
  assumes "only_pending fs c" and "\<forall>p req. rs_pushes (snd (fst (pr_response pr p resp req))) = []"
    and "write_response pr resp req c = (e, resp', c1)"
  shows "only_pending fs c1" and "e = None \<Longrightarrow> rs_pushes resp' = []"
  using assms
  by (auto simp: write_response_def only_pending_def pending_def split: option.split_asm prod.split_asm)
    (metis fst_conv snd_conv)

lemma handler_ends_left:
  assumes "only_pending fs c" and "without_pushes pr ev"
  shows "only_pending (fs - {fst ev}) (handler_ends pr ev c)"
proof -
  obtain f a where ev: "ev = (f, a)" by (cases ev)
  show ?thesis
  proof (cases "pending c f")
    case False
    with assms(1) ev show ?thesis by (auto simp: handler_ends_def only_pending_def)
  next
    case True
    have over: "only_pending fs (set_fut f (\<lambda>fu. fu\<lparr>fu_stage := Over\<rparr>) c)"
      using assms(1) unfolding only_pending_def by (auto simp: pending_set_fut)
    show ?thesis
    proof (cases a)
      case (Raised e)
      with ev True over show ?thesis by (simp add: handler_ends_def handler_raised_def complete_left)
    next
      case (Returned resp)
      obtain fu where fu: "cn_table c f = Some fu" using pending_table [OF True] by blast
      obtain e resp' c1 where w:
        "write_response pr resp (fu_request fu) (set_fut f (\<lambda>fu. fu\<lparr>fu_stage := Over\<rparr>) c) = (e, resp', c1)"
        by (cases "write_response pr resp (fu_request fu) (set_fut f (\<lambda>fu. fu\<lparr>fu_stage := Over\<rparr>) c)")
      note written = write_response_left [OF over _ w]
      have "\<forall>p req. rs_pushes (snd (fst (pr_response pr p resp req))) = []"
        using assms(2) ev Returned by (simp add: without_pushes_def)
      note c1 = written [OF this]
      have "handler_ends pr ev c = complete pr f (case e of None \<Rightarrow> Done | Some x \<Rightarrow> failure x) c1"
        using w c1(2) fu True ev Returned
        by (simp add: handler_ends_def handler_returned_def split: option.split)
      moreover have "(case e of None \<Rightarrow> Done | Some x \<Rightarrow> failure x) \<noteq> Pending" by (simp split: option.split)
      ultimately show ?thesis using complete_left [OF c1(1)] ev by simp
    qed
  qed
qed

lemma handlers_end_left:
  "only_pending fs c \<Longrightarrow> list_all (without_pushes pr) evs \<Longrightarrow>
   only_pending (fs - fst ` set evs) (fold (handler_ends pr) evs c)"
proof (induction evs arbitrary: fs c)
  case Nil
  then show ?case by simp
next
  case (Cons ev evs)
  then have "only_pending (fs - {fst ev}) (handler_ends pr ev c)" by (simp add: handler_ends_left)
  from Cons.IH [OF this] Cons.prems(2)
  have "only_pending (fs - {fst ev} - fst ` set evs) (fold (handler_ends pr) (ev # evs) c)" by simp
  moreover have "fs - {fst ev} - fst ` set evs = fs - fst ` set (ev # evs)" by auto
  ultimately show ?case by (simp only:)
qed

lemma handler_ends_inv: "conn_inv c \<Longrightarrow> conn_inv (handler_ends pr ev c)"
  by (auto simp: handler_ends_def conn_inv_returned handler_raised_def inv.P_complete conn_inv_set_fut
      split: prod.split answer.split)

lemma handlers_end_inv: "conn_inv c \<Longrightarrow> conn_inv (fold (handler_ends pr) evs c)"
  by (induction evs arbitrary: c) (simp_all add: handler_ends_inv)

section \<open>Properties\<close>

text \<open>C22: \<open>close\<close> ends: on every reachable connection the loop, with the closes that it causes itself,
  has a finite run, and the state that it ends in is the one that \<open>conn_close\<close> computes.\<close>

theorem close_terminates:
  assumes "conn_reachable pr c"
  shows "close_run pr 0 (c\<lparr>cn_closing := True\<rparr>) c' \<longleftrightarrow> c' = conn_close pr c"
proof -
  have "close_run pr 0 (c\<lparr>cn_closing := True\<rparr>) (conn_close pr c)"
    unfolding conn_close_def
    using conn_reachable_inv [OF assms] by (intro close_loop_run) (simp_all add: conn_inv_closing)
  then show ?thesis using close_run_unique by blast
qed

theorem close_terminates_witness:
  "close_run simple_protocol 0 ((busy 3)\<lparr>cn_closing := True\<rparr>) (conn_close simple_protocol (busy 3))"
  using close_terminates [OF busy_reachable [of 3]] by blast

text \<open>Closing or losing the connection writes nothing, although it fails requests; and once the
  transport is closing a handler or a push that fails writes nothing either.\<close>

theorem closing_is_silent:
  "cn_out (conn_close pr c) = cn_out c \<and> cn_out (connection_lost pr c) = cn_out c \<and>
   cn_out (handler_raised pr f e (conn_close pr c)) = cn_out c \<and>
   cn_out (push_raised pr f k e (conn_close pr c)) = cn_out c \<and>
   cn_out (handler_raised pr f e (connection_lost pr c)) = cn_out c \<and>
   cn_out (push_raised pr f k e (connection_lost pr c)) = cn_out c"
proof -
  have "silent (cn_out c) (c\<lparr>cn_closing := True\<rparr>)" by (simp add: silent_def)
  then have "silent (cn_out c) (conn_close pr c)" "silent (cn_out c) (connection_lost pr c)"
    unfolding conn_close_def connection_lost_def
    by (rule silence.P_close_loop, rule silence.P_lost_from [OF _ refl])
  moreover have "silent (cn_out c) (handler_raised pr f e d)" "silent (cn_out c) (push_raised pr f k e d)"
    if "silent (cn_out c) d" for d
    using that by (simp_all add: handler_raised_def push_raised_def silence.P_complete)
  ultimately show ?thesis by (simp add: silent_def)
qed

text \<open>When the handlers of all requests in progress have ended, in any order, with responses without
  pushes or with exceptions, no request is in progress any more.\<close>

theorem handlers_drain:
  assumes "conn_reachable pr c" and "set (cn_futures c) \<subseteq> fst ` set evs" and "list_all (without_pushes pr) evs"
  shows "cn_futures (fold (handler_ends pr) evs c) = []"
proof -
  let ?c = "fold (handler_ends pr) evs c"
  have "only_pending (set (cn_futures c)) c"
    using conn_reachable_inv [OF assms(1)] by (simp add: conn_inv_def only_pending_def)
  from handlers_end_left [OF this assms(3)] assms(2) have "\<not> pending ?c f" for f
    by (auto simp: only_pending_def)
  moreover have "conn_inv ?c" using conn_reachable_inv [OF assms(1)] by (rule handlers_end_inv)
  ultimately show ?thesis by (auto simp: conn_inv_def)
qed

theorem handlers_drain_witness:
  "cn_futures (fold (handler_ends simple_protocol)
     [(2, Returned (new_response 200 ''b'' None [] False)), (0, Raised KeyError), (1, Returned (new_response 204 [] None [] False))]
     (busy 3)) = []"
proof (rule handlers_drain [OF busy_reachable])
  show "list_all (without_pushes simple_protocol)
     [(2, Returned (new_response 200 ''b'' None [] False)), (0, Raised KeyError), (1, Returned (new_response 204 [] None [] False))]"
    by (simp add: without_pushes_def simple_protocol_def new_response_def)
qed (simp add: eval_nat_numeral)

end
