(* ===== verification/Progress.thy ===== *)
theory Progress
  imports Draining
begin

text \<open>
  \<^verbatim>\<open>levin/core/connection.py\<close>: the requests of a connection all come to an end. Pushes are included: the
  handler of a request can start further handlers, one per push, and the request is in progress until
  the last of them has ended or one has failed.
\<close>

section \<open>The ends of handlers\<close>

text \<open>The steps of \<open>conn_step\<close> that are ends of handlers. The peer sends nothing meanwhile.\<close>

inductive handler_step :: "'p protocol \<Rightarrow> 'p conn \<Rightarrow> 'p conn \<Rightarrow> bool" for pr where
  returned: "cn_table c f = Some fu \<Longrightarrow> fu_stage fu = Handling \<Longrightarrow> handler_step pr c (handler_returned pr f resp c)"
| raised: "cn_table c f = Some fu \<Longrightarrow> fu_stage fu = Handling \<Longrightarrow> handler_step pr c (handler_raised pr f e c)"
| pushed: "cn_table c f = Some fu \<Longrightarrow> fu_stage fu = Pushing ps \<Longrightarrow> map_of ps k = Some req \<Longrightarrow>
    handler_step pr c (push_returned pr f k resp c)"
| push_failed: "cn_table c f = Some fu \<Longrightarrow> fu_stage fu = Pushing ps \<Longrightarrow> map_of ps k = Some req \<Longrightarrow>
    handler_step pr c (push_raised pr f k e c)"

lemma handler_step_conn: "handler_step pr c c' \<Longrightarrow> conn_step pr c c'"
  by (induction rule: handler_step.induct) (auto intro: conn_step.intros)

text \<open>Every schedule of the handlers that are running leads, after finitely many of their ends, to a
  connection without requests; as long as there are some, a handler is running.\<close>

inductive drains :: "'p protocol \<Rightarrow> 'p conn \<Rightarrow> bool" for pr where
  drained: "cn_futures c = [] \<Longrightarrow> drains pr c"
| running: "handler_step pr c c1 \<Longrightarrow> (\<And>c'. handler_step pr c c' \<Longrightarrow> drains pr c') \<Longrightarrow> drains pr c"

section \<open>Stages\<close>

definition stage_of :: "'p conn \<Rightarrow> nat \<Rightarrow> stage" where
  "stage_of c f = (case cn_table c f of None \<Rightarrow> Over | Some fu \<Rightarrow> fu_stage fu)"

text \<open>Settling futures does not touch the stages.\<close>

definition same_stages :: "(nat \<Rightarrow> stage) \<Rightarrow> nat \<Rightarrow> 'p conn \<Rightarrow> bool" where
  "same_stages st n c \<longleftrightarrow> stage_of c = st \<and> cn_next c = n"

lemma stage_of_settle: "stage_of (settle pr f st c) = stage_of c"
  by (auto simp: stage_of_def settle_table fun_eq_iff split: option.splits)

interpretation stages: loop_property pr "same_stages st n" for pr :: "'p protocol" and st n
proof
  show "s \<noteq> Pending \<Longrightarrow> same_stages st n c \<Longrightarrow> same_stages st n (settle pr f s c)" for s f and c :: "'p conn"
    using same_frame_settle [of c pr f s] by (simp add: same_stages_def stage_of_settle same_frame_def)
qed (simp add: same_stages_def stage_of_def [abs_def])

lemma complete_stages:
  assumes "st \<noteq> Pending"
  shows "stage_of (complete pr f st c) = stage_of c" "cn_next (complete pr f st c) = cn_next c"
proof -
  have "same_stages (stage_of c) (cn_next c) (complete pr f st c)"
    using assms by (rule stages.P_complete) (simp add: same_stages_def)
  then show "stage_of (complete pr f st c) = stage_of c" "cn_next (complete pr f st c) = cn_next c"
    by (simp_all add: same_stages_def)
qed

lemma write_response_stages:
  assumes "write_response pr resp req c = (e, resp', c')"
  shows "stage_of c' = stage_of c" "cn_next c' = cn_next c" "pending c' = pending c"
  using write_response_frame [OF assms] by (simp_all add: stage_of_def [abs_def] pending_def [abs_def])

lemma set_stage:
  assumes "cn_table c f = Some fu"
  shows "stage_of (set_fut f (\<lambda>fu. fu\<lparr>fu_stage := g (fu_stage fu)\<rparr>) c) = (stage_of c)(f := g (stage_of c f))"
  using assms by (auto simp: stage_of_def set_fut_def)

section \<open>What is still running\<close>

text \<open>A handler that has not ended counts by itself; a request whose handler has ended counts its
  pushes. A handler may start any number of pushes, so the measure is lexicographic.\<close>

definition handling :: "'p conn \<Rightarrow> nat" where
  "handling c = length (filter (\<lambda>f. stage_of c f = Handling) [0..<cn_next c])"

fun stage_pushes :: "stage \<Rightarrow> nat" where
  "stage_pushes (Pushing ps) = length ps"
| "stage_pushes _ = 0"

definition pushing :: "'p conn \<Rightarrow> nat" where
  "pushing c = sum_list (map (\<lambda>f. stage_pushes (stage_of c f)) [0..<cn_next c])"

lemma upd_filter_less:
  assumes "f < n" and "st f = Handling" and "s \<noteq> Handling"
  shows "length (filter (\<lambda>g. (st(f := s)) g = Handling) [0..<n]) < length (filter (\<lambda>g. st g = Handling) [0..<n])"
proof -
  have "filter (\<lambda>g. (st(f := s)) g = Handling) [0..<n] = filter (\<lambda>g. g \<noteq> f) (filter (\<lambda>g. st g = Handling) [0..<n])"
    using assms(3) by (auto intro: filter_cong)
  moreover have "f \<in> set (filter (\<lambda>g. st g = Handling) [0..<n])" using assms(1,2) by simp
  ultimately show ?thesis by (metis (full_types) length_filter_less)
qed

lemma upd_filter_same:
  assumes "st f \<noteq> Handling" and "s \<noteq> Handling"
  shows "filter (\<lambda>g. (st(f := s)) g = Handling) xs = filter (\<lambda>g. st g = Handling) xs"
  using assms by (auto intro: filter_cong)

lemma upd_sum_less:
  assumes "f \<in> set xs" and "distinct xs" and "stage_pushes s < stage_pushes (st f)"
  shows "sum_list (map (\<lambda>g. stage_pushes ((st(f := s)) g)) xs) < sum_list (map (\<lambda>g. stage_pushes (st g)) xs)"
  using assms(1,2)
proof (induction xs)
  case Nil
  then show ?case by simp
next
  case (Cons x xs)
  show ?case
  proof (cases "x = f")
    case True
    with Cons.prems(2) have "sum_list (map (\<lambda>g. stage_pushes ((st(f := s)) g)) xs) = sum_list (map (\<lambda>g. stage_pushes (st g)) xs)"
      by (intro arg_cong [where f = sum_list] map_cong) auto
    with True assms(3) show ?thesis by simp
  next
    case False
    with Cons show ?thesis by simp
  qed
qed

lemma filter_keys_less: "map_of ps k = Some x \<Longrightarrow> length (filter (\<lambda>(j, r). j \<noteq> k) ps) < length ps"
  by (rule length_filter_less [where x = "(k, x)"]) (auto dest: map_of_SomeD)

text \<open>Without pushes to start, the end of the handler is the end of the request.\<close>

lemma returned_completes:
  assumes "\<not> (e = None \<and> (\<exists>i. cn_parser c1 = Some i \<and> rs_pushes resp' \<noteq> [] \<and> pr_push_support pr (cn_parsers c1 ! i)))"
    and "cn_table c f = Some fu"
    and "write_response pr resp (fu_request fu) (set_fut f (\<lambda>fu. fu\<lparr>fu_stage := Over\<rparr>) c) = (e, resp', c1)"
  obtains st where "st \<noteq> Pending" "handler_returned pr f resp c = complete pr f st c1"
proof (cases e)
  case (Some x)
  with assms(2,3) show ?thesis by (intro that [of "failure x"]) (simp_all add: handler_returned_def)
next
  case None
  with assms show ?thesis by (intro that [of Done]) (auto simp: handler_returned_def split: option.split)
qed

lemma returned_stages:
  assumes "cn_table c f = Some fu"
  shows "\<exists>s. s \<noteq> Handling \<and> stage_of (handler_returned pr f resp c) = (stage_of c)(f := s) \<and>
    cn_next (handler_returned pr f resp c) = cn_next c"
proof -
  let ?over = "set_fut f (\<lambda>fu. fu\<lparr>fu_stage := Over\<rparr>) c"
  obtain e resp' c1 where w: "write_response pr resp (fu_request fu) ?over = (e, resp', c1)"
    by (cases "write_response pr resp (fu_request fu) ?over")
  note frame = write_response_stages [OF w]
  have over: "stage_of ?over = (stage_of c)(f := Over)" using set_stage [OF assms, of "\<lambda>_. Over"] by simp
  have table: "cn_table c1 f \<noteq> None"
    using write_response_frame(2) [OF w] assms by (simp add: set_fut_def)
  then have pushing: "stage_of (set_fut f (\<lambda>fu. fu\<lparr>fu_stage := s\<rparr>) c1) = (stage_of c)(f := s)" for s
    using set_stage [of c1 f _ "\<lambda>_. s"] frame(1) over by fastforce
  let ?starts = "e = None \<and> (\<exists>i. cn_parser c1 = Some i \<and> rs_pushes resp' \<noteq> [] \<and> pr_push_support pr (cn_parsers c1 ! i))"
  let ?ps = "enumerate 0 (map (push_request c1 (fu_request fu)) (rs_pushes resp'))"
  show ?thesis
  proof (cases ?starts)
    case True
    with assms w have "handler_returned pr f resp c = set_fut f (\<lambda>fu. fu\<lparr>fu_stage := Pushing ?ps\<rparr>) c1"
      by (auto simp: handler_returned_def)
    then show ?thesis
      using frame(2) by (intro exI [where x = "Pushing ?ps"]) (simp add: pushing)
  next
    case False
    then obtain st where "st \<noteq> Pending" "handler_returned pr f resp c = complete pr f st c1"
      using assms w by (rule returned_completes)
    then show ?thesis
      using frame over by (intro exI [where x = Over]) (simp add: complete_stages)
  qed
qed

lemma raised_stages:
  assumes "cn_table c f = Some fu"
  shows "stage_of (handler_raised pr f e c) = (stage_of c)(f := Over)" "cn_next (handler_raised pr f e c) = cn_next c"
  using set_stage [OF assms, of "\<lambda>_. Over"] by (simp_all add: handler_raised_def complete_stages)

lemma pushed_stages:
  assumes "cn_table c f = Some fu" and "fu_stage fu = Pushing ps" and "map_of ps k = Some req"
  shows "stage_of (push_returned pr f k resp c) = (stage_of c)(f := drop_push k (Pushing ps))"
    "cn_next (push_returned pr f k resp c) = cn_next c"
proof -
  let ?drop = "set_fut f (\<lambda>fu. fu\<lparr>fu_stage := drop_push k (fu_stage fu)\<rparr>) c"
  obtain e resp' c1 where w: "write_response pr (resp\<lparr>rs_push := True\<rparr>) req ?drop = (e, resp', c1)"
    by (cases "write_response pr (resp\<lparr>rs_push := True\<rparr>) req ?drop")
  have "stage_of ?drop = (stage_of c)(f := drop_push k (Pushing ps))"
    using set_stage [OF assms(1), of "drop_push k"] assms(1,2) by (simp add: stage_of_def)
  with assms w write_response_stages [OF w]
  show "stage_of (push_returned pr f k resp c) = (stage_of c)(f := drop_push k (Pushing ps))"
    "cn_next (push_returned pr f k resp c) = cn_next c"
    by (simp_all add: push_returned_def complete_stages split: option.split)
qed

lemma push_raised_stages:
  assumes "cn_table c f = Some fu" and "fu_stage fu = Pushing ps"
  shows "stage_of (push_raised pr f k e c) = (stage_of c)(f := drop_push k (Pushing ps))"
    "cn_next (push_raised pr f k e c) = cn_next c"
  using set_stage [OF assms(1), of "drop_push k"] assms
  by (simp_all add: push_raised_def complete_stages) (simp add: stage_of_def)

text \<open>One end of a handler makes the measure smaller.\<close>

definition work :: "'p conn \<Rightarrow> nat \<times> nat" where
  "work c = (handling c, pushing c)"

lemma known_future: "conn_inv c \<Longrightarrow> cn_table c f = Some fu \<Longrightarrow> f < cn_next c"
  by (rule ccontr) (simp add: conn_inv_def)

lemma handling_ends:
  assumes "f < cn_next c" and "stage_of c f = Handling" and "s \<noteq> Handling"
    and "stage_of c' = (stage_of c)(f := s)" and "cn_next c' = cn_next c"
  shows "(work c', work c) \<in> less_than <*lex*> less_than"
proof -
  have "handling c' < handling c"
    unfolding handling_def assms(4,5) by (rule upd_filter_less) (use assms(1-3) in simp_all)
  then show ?thesis by (simp add: work_def)
qed

lemma push_ends:
  assumes "f < cn_next c" and "stage_of c f = Pushing ps" and "map_of ps k = Some req"
    and "stage_of c' = (stage_of c)(f := drop_push k (Pushing ps))" and "cn_next c' = cn_next c"
  shows "(work c', work c) \<in> less_than <*lex*> less_than"
proof -
  have "handling c' = handling c"
    using assms(2,4,5) upd_filter_same [of "stage_of c" f "drop_push k (Pushing ps)"]
    by (simp add: handling_def drop_push_def del: fun_upd_apply)
  moreover have "pushing c' < pushing c"
    unfolding pushing_def assms(4,5)
    by (rule upd_sum_less) (use assms(1-3) in \<open>simp_all add: drop_push_def filter_keys_less\<close>)
  ultimately show ?thesis by (simp add: work_def)
qed

lemma handler_step_work:
  assumes "handler_step pr c c'" and "conn_inv c"
  shows "(work c', work c) \<in> less_than <*lex*> less_than"
  using assms(1)
proof cases
  case (returned f fu resp)
  obtain s where "s \<noteq> Handling" "stage_of c' = (stage_of c)(f := s)" "cn_next c' = cn_next c"
    using returned_stages [OF returned(2), of pr resp] returned(1) by blast
  with returned known_future [OF assms(2)] show ?thesis
    by (intro handling_ends) (auto simp: stage_of_def)
next
  case (raised f fu e)
  with raised_stages [OF raised(2)] known_future [OF assms(2)] show ?thesis
    by (intro handling_ends [of f c Over]) (auto simp: stage_of_def)
next
  case (pushed f fu ps k req resp)
  with pushed_stages [OF pushed(2,3,4)] known_future [OF assms(2)] show ?thesis
    by (intro push_ends [of f c ps k req]) (auto simp: stage_of_def)
next
  case (push_failed f fu ps k req e)
  with push_raised_stages [OF push_failed(2,3)] known_future [OF assms(2)] show ?thesis
    by (intro push_ends [of f c ps k req]) (auto simp: stage_of_def)
qed

section \<open>Somebody is running\<close>

text \<open>Every request without an outcome, those of \<open>fs\<close> apart, has a handler that is running.\<close>

fun live :: "stage \<Rightarrow> bool" where
  "live Handling = True"
| "live (Pushing ps) = (ps \<noteq> [])"
| "live Over = False"

definition running_but :: "nat set \<Rightarrow> 'p conn \<Rightarrow> bool" where
  "running_but fs c \<longleftrightarrow> (\<forall>f. pending c f \<longrightarrow> f \<in> fs \<or> live (stage_of c f))"

interpretation alive: loop_property pr "running_but fs" for pr :: "'p protocol" and fs
proof
  show "st \<noteq> Pending \<Longrightarrow> running_but fs c \<Longrightarrow> running_but fs (settle pr f st c)" for st f and c :: "'p conn"
    by (simp add: running_but_def pending_settle stage_of_settle)
  show "running_but fs c \<Longrightarrow> running_but fs (c\<lparr>cn_closing := True\<rparr>)" for c :: "'p conn"
    by (simp add: running_but_def pending_def stage_of_def)
qed

lemma running_cong:
  "pending c' = pending c \<Longrightarrow> stage_of c' = stage_of c \<Longrightarrow> running_but fs c' = running_but fs c"
  by (simp add: running_but_def)

lemma running_weaker: "running_but {} c \<Longrightarrow> running_but fs c"
  by (auto simp: running_but_def)

lemma running_back: "running_but {f} c \<Longrightarrow> live (stage_of c f) \<Longrightarrow> running_but {} c"
  by (auto simp: running_but_def)

text \<open>A stage is changed, and then the request ends.\<close>

lemma running_set:
  assumes "running_but {} c"
  shows "running_but {f} (set_fut f (\<lambda>fu. fu\<lparr>fu_stage := g (fu_stage fu)\<rparr>) c)"
  using assms by (auto simp: running_but_def pending_def stage_of_def set_fut_def split: option.splits)

lemma running_complete:
  assumes "running_but {f} c" and "st \<noteq> Pending"
  shows "running_but {} (complete pr f st c)"
proof -
  have "only_pending (UNIV - {f}) (complete pr f st c)"
    using assms(2) by (intro complete_left) (simp_all add: only_pending_def)
  with alive.P_complete [OF assms(2,1)] show ?thesis by (auto simp: running_but_def only_pending_def)
qed

lemma running_raised: "running_but {} c \<Longrightarrow> running_but {} (handler_raised pr f e c)"
  using running_set [of c f "\<lambda>_. Over"] by (simp add: handler_raised_def running_complete)

lemma running_push_raised: "running_but {} c \<Longrightarrow> running_but {} (push_raised pr f k e c)"
  using running_set [of c f "drop_push k"] by (simp add: push_raised_def running_complete)

lemma running_returned:
  assumes "running_but {} c"
  shows "running_but {} (handler_returned pr f resp c)"
proof (cases "cn_table c f")
  case None
  with assms show ?thesis by (simp add: handler_returned_def)
next
  case fu: (Some fu)
  let ?over = "set_fut f (\<lambda>fu. fu\<lparr>fu_stage := Over\<rparr>) c"
  obtain e resp' c1 where w: "write_response pr resp (fu_request fu) ?over = (e, resp', c1)"
    by (cases "write_response pr resp (fu_request fu) ?over")
  have c1: "running_but {f} c1"
    using running_set [OF assms, of f "\<lambda>_. Over"] write_response_stages [OF w]
    by (simp add: running_cong [of c1 ?over])
  let ?starts = "e = None \<and> (\<exists>i. cn_parser c1 = Some i \<and> rs_pushes resp' \<noteq> [] \<and> pr_push_support pr (cn_parsers c1 ! i))"
  show ?thesis
  proof (cases ?starts)
    case False
    then obtain st where "st \<noteq> Pending" "handler_returned pr f resp c = complete pr f st c1"
      using fu w by (rule returned_completes)
    with c1 show ?thesis by (simp add: running_complete)
  next
    case True
    let ?ps = "enumerate 0 (map (push_request c1 (fu_request fu)) (rs_pushes resp'))"
    have ps: "?ps \<noteq> []" using True by (cases "rs_pushes resp'") simp_all
    have table: "cn_table c1 f \<noteq> None" using write_response_frame(2) [OF w] fu by (simp add: set_fut_def)
    have "handler_returned pr f resp c = set_fut f (\<lambda>fu. fu\<lparr>fu_stage := Pushing ?ps\<rparr>) c1"
      using True fu w by (auto simp: handler_returned_def)
    moreover have "running_but {} (set_fut f (\<lambda>fu. fu\<lparr>fu_stage := Pushing ?ps\<rparr>) c1)"
      using c1 table ps
      by (auto simp: running_but_def pending_def stage_of_def set_fut_def split: option.splits if_splits)
    ultimately show ?thesis by simp
  qed
qed

lemma running_pushed:
  assumes "running_but {} c" and "cn_table c f = Some fu" and "fu_stage fu = Pushing ps" and "map_of ps k = Some req"
  shows "running_but {} (push_returned pr f k resp c)"
proof -
  let ?drop = "set_fut f (\<lambda>fu. fu\<lparr>fu_stage := drop_push k (fu_stage fu)\<rparr>) c"
  obtain e resp' c1 where w: "write_response pr (resp\<lparr>rs_push := True\<rparr>) req ?drop = (e, resp', c1)"
    by (cases "write_response pr (resp\<lparr>rs_push := True\<rparr>) req ?drop")
  have c1: "running_but {f} c1"
    using running_set [OF assms(1), of f "drop_push k"] write_response_stages [OF w]
    by (simp add: running_cong [of c1 ?drop])
  have "stage_of c1 f = drop_push k (Pushing ps)"
    using write_response_stages(1) [OF w] set_stage [OF assms(2), of "drop_push k"] assms(2,3)
    by (simp add: stage_of_def)
  then have "live (stage_of c1 f)" if "\<not> no_push_left c1 f"
    using that write_response_frame(2) [OF w] assms(2)
    by (auto simp: no_push_left_def stage_of_def drop_push_def set_fut_def)
  with c1 have "running_but {} c1" if "\<not> no_push_left c1 f" using that running_back by blast
  with assms w c1 show ?thesis by (auto simp: push_returned_def running_complete split: option.split)
qed

lemma running_schedule: "conn_inv c \<Longrightarrow> running_but {} c \<Longrightarrow> running_but {} (schedule req c)"
  by (auto simp: running_but_def schedule_def pending_def stage_of_def begin_request_def split: option.splits)

lemma running_schedule_all:
  "conn_inv c \<Longrightarrow> running_but {} c \<Longrightarrow> running_but {} (foldl (\<lambda>d req. schedule req d) c reqs)"
  by (induction reqs arbitrary: c) (simp_all add: conn_inv_schedule running_schedule)

lemma running_received:
  assumes "conn_inv c" and "running_but {} c" and "data_received pr data c = (e, c')"
  shows "running_but {} c'"
proof -
  obtain res c1 where parse: "conn_parse pr data c = (res, c1)" by (cases "conn_parse pr data c")
  have c1: "conn_inv (conn_write out c1)" "running_but {} (conn_write out c1)" "conn_inv c1" "running_but {} c1" for out
    using conn_parse_frame [OF parse] assms(1,2)
    by (simp_all add: conn_inv_def running_but_def pending_def stage_of_def conn_write_def)
  have closes: "running_but {} (set_fut f (\<lambda>fu. fu\<lparr>fu_closes := True\<rparr>) d)" if "running_but {} d" for f d
    using that by (auto simp: running_but_def pending_def stage_of_def set_fut_def split: option.splits)
  from assms(3) parse c1 show ?thesis
    by (auto simp: data_received_def Let_def alive.P_conn_close running_schedule_all closes
        split: sum.split_asm option.split_asm prod.split_asm if_split_asm)
qed

lemma running_reachable: "conn_reachable pr c \<Longrightarrow> running_but {} c"
proof (induction rule: conn_reachable.induct)
  case (start parsers ssl)
  show ?case by (simp add: running_but_def new_conn_def pending_def)
next
  case (step c c')
  from step.hyps(2) step.IH conn_reachable_inv [OF step.hyps(1)] show ?case
  proof cases
    case made
    with step.IH show ?thesis by (simp add: running_but_def connection_made_def pending_def stage_of_def)
  qed (auto simp: running_received running_returned running_raised running_pushed running_push_raised
      alive.P_connection_lost)
qed

text \<open>So as long as there is a request, some handler can end.\<close>

lemma handler_runs:
  assumes "conn_reachable pr c" and "cn_futures c \<noteq> []"
  shows "\<exists>c'. handler_step pr c c'"
proof -
  obtain f where "pending c f"
    using assms conn_reachable_inv [OF assms(1)] by (cases "cn_futures c") (auto simp: conn_inv_def)
  with running_reachable [OF assms(1)] obtain fu where fu: "cn_table c f = Some fu" "live (fu_stage fu)"
    by (auto simp: running_but_def pending_def stage_of_def split: option.split_asm)
  show ?thesis
  proof (cases "fu_stage fu")
    case Handling
    with fu show ?thesis by (blast intro: handler_step.raised)
  next
    case (Pushing ps)
    with fu obtain k req qs where "ps = (k, req) # qs" by (cases ps) auto
    then have "map_of ps k = Some req" by simp
    with Pushing fu show ?thesis by (blast intro: handler_step.push_failed)
  next
    case Over
    with fu show ?thesis by simp
  qed
qed

lemma all_drain: "conn_reachable pr c \<Longrightarrow> drains pr c"
proof (induction "work c" arbitrary: c rule: wf_induct_rule [OF wf_lex_prod [OF wf_less_than wf_less_than]])
  case (1 c)
  have next_drains: "drains pr c'" if step: "handler_step pr c c'" for c'
  proof (rule "1.hyps")
    show "(work c', work c) \<in> less_than <*lex*> less_than"
      using step conn_reachable_inv [OF "1.prems"] by (rule handler_step_work)
    show "conn_reachable pr c'" using "1.prems" handler_step_conn [OF step] by (rule conn_reachable.step)
  qed
  show ?case
  proof (cases "cn_futures c = []")
    case True
    then show ?thesis by (rule drains.drained)
  next
    case False
    from handler_runs [OF "1.prems" False] obtain c' where "handler_step pr c c'" by blast
    then show ?thesis using next_drains by (rule drains.running)
  qed
qed

section \<open>Properties\<close>

text \<open>C13: The requests of a connection, with their pushes, all come to an end: on every reachable
  connection, whatever the handlers and the handlers of the pushes return or raise and in whatever
  order they end, after finitely many of their ends no request is in progress, and none gets stuck on
  the way: as long as a request is in progress, one of its handlers is running.\<close>

theorem requests_drain:
  assumes "conn_reachable pr c"
  shows "drains pr c \<and> (cn_futures c \<noteq> [] \<longrightarrow> (\<exists>c'. handler_step pr c c'))"
  using all_drain [OF assms] handler_runs [OF assms] by blast

theorem requests_drain_witness:
  "drains simple_protocol (busy 3) \<and> (\<exists>c'. handler_step simple_protocol (busy 3) c')"
  using requests_drain [OF busy_reachable [of 3]] by simp

end
