(* ===== verification/Http2_Pushes.thy ===== *)
theory Http2_Pushes
  imports Http2_Served Draining
begin

text \<open>
  Pushes on an HTTP/2 connection (\<^verbatim>\<open>handle_push\<close> in \<^verbatim>\<open>levin/core/connection.py\<close>, the push branch of
  \<^verbatim>\<open>handle_response\<close> in \<^verbatim>\<open>levin/core/parsers/hyper.py\<close>): what becomes of the stream of the request. A response
  with pushes does not end it; the first push that is accepted does, and on a stream that has been ended the
  library accepts no other push.
\<close>

section \<open>Ended streams\<close>

text \<open>What the HTTP/2 protocol says of \<open>end_stream\<close> and \<open>push_stream\<close>: a stream that the server has ended stays
  ended, whatever is called, and a promise on it is a protocol error. What the library keeps of a refused
  promise, the promised stream for one, is left open.\<close>

definition h2_ends :: "'s h2_lib \<Rightarrow> (int \<Rightarrow> 's \<Rightarrow> bool) \<Rightarrow> bool" where
  "h2_ends lib ended \<longleftrightarrow>
     (\<forall>i s. fst (h2_end lib i s) = None \<longrightarrow> ended i (snd (h2_end lib i s))) \<and>
     (\<forall>i j hs s. ended i s \<longrightarrow> (\<exists>e. protocol_error e \<and> fst (h2_push lib i j hs s) = Some e)) \<and>
     (\<forall>i s. ended i s \<longrightarrow>
        ended i (h2_initiate lib s) \<and> ended i (h2_clear lib s) \<and> ended i (snd (h2_to_send lib s)) \<and>
        (\<forall>data. ended i (snd (h2_receive lib data s))) \<and> (\<forall>b. ended i (snd (h2_upgrade lib b s))) \<and>
        (\<forall>j k hs. ended i (snd (h2_push lib j k hs s))) \<and> (\<forall>j. ended i (snd (h2_end lib j s))) \<and>
        (\<forall>j hs. ended i (snd (h2_headers lib j hs s))) \<and> (\<forall>j d fin. ended i (snd (h2_data lib j d fin s))))"

lemma h2_ends_keeps:
  assumes "h2_ends lib ended" and "ended i s"
  shows "ended i (h2_initiate lib s)" "ended i (h2_clear lib s)" "ended i (snd (h2_to_send lib s))"
    "ended i (snd (h2_receive lib data s))" "ended i (snd (h2_upgrade lib b s))"
    "ended i (snd (h2_push lib j k hs s))" "ended i (snd (h2_end lib j s))"
    "ended i (snd (h2_headers lib j hs s))" "ended i (snd (h2_data lib j d fin s))"
  using assms by (simp_all add: h2_ends_def)

lemma h2_ends_refuses:
  assumes "h2_ends lib ended" and "ended i s"
  obtains e s' where "protocol_error e" "h2_push lib i j hs s = (Some e, s')"
proof -
  have "\<exists>e. protocol_error e \<and> fst (h2_push lib i j hs s) = Some e" using assms by (simp add: h2_ends_def)
  then show ?thesis using that by (metis prod.collapse)
qed

lemma send_loop_ended:
  assumes "h2_ends lib ended"
  shows "ended i s \<Longrightarrow> ended i (snd (send_loop n lib parent stream pushes data s))"
proof (induction n arbitrary: data s)
  case 0
  then show ?case by simp
next
  case (Suc n)
  from Suc.prems show ?case
    by (simp add: Let_def case_prod_unfold h2_ends_keeps [OF assms] Suc.IH split: sum.split option.split)
qed

lemma response_ended:
  assumes "h2_ends lib ended" and "ended i (hy_conn hy)"
  shows "ended i (hy_conn (snd (hyper_handle_response lib authority hy resp req)))"
  using assms(2)
  by (simp add: hyper_handle_response_def send_response_def Let_def case_prod_unfold h2_ends_keeps [OF assms(1)]
      send_loop_ended [OF assms(1)] split: sum.split option.split del: send_loop.simps)

lemma request_ended:
  assumes "h2_ends lib ended" and "ended i (hy_conn hy)"
  shows "ended i (hy_conn (snd (hyper_handle_request lib hy data)))"
  using assms(2)
  by (simp add: hyper_handle_request_def hyper_handle_http1_def Let_def case_prod_unfold h2_ends_keeps [OF assms(1)]
      split: sum.split option.split)

text \<open>The push that is accepted ends the stream; on an ended stream a push yields nothing.\<close>

lemma push_ends_stream:
  assumes "h2_ends lib ended" and "rs_push resp" and "authority req = Inr auth" and "h2_next_id lib (hy_conn hy) = Inr j"
    and "h2_push lib (rq_stream req) j (push_headers req auth) (hy_conn hy) = (None, s1)"
    and "h2_end lib (rq_stream req) s1 = (None, s2)"
  shows "ended (rq_stream req) (hy_conn (snd (hyper_handle_response lib authority hy resp req)))"
proof -
  have "ended (rq_stream req) (snd (h2_end lib (rq_stream req) s1))"
    using assms(1,6) unfolding h2_ends_def by (metis fst_conv)
  then have "ended (rq_stream req) s2" using assms(6) by simp
  then show ?thesis
    using assms(2-6)
    by (simp add: hyper_handle_response_def send_response_def Let_def case_prod_unfold h2_ends_keeps [OF assms(1)]
        send_loop_ended [OF assms(1)] split: option.split del: send_loop.simps)
qed

lemma push_refused:
  assumes "h2_ends lib ended" and "ended (rq_stream req) (hy_conn hy)" and "rs_push resp"
    and "authority req = Inr auth" and "h2_next_id lib (hy_conn hy) = Inr j"
  shows "\<exists>hy'. hyper_handle_response lib authority hy resp req = ((([], None), with_h2_length resp), hy')"
proof -
  obtain e s where "protocol_error e" "h2_push lib (rq_stream req) j (push_headers req auth) (hy_conn hy) = (Some e, s)"
    using h2_ends_refuses [OF assms(1,2)] by blast
  with assms(3-5) show ?thesis by (simp add: hyper_handle_response_def Let_def)
qed

section \<open>On a connection\<close>

definition stream_over :: "(int \<Rightarrow> 's \<Rightarrow> bool) \<Rightarrow> int \<Rightarrow> 's parser conn \<Rightarrow> bool" where
  "stream_over ended i c \<longleftrightarrow>
     (\<exists>k hy. cn_parser c = Some k \<and> k < length (cn_parsers c) \<and> cn_parsers c ! k = P_hyper hy \<and> ended i (hy_conn hy))"

lemma write_response_over:
  assumes "h2_ends lib ended" and "stream_over ended i c"
    and "write_response (levin_protocol lib ht authority) resp req c = (e, resp', c')"
  shows "stream_over ended i c'"
proof -
  obtain k hy where c: "cn_parser c = Some k" "k < length (cn_parsers c)" "cn_parsers c ! k = P_hyper hy" "ended i (hy_conn hy)"
    using assms(2) by (auto simp: stream_over_def)
  obtain y hy' where hy': "hyper_handle_response lib authority hy resp req = (y, hy')"
    by (cases "hyper_handle_response lib authority hy resp req")
  then have "ended i (hy_conn hy')" using response_ended [OF assms(1) c(4)] by (metis snd_conv)
  moreover have "cn_parser c' = Some k" "cn_parsers c' = (cn_parsers c)[k := P_hyper hy']"
    using assms(3) c hy' by (auto simp: write_response_def parser_response_def split: prod.split_asm)
  ultimately show ?thesis using c(2) by (simp add: stream_over_def)
qed

lemma settle_over:
  fixes c :: "'a parser conn"
  assumes "h2_ends lib ended" and "stream_over ended i c"
  shows "stream_over ended i (settle (levin_protocol lib ht authority) f st c)"
proof -
  have w500: "stream_over ended i (write_500 (levin_protocol lib ht authority) req d)" if over: "stream_over ended i d" for req d
  proof (cases "cn_connected d \<and> \<not> cn_closing d")
    case True
    obtain e r d' where w: "write_response (levin_protocol lib ht authority) (cn_resp500 d) req d = (e, r, d')"
      by (cases "write_response (levin_protocol lib ht authority) (cn_resp500 d) req d")
    have "stream_over ended i (d'\<lparr>cn_resp500 := r\<rparr>) = stream_over ended i d'" by (simp add: stream_over_def)
    with True w write_response_over [OF assms(1) over w] show ?thesis by (simp add: write_500_def)
  next
    case False
    with over show ?thesis by (auto simp: write_500_def)
  qed
  have "stream_over ended i (set_fut f g c)" for g using assms(2) by (simp add: stream_over_def)
  moreover have "stream_over ended i (d\<lparr>cn_futures := fs\<rparr>) = stream_over ended i d" for d :: "'a parser conn" and fs
    by (simp add: stream_over_def)
  ultimately show ?thesis
    by (simp add: settle_def done_callback_def Let_def w500 split: option.split)
qed

interpretation over: loop_property "levin_protocol lib ht authority" "\<lambda>c. h2_ends lib ended \<longrightarrow> stream_over ended i c"
  for lib :: "'s h2_lib" and ht authority ended i
  by unfold_locales (simp_all add: settle_over, simp add: stream_over_def)

lemma stream_over_frame [simp]:
  "stream_over ended i (set_fut f g c) = stream_over ended i c"
  "stream_over ended i (conn_write data c) = stream_over ended i c"
  "stream_over ended i (schedule req c) = stream_over ended i c"
  by (simp_all add: stream_over_def conn_write_def schedule_def)

lemma stream_over_schedule_all [simp]:
  "stream_over ended i (foldl (\<lambda>d req. schedule req d) c reqs) = stream_over ended i c"
  by (induction reqs arbitrary: c) simp_all

lemma parse_over:
  assumes "h2_ends lib ended" and "stream_over ended i c"
    and "conn_parse (levin_protocol lib ht authority) data c = (res, c')"
  shows "stream_over ended i c'"
proof -
  obtain k hy where c: "cn_parser c = Some k" "k < length (cn_parsers c)" "cn_parsers c ! k = P_hyper hy" "ended i (hy_conn hy)"
    using assms(2) by (auto simp: stream_over_def)
  obtain y hy' where hy': "hyper_handle_request lib hy data = (y, hy')" by (cases "hyper_handle_request lib hy data")
  then have "ended i (hy_conn hy')" using request_ended [OF assms(1) c(4)] by (metis snd_conv)
  moreover have "cn_parser c' = Some k" "cn_parsers c' = (cn_parsers c)[k := P_hyper hy']"
    using assms(3) c hy' by (auto simp: conn_parse_def parser_request_def split: prod.split_asm)
  ultimately show ?thesis using c(2) by (simp add: stream_over_def)
qed

lemma received_over:
  assumes "h2_ends lib ended" and "stream_over ended i c"
    and "data_received (levin_protocol lib ht authority) data c = (e, c')"
  shows "stream_over ended i c'"
proof -
  obtain res c1 where parse: "conn_parse (levin_protocol lib ht authority) data c = (res, c1)"
    by (cases "conn_parse (levin_protocol lib ht authority) data c")
  have "stream_over ended i c1" using assms(1,2) parse by (rule parse_over)
  with assms(1,3) parse show ?thesis
    using over.P_conn_close [of lib ended i _ ht authority]
    by (auto simp: data_received_def Let_def split: sum.split_asm option.split_asm prod.split_asm if_split_asm)
qed

lemma returned_over:
  assumes "h2_ends lib ended" and "stream_over ended i c"
  shows "stream_over ended i (handler_returned (levin_protocol lib ht authority) f resp c)"
proof (cases "cn_table c f")
  case None
  with assms(2) show ?thesis by (simp add: handler_returned_def)
next
  case (Some fu)
  let ?pr = "levin_protocol lib ht authority" and ?over = "set_fut f (\<lambda>fu. fu\<lparr>fu_stage := Over\<rparr>) c"
  obtain e r c1 where w: "write_response ?pr resp (fu_request fu) ?over = (e, r, c1)"
    by (cases "write_response ?pr resp (fu_request fu) ?over")
  have "stream_over ended i c1" using assms(1) _ w by (rule write_response_over) (simp add: assms(2))
  moreover have "stream_over ended i (complete ?pr f st c1)" if "st \<noteq> Pending" for st
    using over.P_complete [OF that, of lib ended i c1 ht authority f] calculation assms(1) by blast
  ultimately show ?thesis
    using Some w by (auto simp: handler_returned_def split: option.split)
qed

lemma push_returned_over:
  assumes "h2_ends lib ended" and "stream_over ended i c"
  shows "stream_over ended i (push_returned (levin_protocol lib ht authority) f k resp c)"
proof -
  let ?pr = "levin_protocol lib ht authority"
  have complete: "stream_over ended i (complete ?pr f st d)" if "st \<noteq> Pending" "stream_over ended i d" for st d
    using over.P_complete [OF that(1), of lib ended i d ht authority f] that(2) assms(1) by blast
  have written: "stream_over ended i c1"
    if "write_response ?pr r req (set_fut f g c) = (e, r', c1)" for r req g e r' c1
    using assms(1) _ that by (rule write_response_over) (simp add: assms(2))
  show ?thesis
    using assms(2) by (auto simp: push_returned_def complete dest: written split: option.split stage.split prod.split)
qed

lemma step_over:
  assumes "h2_ends lib ended"
  shows "conn_step (levin_protocol lib ht authority) c c' \<Longrightarrow> stream_over ended i c \<Longrightarrow> stream_over ended i c'"
proof (induction rule: conn_step.induct)
  case (made c)
  then show ?case
    by (auto simp: stream_over_def connection_made_def parser_connect_def hyper_connect_def h2_ends_keeps [OF assms])
next
  case (received data c e c')
  with assms show ?case by (blast intro: received_over)
next
  case (lost c)
  with assms over.P_connection_lost [of lib ended i c ht authority] show ?case by blast
qed (use assms over.P_complete [of _ lib ended i _ ht authority] in
      \<open>simp_all add: returned_over push_returned_over handler_raised_def push_raised_def\<close>)

lemma steps_over:
  "(conn_step (levin_protocol lib ht authority))\<^sup>*\<^sup>* c c' \<Longrightarrow> h2_ends lib ended \<Longrightarrow> stream_over ended i c \<Longrightarrow> stream_over ended i c'"
  by (induction rule: rtranclp_induct) (auto intro: step_over)

lemma conn_close_out: "cn_out (conn_close pr c) = cn_out c"
proof -
  have "silent (cn_out c) (c\<lparr>cn_closing := True\<rparr>)" by (simp add: silent_def)
  then have "silent (cn_out c) (conn_close pr c)" unfolding conn_close_def by (rule silence.P_close_loop)
  then show ?thesis by (simp add: silent_def)
qed

lemma complete_done_out: "cn_out (complete pr f Done c) = cn_out c"
proof (cases "cn_table c f")
  case None
  then show ?thesis by (simp add: complete_def pending_def)
next
  case (Some fu)
  from settle_out [OF this, of pr Done] show ?thesis by (simp add: complete_def Let_def conn_close_out)
qed

text \<open>A push on a stream that is over writes nothing.\<close>

lemma late_push_out:
  fixes authority :: "request \<Rightarrow> pystr result"
  assumes "h2_ends lib ended" and "stream_over ended (rq_stream req) c"
    and "cn_table c f = Some fu" and "fu_stage fu = Pushing ps" and "map_of ps k = Some req"
    and "authority req = Inr auth"
    and "\<And>m hy. cn_parser c = Some m \<Longrightarrow> cn_parsers c ! m = P_hyper hy \<Longrightarrow> h2_next_id lib (hy_conn hy) \<in> range Inr"
  shows "cn_out (push_returned (levin_protocol lib ht authority) f k resp c) = cn_out c"
proof -
  let ?pr = "levin_protocol lib ht authority" and ?drop = "set_fut f (\<lambda>fu. fu\<lparr>fu_stage := drop_push k (fu_stage fu)\<rparr>) c"
  obtain n hy where c: "cn_parser c = Some n" "n < length (cn_parsers c)" "cn_parsers c ! n = P_hyper hy"
    "ended (rq_stream req) (hy_conn hy)"
    using assms(2) by (auto simp: stream_over_def)
  obtain j where "h2_next_id lib (hy_conn hy) = Inr j" using assms(7) [OF c(1,3)] by blast
  then have "\<exists>hy'. hyper_handle_response lib authority hy (resp\<lparr>rs_push := True\<rparr>) req =
      ((([], None), with_h2_length (resp\<lparr>rs_push := True\<rparr>)), hy')"
    using assms(1,6) c(4) by (intro push_refused [where ended = ended]) simp_all
  then obtain c1 where w: "write_response ?pr (resp\<lparr>rs_push := True\<rparr>) req ?drop =
      (None, with_h2_length (resp\<lparr>rs_push := True\<rparr>), c1)" and out: "cn_out c1 = cn_out c"
    using c(1-3) by (auto simp: write_response_def parser_response_def)
  then have "push_returned ?pr f k resp c = (if no_push_left c1 f then complete ?pr f Done c1 else c1)"
    using assms(3-5) by (simp add: push_returned_def)
  then show ?thesis using out by (simp add: complete_done_out)
qed

lemma accepted_push_over:
  fixes authority :: "request \<Rightarrow> pystr result"
  assumes "h2_ends lib ended"
    and "cn_parser c = Some n" and "n < length (cn_parsers c)" and "cn_parsers c ! n = P_hyper hy"
    and "cn_table c f = Some fu" and "fu_stage fu = Pushing ps" and "map_of ps k = Some req"
    and "authority req = Inr auth" and "h2_next_id lib (hy_conn hy) = Inr j"
    and "h2_push lib (rq_stream req) j (push_headers req auth) (hy_conn hy) = (None, s1)"
    and "h2_end lib (rq_stream req) s1 = (None, s2)"
  shows "stream_over ended (rq_stream req) (push_returned (levin_protocol lib ht authority) f k resp c)"
proof -
  let ?pr = "levin_protocol lib ht authority" and ?drop = "set_fut f (\<lambda>fu. fu\<lparr>fu_stage := drop_push k (fu_stage fu)\<rparr>) c"
  obtain y r' hy' where h: "hyper_handle_response lib authority hy (resp\<lparr>rs_push := True\<rparr>) req = ((y, r'), hy')"
    by (metis prod.exhaust)
  have "ended (rq_stream req) (hy_conn (snd (hyper_handle_response lib authority hy (resp\<lparr>rs_push := True\<rparr>) req)))"
    by (rule push_ends_stream [where ended = ended]) (use assms in simp_all)
  then have "ended (rq_stream req) (hy_conn hy')" using h by simp
  moreover obtain e c1 where w: "write_response ?pr (resp\<lparr>rs_push := True\<rparr>) req ?drop = (e, r', c1)"
    and "cn_parser c1 = Some n" "cn_parsers c1 = (cn_parsers c)[n := P_hyper hy']"
    using assms(2-4) h by (cases y) (simp add: write_response_def parser_response_def)
  ultimately have c1: "stream_over ended (rq_stream req) c1" using assms(3) by (simp add: stream_over_def)
  have "stream_over ended (rq_stream req) (complete ?pr f st c1)" if "st \<noteq> Pending" for st
    using over.P_complete [OF that, of lib ended "rq_stream req" c1 ht authority f] c1 assms(1) by blast
  with c1 w assms(5-7) show ?thesis by (auto simp: push_returned_def split: option.split)
qed

section \<open>Properties\<close>

text \<open>C27: At most one push of a request reaches the client: the first that the library accepts ends the
  stream of the request, and from then on, whatever happens on the connection, the response of another push
  on that stream is dropped without a byte being written, as long as the library has an identifier for it.\<close>

theorem one_push_per_request:
  fixes authority :: "request \<Rightarrow> pystr result"
  assumes "h2_ends lib ended"
    and "cn_parser c = Some n" and "n < length (cn_parsers c)" and "cn_parsers c ! n = P_hyper hy"
    and "cn_table c f = Some fu" and "fu_stage fu = Pushing ps" and "map_of ps k = Some req"
    and "authority req = Inr auth" and "h2_next_id lib (hy_conn hy) = Inr j"
    and "h2_push lib (rq_stream req) j (push_headers req auth) (hy_conn hy) = (None, s1)"
    and "h2_end lib (rq_stream req) s1 = (None, s2)"
    and "(conn_step (levin_protocol lib ht authority))\<^sup>*\<^sup>* (push_returned (levin_protocol lib ht authority) f k resp c) c'"
    and "cn_table c' g = Some fu'" and "fu_stage fu' = Pushing qs" and "map_of qs l = Some req'"
    and "rq_stream req' = rq_stream req" and "authority req' = Inr auth'"
    and "\<And>m hy. cn_parser c' = Some m \<Longrightarrow> cn_parsers c' ! m = P_hyper hy \<Longrightarrow> h2_next_id lib (hy_conn hy) \<in> range Inr"
  shows "cn_out (push_returned (levin_protocol lib ht authority) g l resp' c') = cn_out c'"
proof -
  have "stream_over ended (rq_stream req) (push_returned (levin_protocol lib ht authority) f k resp c)"
    using assms(1-11) by (rule accepted_push_over [where ended = ended])
  then have "stream_over ended (rq_stream req') c'"
    using steps_over [OF assms(12,1)] assms(16) by simp
  with assms(1,13-15,17,18) show ?thesis by (intro late_push_out [where ended = ended])
qed

text \<open>A library of which only the ended streams and the identifiers matter: a promise takes its identifier whether
  it is refused or not, and the identifiers run out.\<close>

record endings =
  en_ended :: "int list"
  en_next :: int

definition ending_lib :: "endings h2_lib" where
  "ending_lib =
     \<lparr>h2_initiate = (\<lambda>s. s), h2_receive = (\<lambda>data s. (Inl ProtocolError, s)), h2_to_send = (\<lambda>s. (''frames'', s)),
      h2_clear = (\<lambda>s. s), h2_upgrade = (\<lambda>settings s. (None, s)), h2_next_id = (\<lambda>s. if en_next s < 2 ^ 31 then Inr (en_next s) else Inl ProtocolError),
      h2_push = (\<lambda>i j hs s. (if i \<in> set (en_ended s) then Some ProtocolError else None, s\<lparr>en_next := en_next s + 2\<rparr>)),
      h2_end = (\<lambda>i s. (None, s\<lparr>en_ended := i # en_ended s\<rparr>)),
      h2_headers = (\<lambda>i hs s. (None, s)), h2_window = (\<lambda>i s. Inr 9), h2_frame_size = (\<lambda>s. 100),
      h2_data = (\<lambda>i d fin s. (None, s)), h2_push_enabled = (\<lambda>s. True)\<rparr>"

lemma ending_lib_ends: "h2_ends ending_lib (\<lambda>i s. i \<in> set (en_ended s))"
  by (simp add: h2_ends_def ending_lib_def protocol_error_def)

text \<open>A connection whose first request has two pushes.\<close>

definition pushed_request :: "bytes \<Rightarrow> request" where
  "pushed_request path = new_request path ''GET'' (Some []) [] ''HTTP/2'' 1 ''https''"

definition two_pushes :: "endings parser conn" where
  "two_pushes = (handle_connection \<lparr>en_ended = [], en_next = 2\<rparr> True response_500)
     \<lparr>cn_parser := Some 0, cn_futures := [0], cn_next := 1,
      cn_table := [0 \<mapsto> (begin_request (pushed_request ''/''))
        \<lparr>fu_stage := Pushing [(0, pushed_request ''/a''), (1, pushed_request ''/b'')]\<rparr>]\<rparr>"

abbreviation ending_protocol :: "endings parser protocol" where
  "ending_protocol \<equiv> levin_protocol ending_lib (\<lambda>_. two_chunks) (\<lambda>_. Inr [])"

theorem one_push_per_request_witness:
  "let resp = new_response 200 ''x'' None [] False;
      d = push_returned ending_protocol 0 0 resp two_pushes
    in cn_out d \<noteq> cn_out two_pushes \<and> cn_out (push_returned ending_protocol 0 1 resp d) = cn_out d"
proof -
  let ?resp = "new_response 200 ''x'' None [] False"
  let ?d = "push_returned ending_protocol 0 0 ?resp two_pushes"
  have d: "cn_out ?d = [''frames'']"
    "cn_table ?d 0 = Some ((begin_request (pushed_request ''/''))\<lparr>fu_stage := Pushing [(1, pushed_request ''/b'')]\<rparr>)"
    by (simp_all add: two_pushes_def push_returned_def handle_connection_def new_conn_def write_response_def
        default_parsers_def parser_response_def hyper_handle_response_def send_response_def ending_lib_def Let_def
        new_hyper_def new_response_def set_fut_def drop_push_def no_push_left_def pushed_request_def new_request_def)
  have left: "cn_parser ?d = Some 0" "cn_parsers ?d = [P_hyper (new_hyper \<lparr>en_ended = [1], en_next = 4\<rparr>), P_simple, P_tools]"
    by (simp_all add: two_pushes_def push_returned_def handle_connection_def new_conn_def write_response_def
        default_parsers_def parser_response_def hyper_handle_response_def send_response_def ending_lib_def Let_def
        new_hyper_def new_response_def set_fut_def drop_push_def no_push_left_def pushed_request_def new_request_def)
  have "cn_out (push_returned ending_protocol 0 1 ?resp ?d) = cn_out ?d"
  proof (rule one_push_per_request [OF ending_lib_ends, where c = two_pushes and n = 0 and hy = "new_hyper \<lparr>en_ended = [], en_next = 2\<rparr>" and f = 0 and k = 0
        and resp = ?resp and fu = "(begin_request (pushed_request ''/''))
          \<lparr>fu_stage := Pushing [(0, pushed_request ''/a''), (1, pushed_request ''/b'')]\<rparr>"
        and ps = "[(0, pushed_request ''/a''), (1, pushed_request ''/b'')]" and qs = "[(1, pushed_request ''/b'')]"
        and req = "pushed_request ''/a''" and auth = "[]" and j = 2 and ?s1.0 = "\<lparr>en_ended = [], en_next = 4\<rparr>" and ?s2.0 = "\<lparr>en_ended = [1], en_next = 4\<rparr>"
        and c' = ?d and g = 0 and l = 1 and req' = "pushed_request ''/b''" and auth' = "[]"])
    show "cn_table ?d 0 = Some ((begin_request (pushed_request ''/''))\<lparr>fu_stage := Pushing [(1, pushed_request ''/b'')]\<rparr>)"
      by (rule d(2))
    show "h2_next_id ending_lib (hy_conn hy) \<in> range Inr" if "cn_parser ?d = Some m" "cn_parsers ?d ! m = P_hyper hy" for m hy
      using that left by (auto simp: ending_lib_def new_hyper_def)
  qed (simp_all add: two_pushes_def handle_connection_def new_conn_def default_parsers_def ending_lib_def new_hyper_def
      pushed_request_def new_request_def)
  with d(1) show ?thesis by (simp add: Let_def two_pushes_def handle_connection_def new_conn_def)
qed

text \<open>C28: Without the client's consent to pushes, the stream of a response with pushes is still open when its
  request is over: the whole body is sent, but the last frame does not end the stream, because the parser
  leaves that to a push which is not made.\<close>

theorem refused_pushes_leave_stream_open:
  fixes lib :: "'s h2_lib" and ht :: httptools and authority :: "request \<Rightarrow> pystr result"
  assumes "h2_sends lib opn sent (rq_stream (fu_request fu))" and "\<not> rs_push resp" and "rs_pushes resp \<noteq> []"
    and "\<And>s. \<not> h2_push_enabled lib s"
    and "h2_headers lib (rq_stream (fu_request fu)) (status_headers (with_h2_length resp)) (hy_conn hy) = (None, s)"
    and "opn s" and "h2_window lib (rq_stream (fu_request fu)) s = Inr w" and "int (length (rs_body resp)) \<le> w"
    and "cn_parser c = Some 0" and "cn_parsers c = P_hyper hy # ps" and "cn_table c f = Some fu"
    and "pending c f" and "\<not> closes c f"
  shows "let d = handler_returned (levin_protocol lib ht authority) f resp c
    in cn_futures d = remove1 f (cn_futures c) \<and> \<not> pending d f \<and>
       (\<exists>hy' log. cn_parsers d = P_hyper hy' # ps \<and> sent (hy_conn hy') = sent s @ log \<and>
          concat (map fst log) = rs_body resp \<and> (\<forall>frame \<in> set log. \<not> snd frame) \<and> opn (hy_conn hy'))"
proof -
  let ?pr = "levin_protocol lib ht authority"
  let ?g = "\<lambda>fu. fu\<lparr>fu_stage := Over\<rparr>"
  let ?d = "handler_returned ?pr f resp c"
  obtain chunks hy' log where h: "hyper_handle_response lib authority hy resp (fu_request fu) =
      (((chunks, None), with_h2_length resp), hy')"
    "sent (hy_conn hy') = sent s @ log" "frames_of (rs_body resp) w (rs_pushes resp \<noteq> []) log"
    "opn (hy_conn hy') = (rs_pushes resp \<noteq> [] \<or> w < 1 \<or> w < int (length (rs_body resp)))"
    using hyper_response_frames [OF assms(1,2,5,6,7)] by blast
  define c1 where "c1 = (set_fut f ?g c)\<lparr>cn_out := cn_out c @ chunks, cn_parsers := P_hyper hy' # ps\<rparr>"
  have c1: "pending c1 f" "\<not> closes c1 f" "cn_table c1 f = Some (?g fu)" "cn_parser c1 = Some 0"
    "cn_futures c1 = cn_futures c" "cn_parsers c1 = P_hyper hy' # ps"
    using assms(9-13) by (auto simp: c1_def pending_def closes_def set_fut_def)
  have "write_response ?pr resp (fu_request fu) (set_fut f ?g c) = (None, with_h2_length resp, c1)"
    using assms(9,10) h(1) by (simp add: write_response_def parser_response_def c1_def)
  then have d: "?d = settle ?pr f Done c1"
    using assms(4,11) c1(4,6) complete_settle [OF c1(1,2)]
    by (simp add: handler_returned_def parser_push_support_def hyper_push_support_def)
  have "cn_parsers ?d = P_hyper hy' # ps"
    unfolding d using c1(3,6) by (simp add: settle_def done_callback_def Let_def set_fut_def)
  moreover have "cn_futures ?d = remove1 f (cn_futures c)" "\<not> pending ?d f"
    unfolding d using c1(3,5) by (simp_all add: settle_futures pending_settle)
  moreover have "concat (map fst log) = rs_body resp" using h(3) assms(8) by (simp add: frames_of_def)
  moreover have "map snd log = replicate (length log) False" using h(3) assms(3) by (simp add: frames_of_def)
  then have "\<forall>frame \<in> set log. \<not> snd frame" by (metis in_set_replicate in_set_conv_nth length_map nth_map nth_mem)
  ultimately show ?thesis using h(2,4) assms(3) by (auto simp: Let_def)
qed

definition refusing_lib :: "toy h2_lib" where
  "refusing_lib = toy_lib\<lparr>h2_push_enabled := (\<lambda>s. False)\<rparr>"

definition one_request_open :: "toy parser conn" where
  "one_request_open = (handle_connection \<lparr>ty_window = 9, ty_open = True, ty_sent = []\<rparr> True response_500)
     \<lparr>cn_parser := Some 0, cn_futures := [0], cn_next := 1, cn_table := [0 \<mapsto> begin_request (pushed_request ''/'')]\<rparr>"

theorem refused_pushes_leave_stream_open_witness:
  "let d = handler_returned (levin_protocol refusing_lib (\<lambda>_. two_chunks) (\<lambda>_. Inr [])) 0
        (new_response 200 ''hello'' None [\<lparr>pu_path = ''/a'', pu_method = ''GET''\<rparr>] False) one_request_open
    in cn_futures d = [] \<and> (\<exists>hy'. cn_parsers d = [P_hyper hy', P_simple, P_tools] \<and> ty_open (hy_conn hy'))"
proof -
  let ?resp = "new_response 200 ''hello'' None [\<lparr>pu_path = ''/a'', pu_method = ''GET''\<rparr>] False"
  let ?s = "\<lparr>ty_window = 9, ty_open = True, ty_sent = []\<rparr>"
  have "h2_sends refusing_lib ty_open ty_sent (rq_stream (fu_request (begin_request (pushed_request ''/''))))"
    using toy_sends by (simp add: refusing_lib_def h2_sends_def pushed_request_def new_request_def)
  from refused_pushes_leave_stream_open [OF this, of ?resp "new_hyper ?s" ?s 9 one_request_open "[P_simple, P_tools]" 0
      "\<lambda>_. two_chunks" "\<lambda>_. Inr []"]
  show ?thesis
    by (auto simp: Let_def new_response_def refusing_lib_def toy_lib_def new_hyper_def one_request_open_def handle_connection_def
        new_conn_def default_parsers_def pending_def closes_def begin_request_def)
qed

end
