(* ===== verification/Timing.thy ===== *)
theory Timing
  imports Limits
begin

text \<open>
  \<^verbatim>\<open>levin/components/limit.py\<close> as the event loop runs it: the task of the request, the task of the timer
  (\<open>_timeout_manager\<close>) and the middleware that awaits the first and in the end cancels the second, one
  turn of the loop after the other. \<open>time_limit_middleware\<close> of \<open>Limits\<close> is what the three amount to.
\<close>

section \<open>The component\<close>

text \<open>\<open>timeout\<close> and \<open>loop\<close> are the parameters; \<open>_loop\<close> exists from \<open>start\<close> on. Loops are told apart by
  a number.\<close>

record limit_component =
  tl_timeout :: nat
  tl_loop :: "nat option"
  tl_running :: "nat option"

definition limit_start :: "nat \<Rightarrow> limit_component \<Rightarrow> limit_component" where
  "limit_start current c = c\<lparr>tl_running := Some (case tl_loop c of Some l \<Rightarrow> l | None \<Rightarrow> current)\<rparr>"

section \<open>The tasks\<close>

text \<open>The task of the request has some turns to go, or has ended. The timer sleeps, has fired, or was
  cancelled while it slept; or it was made on another loop than the one that runs the request, and gets no turn
  of this one. (What a second loop in another thread would do to the task is not defined by \<open>asyncio\<close>, whose
  tasks belong to one thread; the other loop does not run.)\<close>

datatype work = Working nat | Ended "reply result \<times> request"

datatype timer = Sleeping nat | Fired | Stopped | Elsewhere

record limit_state =
  ls_work :: work
  ls_timer :: timer
  ls_outer :: "nat option"
  ls_reply :: "(reply result \<times> request) option"

text \<open>\<open>_timeout_manager\<close>: asleep, or about to cancel the task if that is not done.\<close>

definition timer_turn :: "task_run \<Rightarrow> limit_state \<Rightarrow> limit_state" where
  "timer_turn t s =
     (case ls_timer s of
        Sleeping 0 \<Rightarrow>
          s\<lparr>ls_timer := Fired,
            ls_work := (case ls_work s of Working n \<Rightarrow> Ended (tk_cancelled t) | Ended res \<Rightarrow> Ended res)\<rparr>
      | Sleeping (Suc n) \<Rightarrow> s\<lparr>ls_timer := Sleeping n\<rparr>
      | _ \<Rightarrow> s)"

text \<open>The task ends when nothing is left to do.\<close>

definition work_turn :: "task_run \<Rightarrow> limit_state \<Rightarrow> limit_state" where
  "work_turn t s =
     (case ls_work s of
        Working 0 \<Rightarrow> s\<lparr>ls_work := Ended (tk_natural t)\<rparr>
      | _ \<Rightarrow> s)"

text \<open>A cancellation of the coroutine that awaits the task is passed on to the task.\<close>

definition outer_turn :: "task_run \<Rightarrow> limit_state \<Rightarrow> limit_state" where
  "outer_turn t s =
     (case ls_outer s of
        Some 0 \<Rightarrow>
          s\<lparr>ls_outer := None,
            ls_work := (case ls_work s of Working n \<Rightarrow> Ended (tk_cancelled t) | Ended res \<Rightarrow> Ended res)\<rparr>
      | Some (Suc n) \<Rightarrow> s\<lparr>ls_outer := Some n\<rparr>
      | None \<Rightarrow> s)"

text \<open>The middleware: \<open>await task\<close> returns or raises when the task has ended; the \<open>finally\<close> cancels the
  timer, which matters only while that sleeps. Otherwise time passes.\<close>

definition caught :: "reply result \<times> request \<Rightarrow> reply result \<times> request" where
  "caught res =
     (case res of
        (Inl e, r) \<Rightarrow>
          if e = CancelledError then (Inr (R_response (new_response 500 ''Timeout'' None [] False)), r) else (Inl e, r)
      | (Inr rep, r) \<Rightarrow> (Inr rep, r))"

definition middleware_turn :: "limit_state \<Rightarrow> limit_state" where
  "middleware_turn s =
     (case ls_work s of
        Ended res \<Rightarrow>
          s\<lparr>ls_reply := Some (caught res), ls_timer := (case ls_timer s of Fired \<Rightarrow> Fired | _ \<Rightarrow> Stopped)\<rparr>
      | Working n \<Rightarrow> s\<lparr>ls_work := Working (n - 1)\<rparr>)"

definition limit_turn :: "task_run \<Rightarrow> limit_state \<Rightarrow> limit_state" where
  "limit_turn t s = middleware_turn (outer_turn t (timer_turn t (work_turn t s)))"

text \<open>The loop runs until the middleware has its reply; every turn brings the end of the task nearer.\<close>

definition to_go :: "limit_state \<Rightarrow> nat" where
  "to_go s = (if ls_reply s \<noteq> None then 0 else case ls_work s of Working n \<Rightarrow> Suc (Suc n) | Ended res \<Rightarrow> 1)"

lemma turn_nearer:
  assumes "ls_reply s = None"
  shows "to_go (limit_turn t s) < to_go s"
proof (cases "ls_work s")
  case (Ended res)
  with assms show ?thesis
    by (auto simp: to_go_def limit_turn_def middleware_turn_def outer_turn_def timer_turn_def work_turn_def
        split: timer.split option.split nat.split)
next
  case (Working n)
  with assms show ?thesis
    by (cases n) (auto simp: to_go_def limit_turn_def middleware_turn_def outer_turn_def timer_turn_def work_turn_def
        split: timer.split option.split nat.split)
qed

function limit_loop :: "task_run \<Rightarrow> limit_state \<Rightarrow> limit_state" where
  "limit_loop t s = (if ls_reply s \<noteq> None then s else limit_loop t (limit_turn t s))"
  by pat_completeness auto
termination
proof (relation "measure (\<lambda>(t, s). to_go s)", goal_cases)
  case (2 t s)
  then have "ls_reply s = None" by blast
  then show ?case by (simp add: turn_nearer)
qed simp

declare limit_loop.simps [simp del]

lemma loop_replied: "ls_reply s = Some x \<Longrightarrow> limit_loop t s = s"
  by (simp add: limit_loop.simps [of t s])

lemma loop_step: "ls_reply s = None \<Longrightarrow> limit_loop t s = limit_loop t (limit_turn t s)"
  by (simp add: limit_loop.simps [of t s])

text \<open>The middleware from its call on, on the loop \<open>current\<close>: the task is made on that loop, the timer on the loop
  of the component. Before \<open>start\<close> the timer cannot be made: \<open>self._loop\<close> is missing.\<close>

definition limit_call ::
  "nat \<Rightarrow> limit_component \<Rightarrow> nat option \<Rightarrow> task_run \<Rightarrow> request \<Rightarrow> (reply result \<times> request) \<times> timer" where
  "limit_call current c outer t r =
     (case tl_running c of
        None \<Rightarrow> ((Inl AttributeError, r), Stopped)
      | Some loop \<Rightarrow>
          (let s = limit_loop t
                 \<lparr>ls_work = Working (tk_duration t),
                  ls_timer = (if loop = current then Sleeping (tl_timeout c) else Elsewhere),
                  ls_outer = outer, ls_reply = None\<rparr>
           in (case ls_reply s of Some res \<Rightarrow> res | None \<Rightarrow> (Inl RuntimeError, r), ls_timer s)))"

section \<open>Lemmas\<close>

text \<open>Where the loop ends, from any number of turns before the end of the task. The timer has some turns left,
  or is on another loop.\<close>

definition cut_from :: "nat option \<Rightarrow> nat option \<Rightarrow> nat \<Rightarrow> bool" where
  "cut_from left outer n \<longleftrightarrow>
     (case left of None \<Rightarrow> False | Some k \<Rightarrow> k < n) \<or> (case outer of None \<Rightarrow> False | Some k \<Rightarrow> k < n)"

definition timer_with :: "nat option \<Rightarrow> timer" where
  "timer_with left = (case left of None \<Rightarrow> Elsewhere | Some k \<Rightarrow> Sleeping k)"

lemma limit_loop_ends:
  assumes "s = \<lparr>ls_work = Working n, ls_timer = timer_with left, ls_outer = outer, ls_reply = None\<rparr>"
  shows "ls_reply (limit_loop t s) = Some (caught (if cut_from left outer n then tk_cancelled t else tk_natural t)) \<and>
    ls_timer (limit_loop t s) \<in> {Fired, Stopped}"
  using assms
proof (induction n arbitrary: s left outer)
  case 0
  then have "ls_reply (limit_turn t s) = Some (caught (tk_natural t))" "ls_timer (limit_turn t s) \<in> {Fired, Stopped}"
    by (auto simp: limit_turn_def middleware_turn_def outer_turn_def timer_turn_def work_turn_def timer_with_def
        split: nat.split option.split)
  moreover have "limit_loop t s = limit_loop t (limit_turn t s)" using 0 by (intro loop_step) simp
  ultimately show ?case by (simp add: loop_replied cut_from_def split: option.split)
next
  case (Suc n)
  have step: "limit_loop t s = limit_loop t (limit_turn t s)" using Suc.prems by (intro loop_step) simp
  show ?case
  proof (cases "left = Some 0 \<or> outer = Some 0")
    case True
    then have "ls_work (limit_turn t s) = Ended (tk_cancelled t)" "ls_reply (limit_turn t s) = Some (caught (tk_cancelled t))"
      "ls_timer (limit_turn t s) \<in> {Fired, Stopped}" "cut_from left outer (Suc n)"
      using Suc.prems
      by (auto simp: limit_turn_def middleware_turn_def outer_turn_def timer_turn_def work_turn_def cut_from_def
          timer_with_def split: nat.split option.split)
    then show ?thesis unfolding step by (simp add: loop_replied)
  next
    case False
    let ?less = "map_option (\<lambda>k. k - 1)"
    let ?s = "\<lparr>ls_work = Working n, ls_timer = timer_with (?less left), ls_outer = ?less outer, ls_reply = None\<rparr>"
    have "limit_turn t s = ?s"
      using False Suc.prems
      by (auto simp: limit_turn_def middleware_turn_def outer_turn_def timer_turn_def work_turn_def timer_with_def
          split: nat.split option.split)
    moreover have "cut_from (?less left) (?less outer) n = cut_from left outer (Suc n)"
      using False by (auto simp: cut_from_def split: option.split)
    ultimately show ?thesis using Suc.IH [of ?s "?less left" "?less outer"] unfolding step by simp
  qed
qed

section \<open>Properties\<close>

text \<open>C19: The time limit, turn by turn, refines its specification: on a started component the three tasks
  reach the reply of \<open>time_limit_middleware\<close>, whatever the task and the moment of an outer cancellation;
  and they leave no timer behind that sleeps on, so no later task can be cancelled by it. A component that is
  configured with another loop than the one that serves the request has no time limit.\<close>

theorem time_limit_refines:
  "fst (limit_call loop (limit_start loop c) outer (call_next h r) r) =
     time_limit_middleware
       (if tl_loop c \<in> {None, Some loop} then tl_timeout c else max (tl_timeout c) (tk_duration (call_next h r)))
       outer call_next h r \<and>
   snd (limit_call loop (limit_start loop c) outer (call_next h r) r) \<in> {Fired, Stopped}"
proof -
  let ?t = "call_next h r" and ?here = "tl_loop c \<in> {None, Some loop}"
  let ?left = "if ?here then Some (tl_timeout c) else None"
  let ?s = "\<lparr>ls_work = Working (tk_duration ?t), ls_timer = timer_with ?left, ls_outer = outer, ls_reply = None\<rparr>"
  have "limit_call loop (limit_start loop c) outer ?t r =
      (case ls_reply (limit_loop ?t ?s) of Some res \<Rightarrow> res | None \<Rightarrow> (Inl RuntimeError, r), ls_timer (limit_loop ?t ?s))"
    by (auto simp: limit_call_def limit_start_def timer_with_def Let_def split: option.split)
  moreover have "caught (if cut_from ?left outer (tk_duration ?t) then tk_cancelled ?t else tk_natural ?t) =
      time_limit_middleware (if ?here then tl_timeout c else max (tl_timeout c) (tk_duration ?t)) outer call_next h r"
    by (simp add: caught_def time_limit_middleware_def cut_from_def cut_short_def Let_def)
  ultimately show ?thesis using limit_loop_ends [OF refl, of ?t] by simp
qed

end
