(* ===== verification/Logging.thy ===== *)
theory Logging
  imports Answers
begin

text \<open>
  \<^verbatim>\<open>levin/components/logger.py\<close>, \<open>init\<close>, \<open>start\<close> and \<open>stop\<close>: the logger of \<open>LoggerComponent\<close> over the life of
  an application, as a function of the application's log of hooks. Of the standard library it uses
  \<open>dictConfig\<close>, \<open>getLogger\<close> and \<open>info\<close>; the model has which configuration was last put in force, the name of
  the logger that the component holds, and the messages given to it.
\<close>

section \<open>The component's logger\<close>

definition str_dict :: "(bytes \<times> pyval) list \<Rightarrow> pyval" where
  "str_dict kvs = PDict (map (\<lambda>(k, v). (PStr (lit k), v)) kvs)"

text \<open>\<open>DEFAULT_CONFIG\<close>; \<open>__name__.split(".")[0]\<close> is the package.\<close>

definition DEFAULT_CONFIG :: pyval where
  "DEFAULT_CONFIG =
     str_dict
       [(''version'', PInt 1), (''disable_existing_loggers'', PBool True),
        (''formatters'', str_dict [(''default'', str_dict
           [(''format'', PStr (lit ''[%(asctime)s %(levelname)s] | %(name)s | %(message)s''))])]),
        (''handlers'', str_dict [(''stdout'', str_dict
           [(''level'', PStr (lit ''DEBUG'')), (''class'', PStr (lit ''logging.StreamHandler'')),
            (''formatter'', PStr (lit ''default''))])]),
        (''loggers'', str_dict [(''levin'', str_dict
           [(''handlers'', PList [PStr (lit ''stdout'')]), (''level'', PStr (lit ''INFO''))])])]"

text \<open>\<open>getattr(self, name)\<close> for a parameter: the instance's value or that of the class. The object
  \<open>DEFAULT_CONFIG\<close> of the class stands for its contents.\<close>

definition read_param :: "component \<Rightarrow> name \<Rightarrow> pyval" where
  "read_param c p =
     (case (case map_of (co_dict c) p of
              Some (Value v) \<Rightarrow> v
            | Some (BoundMethod m) \<Rightarrow> PObj ''method'' m
            | None \<Rightarrow> (case map_of (co_vars c) p of Some (AValue v) \<Rightarrow> v | _ \<Rightarrow> PNone)) of
        PObj k i \<Rightarrow> if k = ''DEFAULT_CONFIG'' then DEFAULT_CONFIG else PObj k i
      | v \<Rightarrow> v)"

record logging =
  lg_config :: "pyval option"
  lg_logger :: "pyval option"
  lg_lines :: "pystr list"

definition new_logging :: logging where
  "new_logging = \<lparr>lg_config = None, lg_logger = None, lg_lines = []\<rparr>"

definition logger_init :: "component \<Rightarrow> logging \<Rightarrow> logging" where
  "logger_init c s =
     (let config = read_param c ''logger_config'';
          s1 = (if truthy config then s\<lparr>lg_config := Some config\<rparr> else s)
      in s1\<lparr>lg_logger := Some (read_param c ''logger_name'')\<rparr>)"

definition logger_info :: "pystr \<Rightarrow> logging \<Rightarrow> exn option \<times> logging" where
  "logger_info message s =
     (case lg_logger s of
        None \<Rightarrow> (Some AttributeError, s)
      | Some l \<Rightarrow> (None, s\<lparr>lg_lines := lg_lines s @ [message]\<rparr>))"

definition logger_start :: "logging \<Rightarrow> exn option \<times> logging" where
  "logger_start = logger_info (lit ''Start server'')"

definition logger_stop :: "logging \<Rightarrow> exn option \<times> logging" where
  "logger_stop = logger_info (lit ''Server stop'')"

section \<open>Over the life of an application\<close>

text \<open>The hooks of component \<open>c\<close> in the log of an application. \<open>c\<close> is the component as it is when \<open>init\<close>
  runs; its parameters are read there and nowhere later.\<close>

fun logging_run :: "component \<Rightarrow> event list \<Rightarrow> logging \<Rightarrow> exn option \<times> logging" where
  "logging_run c [] s = (None, s)"
| "logging_run c (Init i # ev) s = logging_run c ev (if i = co_id c then logger_init c s else s)"
| "logging_run c (Start i # ev) s =
     (if i = co_id c
      then (case logger_start s of (Some e, s') \<Rightarrow> (Some e, s') | (None, s') \<Rightarrow> logging_run c ev s')
      else logging_run c ev s)"
| "logging_run c (Stop i # ev) s =
     (if i = co_id c
      then (case logger_stop s of (Some e, s') \<Rightarrow> (Some e, s') | (None, s') \<Rightarrow> logging_run c ev s')
      else logging_run c ev s)"

text \<open>The messages that the log calls for.\<close>

fun messages :: "nat \<Rightarrow> event list \<Rightarrow> pystr list" where
  "messages i [] = []"
| "messages i (Init j # ev) = messages i ev"
| "messages i (Start j # ev) = (if j = i then [lit ''Start server''] else []) @ messages i ev"
| "messages i (Stop j # ev) = (if j = i then [lit ''Server stop''] else []) @ messages i ev"

lemma logging_ordered:
  assumes "ordered_log ready ev" and "co_id c \<in> ready \<Longrightarrow> lg_logger s \<noteq> None"
  shows "fst (logging_run c ev s) = None \<and> lg_lines (snd (logging_run c ev s)) = lg_lines s @ messages (co_id c) ev"
  using assms
proof (induction ev arbitrary: ready s)
  case Nil
  then show ?case by simp
next
  case (Cons x ev)
  have said: "co_id c \<in> ready \<Longrightarrow> logger_info m s = (None, s\<lparr>lg_lines := lg_lines s @ [m]\<rparr>)" for m
    using Cons.prems(2) by (auto simp: logger_info_def split: option.split)
  show ?case
  proof (cases x)
    case (Init i)
    let ?s = "if i = co_id c then logger_init c s else s"
    have "lg_lines ?s = lg_lines s" by (simp add: logger_init_def Let_def)
    moreover have "lg_logger ?s \<noteq> None" if "co_id c \<in> insert i ready"
      using that Cons.prems(2) by (auto simp: logger_init_def Let_def)
    ultimately show ?thesis using Cons.IH [of "insert i ready" ?s] Cons.prems(1) Init by simp
  next
    case (Start i)
    with Cons.prems said Cons.IH [of ready s] Cons.IH [of ready "s\<lparr>lg_lines := lg_lines s @ [lit ''Start server'']\<rparr>"]
    show ?thesis by (cases "i = co_id c") (simp_all add: logger_start_def del: lit_simps)
  next
    case (Stop i)
    with Cons.prems said Cons.IH [of ready s] Cons.IH [of ready "s\<lparr>lg_lines := lg_lines s @ [lit ''Server stop'']\<rparr>"]
    show ?thesis by (cases "i = co_id c") (simp_all add: logger_stop_def del: lit_simps)
  qed
qed

section \<open>Properties\<close>

text \<open>The logger is there whenever a hook needs it, over every sequence of operations on an application:
  \<open>start\<close> and \<open>stop\<close> of the component never fail, and every start and every stop is logged, in order.\<close>

theorem logger_never_fails:
  assumes "app_reachable app"
  shows "fst (logging_run c (ap_log app) new_logging) = None \<and>
    lg_lines (snd (logging_run c (ap_log app) new_logging)) = messages (co_id c) (ap_log app)"
proof -
  have "ordered_log {} (ap_log app)" using app_reachable_inv [OF assms] by (simp add: app_inv_def)
  then show ?thesis using logging_ordered [of "{}" "ap_log app" c new_logging] by (simp add: new_logging_def)
qed

theorem logger_never_fails_witness:
  "fst (logging_run logger_component (ap_log (snd (new_app (\<lambda>_. None) [logger_component] (0 :: nat)))) new_logging) = None"
proof -
  have "app_reachable (snd (new_app (\<lambda>_. None) [logger_component] (0 :: nat)))"
    unfolding new_app_def init_components.simps
    by (rule app_reachable.step [OF app_reachable.new], rule app_step.add [where init = "\<lambda>_. None" and fresh = 0
        and arg = "AComponent logger_component" and position = None and e = None])
      (simp add: add_component_def to_component_def)
  from logger_never_fails [OF this] show ?thesis by simp
qed

text \<open>Configuring the logger comes too late: an application initialises its components when it is made, so
  that a configured name or configuration is set on the component, while the logger keeps the default one.\<close>

definition logger_settings :: "pystr \<Rightarrow> pyval \<Rightarrow> (name \<times> (name \<times> inst_value) list) list" where
  "logger_settings n config =
     [(''logger'', [(''logger_name'', Value (PStr n)), (''logger_config'', Value config)])]"

lemma logger_settings_started:
  "ap_components (snd (app_start (\<lambda>_. None) (snd (app_configure (logger_settings n config) (fresh_app h))))) =
     map (configured (logger_settings n config)) default_components"
  "ap_log (snd (app_start (\<lambda>_. None) (snd (app_configure (logger_settings n config) (fresh_app h))))) =
     map (\<lambda>c. Init (co_id c)) default_components @ map (\<lambda>c. Start (co_id c)) default_components"
proof -
  let ?cs = "map (configured (logger_settings n config)) default_components"
  have conf: "app_configure (logger_settings n config) (fresh_app h) = (None, (fresh_app h)\<lparr>ap_components := ?cs\<rparr>)"
    by (subst app_configure_all [OF fresh_app_distinct])
      (simp_all add: fresh_app_def logger_settings_def default_component_simps)
  have enabled: "list_all co_enabled ?cs"
    by (simp add: default_component_simps configured_def logger_settings_def configure_def set_from_def set_attr_def
        skip_param_def attr_is_method_def co_enabled_def)
  have fails: "list_all (\<lambda>c. \<not> start_fails (\<lambda>_. None) c) ?cs"
    by (auto simp: list_all_iff start_fails_def component_start_def)
  have ids: "map (\<lambda>c. Start (co_id c)) ?cs = map (\<lambda>c. Start (co_id c)) default_components"
    by simp
  have none: "filter (refused (\<lambda>_. None)) ?cs = []" "filter co_enabled ?cs = ?cs"
    using enabled by (simp_all only: filter_empty_conv filter_id_conv) (auto simp: list_all_iff refused_def component_start_def)
  show "ap_components (snd (app_start (\<lambda>_. None) (snd (app_configure (logger_settings n config) (fresh_app h))))) = ?cs"
    "ap_log (snd (app_start (\<lambda>_. None) (snd (app_configure (logger_settings n config) (fresh_app h))))) =
     map (\<lambda>c. Init (co_id c)) default_components @ map (\<lambda>c. Start (co_id c)) default_components"
    unfolding conf app_start_def by (simp_all add: start_loop_ok [OF fails] fresh_app_def create_handler_def none
        start_events_def ids remove_all_def del: map_map)
qed

theorem logger_configured_too_late:
  assumes "app = snd (app_start (\<lambda>_. None) (snd (app_configure (logger_settings n config) (fresh_app h))))"
  shows "map_option (\<lambda>c. (map_of (co_dict c) ''logger_name'', map_of (co_dict c) ''logger_config'')) (get_component ''logger'' app) =
      Some (Some (Value (PStr n)), Some (Value config)) \<and>
    logging_run logger_component (ap_log app) new_logging =
      (None, \<lparr>lg_config = Some DEFAULT_CONFIG, lg_logger = Some (PStr (lit ''levin.components.logger'')),
              lg_lines = [lit ''Start server'']\<rparr>)"
proof
  show "map_option (\<lambda>c. (map_of (co_dict c) ''logger_name'', map_of (co_dict c) ''logger_config'')) (get_component ''logger'' app) =
      Some (Some (Value (PStr n)), Some (Value config))"
    unfolding assms get_component_def logger_settings_started
    by (simp add: default_component_simps configured_def logger_settings_def configure_def set_from_def set_attr_def
        skip_param_def attr_is_method_def)
  have "truthy DEFAULT_CONFIG" by (simp add: DEFAULT_CONFIG_def str_dict_def)
  moreover have "read_param logger_component ''logger_config'' = DEFAULT_CONFIG"
    "read_param logger_component ''logger_name'' = PStr (lit ''levin.components.logger'')"
    by (simp_all add: read_param_def default_component_simps)
  moreover have "co_id logger_component = 3" by (simp add: default_component_simps)
  moreover have "map (\<lambda>c. Init (co_id c)) default_components @ map (\<lambda>c. Start (co_id c)) default_components =
      map Init [1..<16] @ map Start [1..<16]"
    by (simp add: default_component_simps upt_rec)
  ultimately show "logging_run logger_component (ap_log app) new_logging =
      (None, \<lparr>lg_config = Some DEFAULT_CONFIG, lg_logger = Some (PStr (lit ''levin.components.logger'')),
              lg_lines = [lit ''Start server'']\<rparr>)"
    unfolding assms logger_settings_started
    by (simp add: upt_rec logger_init_def logger_start_def logger_info_def new_logging_def Let_def del: lit_simps)
qed

end
