(* ===== verification/Hooks.thy ===== *)
theory Hooks
  imports Application
begin

text \<open>
  \<^verbatim>\<open>call_or_await\<close> (\<^verbatim>\<open>levin/core/app.py\<close>) and the hooks that it calls: \<open>start\<close> and \<open>stop\<close> of a component may be
  functions or coroutine functions. The hooks of a \<open>MiddlewareComponent\<close> (\<^verbatim>\<open>levin/core/component.py\<close>) are
  called by its own \<open>start\<close> and \<open>stop\<close>, which are functions and drop what the call gives.
\<close>

section \<open>Calls\<close>

text \<open>What a call gives: a value, or a coroutine with what it will give when it is awaited. The body of a
  coroutine does not run before that.\<close>

datatype 'a called = Gives 'a | Coroutine "'a result"

definition call_or_await :: "'a called result \<Rightarrow> 'a result" where
  "call_or_await call =
     (case call of
        Inl e \<Rightarrow> Inl e
      | Inr (Gives v) \<Rightarrow> Inr v
      | Inr (Coroutine res) \<Rightarrow> res)"

text \<open>\<open>MiddlewareComponent.start\<close> and \<open>stop\<close>; \<open>None\<close> is an attribute that is not callable.\<close>

definition middleware_hook :: "unit called result option \<Rightarrow> unit called result" where
  "middleware_hook attr =
     (case attr of
        None \<Rightarrow> Inr (Gives ())
      | Some (Inl e) \<Rightarrow> Inl e
      | Some (Inr given) \<Rightarrow> Inr (Gives ()))"

text \<open>The hooks as \<open>Application.start\<close> and \<open>stop\<close> see them: the exception that the call or the coroutine
  raises.\<close>

definition hook_of :: "(component \<Rightarrow> unit called result) \<Rightarrow> component \<Rightarrow> exn option" where
  "hook_of method c = (case call_or_await (method c) of Inl e \<Rightarrow> Some e | Inr u \<Rightarrow> None)"

definition start_all :: "(component \<Rightarrow> unit called result) \<Rightarrow> 'h app \<Rightarrow> exn option \<times> 'h app" where
  "start_all method app = app_start (hook_of method) app"

section \<open>Properties\<close>

text \<open>A \<open>start\<close> that is a coroutine function is awaited, and what it raises counts as if a function had
  raised it; a coroutine function given as \<open>on_start\<close> of a middleware is never awaited, and nothing that it
  would raise is seen: a component cannot disable itself or fail there.\<close>

theorem hooks_awaited:
  "(\<And>c. call_or_await (f c) = call_or_await (g c)) \<Longrightarrow> start_all f app = start_all g app"
  "(\<And>c. f c = middleware_hook (attr c)) \<Longrightarrow> (\<And>c e. attr c \<noteq> Some (Inl e)) \<Longrightarrow>
    start_all f app = start_all (\<lambda>c. Inr (Gives ())) app"
proof -
  show "start_all f app = start_all g app" if "\<And>c. call_or_await (f c) = call_or_await (g c)"
    using that by (simp add: start_all_def hook_of_def [abs_def])
  have "hook_of f = hook_of (\<lambda>c. Inr (Gives ()))"
    if "\<And>c. f c = middleware_hook (attr c)" "\<And>c e. attr c \<noteq> Some (Inl e)"
  proof (rule ext)
    fix c
    show "hook_of f c = hook_of (\<lambda>c. Inr (Gives ())) c"
      using that(2) [of c]
      by (auto simp: hook_of_def that(1) middleware_hook_def call_or_await_def split: option.split sum.split)
  qed
  then show "start_all f app = start_all (\<lambda>c. Inr (Gives ())) app"
    if "\<And>c. f c = middleware_hook (attr c)" "\<And>c e. attr c \<noteq> Some (Inl e)"
    using that by (simp add: start_all_def)
qed

text \<open>So with coroutine functions as \<open>on_start\<close>, whatever they would raise, every enabled component starts
  and the application gets its handler.\<close>

theorem coroutine_on_start_ignored:
  assumes "\<not> ap_started app" and "\<And>c. method c = middleware_hook (Some (Inr (Coroutine (outcome c))))"
  shows "fst (start_all method app) = None \<and>
    ap_components (snd (start_all method app)) = filter co_enabled (ap_components app)"
proof -
  have hook: "hook_of method = (\<lambda>_. None)"
    by (rule ext) (simp add: hook_of_def assms(2) middleware_hook_def call_or_await_def)
  have "list_all (\<lambda>c. \<not> start_fails (\<lambda>_. None) c) (ap_components app)" "refused (\<lambda>_. None) = (\<lambda>c. \<not> co_enabled c)"
    by (auto simp: list_all_iff start_fails_def component_start_def refused_def)
  with assms(1) show ?thesis
    by (simp add: start_all_def hook app_start_def start_loop_ok remove_all_filter create_handler_def)
qed

theorem coroutine_on_start_ignored_witness:
  "let app = \<lparr>ap_components = [plain_component 1 True, plain_component 2 False], ap_default = 0 :: nat, ap_handler = None,
       ap_started = False, ap_log = []\<rparr>;
     method = (\<lambda>c. middleware_hook (Some (Inr (Coroutine (Inl ValueError)))))
   in ap_components (snd (start_all method app)) = filter co_enabled [plain_component 1 True, plain_component 2 False]"
  using coroutine_on_start_ignored [of "\<lparr>ap_components = [plain_component 1 True, plain_component 2 False],
      ap_default = 0 :: nat, ap_handler = None, ap_started = False, ap_log = []\<rparr>"
      "\<lambda>c. middleware_hook (Some (Inr (Coroutine (Inl ValueError))))" "\<lambda>c. Inl ValueError"]
  by (simp add: Let_def)

end
