(* ===== verification/Listening.thy ===== *)
theory Listening
  imports Server
begin

text \<open>
  \<^verbatim>\<open>levin/core/server.py\<close>, \<open>Server.__init__\<close> and \<open>create_ssl_context\<close>: the TLS context of a server, and what it
  means for its connections, whose transports carry it as the extra information \<open>sslcontext\<close>. The
  \<open>ssl\<close> module is the standard library's: the model keeps the settings that are made, and \<open>load\<close> is what
  loading the certificate raises.
\<close>

section \<open>The context\<close>

record tls_context =
  tls_options :: "bytes set"
  tls_chain :: "pystr \<times> pystr"
  tls_alpn :: "bytes list"

definition create_ssl_context ::
  "bytes set \<Rightarrow> (pystr \<Rightarrow> pystr \<Rightarrow> exn option) \<Rightarrow> pystr \<Rightarrow> pystr \<Rightarrow> tls_context result" where
  "create_ssl_context preset load certfile keyfile =
     (case load certfile keyfile of
        Some e \<Rightarrow> Inl e
      | None \<Rightarrow>
          Inr \<lparr>tls_options = preset \<union> {''OP_NO_TLSv1'', ''OP_NO_TLSv1_1'', ''OP_NO_COMPRESSION''},
               tls_chain = (certfile, keyfile), tls_alpn = [''h2'']\<rparr>)"

text \<open>\<open>Server(app, host, port, ssl=ssl)\<close>: the server and its context.\<close>

definition new_server ::
  "bytes set \<Rightarrow> (pystr \<Rightarrow> pystr \<Rightarrow> exn option) \<Rightarrow> 'a \<Rightarrow> pystr \<Rightarrow> 'v \<Rightarrow> (pystr \<times> pystr) option \<Rightarrow>
   (('a, 'v) server \<times> tls_context option) result" where
  "new_server preset load app host port ssl =
     (let sv = \<lparr>sv_app = app, sv_host = host, sv_port = port, sv_ssl = ssl\<rparr>
      in case ssl of
           None \<Rightarrow> Inr (sv, None)
         | Some (certfile, keyfile) \<Rightarrow>
             map_sum id (\<lambda>ctx. (sv, Some ctx)) (create_ssl_context preset load certfile keyfile))"

text \<open>\<open>loop\<close>: the given loop or the running one; without either, \<open>get_running_loop\<close> raises.\<close>

definition server_loop :: "nat option \<Rightarrow> nat option \<Rightarrow> nat result" where
  "server_loop given running =
     (case given of
        Some l \<Rightarrow> Inr l
      | None \<Rightarrow> (case running of None \<Rightarrow> Inl RuntimeError | Some l \<Rightarrow> Inr l))"

text \<open>A connection of the server: it is made in the server's loop, and its transport is secured exactly if
  the server has a context.\<close>

definition server_connection ::
  "nat option \<Rightarrow> nat option \<Rightarrow> ('a, 'v) server \<times> tls_context option \<Rightarrow> 's \<Rightarrow> response \<Rightarrow> 's parser conn result" where
  "server_connection given running sv s0 resp500 =
     map_sum id (\<lambda>l. handle_connection s0 (snd sv \<noteq> None) resp500) (server_loop given running)"

section \<open>Properties\<close>

lemma connection_scheme: "conn_scheme (handle_connection s0 ssl resp500) = (if ssl then ''https'' else ''http'')"
  by (simp add: conn_scheme_def handle_connection_def new_conn_def)

text \<open>The scheme never changes over the life of a connection.\<close>

lemma received_ssl: "data_received pr data c = (e, c') \<Longrightarrow> cn_ssl c' = cn_ssl c"
proof -
  assume received: "data_received pr data c = (e, c')"
  obtain res c1 where parse: "conn_parse pr data c = (res, c1)" by (cases "conn_parse pr data c")
  then have c1: "cn_ssl c1 = cn_ssl c" by (auto simp: conn_parse_def split: option.splits prod.splits)
  have sched: "cn_ssl (foldl (\<lambda>d req. schedule req d) d reqs) = cn_ssl d" for d reqs
    by (induction reqs arbitrary: d) (simp_all add: schedule_def)
  have close: "cn_ssl (conn_close pr d) = cn_ssl d" for d
  proof -
    have "same_frame d (conn_close pr d)" by (rule frame.P_conn_close) (rule same_frame_refl)
    then show ?thesis by (simp add: same_frame_def)
  qed
  from received parse c1 show ?thesis
    by (auto simp: data_received_def Let_def sched close conn_write_def split: sum.splits option.splits if_splits)
qed

lemma frame_ssl: "same_frame c c' \<Longrightarrow> cn_ssl c' = cn_ssl c"
  by (simp add: same_frame_def)

lemma complete_ssl [simp]: "st \<noteq> Pending \<Longrightarrow> cn_ssl (complete pr f st c) = cn_ssl c"
  by (rule frame_ssl) (rule frame.P_complete, simp_all)

lemma write_response_ssl: "write_response pr resp req c = (e, resp', c') \<Longrightarrow> cn_ssl c' = cn_ssl c"
  by (auto simp: write_response_def split: option.splits prod.splits)

lemma step_ssl: "conn_step pr c c' \<Longrightarrow> cn_ssl c' = cn_ssl c"
proof (induction rule: conn_step.induct)
  case (received data c e c')
  then show ?case by (rule received_ssl)
next
  case (lost c)
  show ?case by (rule frame_ssl) (rule frame.P_connection_lost, rule same_frame_refl)
qed (auto simp: connection_made_def handler_returned_def handler_raised_def push_returned_def push_raised_def
    split: option.splits prod.splits stage.splits dest: write_response_ssl)

lemma steps_ssl: "(conn_step pr)\<^sup>*\<^sup>* c c' \<Longrightarrow> cn_ssl c' = cn_ssl c"
  by (induction rule: rtranclp_induct) (auto dest: step_ssl)

text \<open>C40: Every request that a push starts carries the scheme of the server that its connection belongs to,
  at any time in the life of the connection: \<open>https\<close> exactly if the server was given a certificate.\<close>

theorem pushes_keep_scheme:
  assumes "new_server preset load app host port ssl = Inr sv"
    and "server_connection given running sv s0 resp500 = Inr c"
    and "(conn_step pr)\<^sup>*\<^sup>* c c'"
  shows "rq_scheme (push_request c' req push) = (if ssl = None then ''http'' else ''https'')"
proof -
  have "snd sv = None \<longleftrightarrow> ssl = None"
    using assms(1) by (auto simp: new_server_def Let_def create_ssl_context_def split: option.splits)
  moreover have "c = handle_connection s0 (snd sv \<noteq> None) resp500"
    using assms(2) by (auto simp: server_connection_def server_loop_def split: option.splits)
  ultimately have "cn_ssl c' = (ssl \<noteq> None)"
    using steps_ssl [OF assms(3)] by (simp add: handle_connection_def new_conn_def)
  then show ?thesis by (simp add: push_request_def conn_scheme_def new_request_def rq_set_def)
qed

theorem pushes_keep_scheme_witness:
  "let pr = levin_protocol toy_lib (\<lambda>_. two_chunks) (\<lambda>_. Inr []);
       c = handle_connection \<lparr>ty_window = 3, ty_open = True, ty_sent = []\<rparr> True response_500
   in rq_scheme (push_request (connection_lost pr (connection_made pr c)) (new_request ''/a'' ''GET'' None [] ''HTTP/2'' 1 ''https'')
        \<lparr>pu_path = ''/b'', pu_method = ''GET''\<rparr>) = ''https''"
proof -
  let ?pr = "levin_protocol toy_lib (\<lambda>_. two_chunks) (\<lambda>_. Inr [])"
  let ?c = "handle_connection \<lparr>ty_window = 3, ty_open = True, ty_sent = []\<rparr> True response_500"
  let ?load = "\<lambda>_ _. None :: exn option"
  let ?ctx = "\<lparr>tls_options = {} \<union> {''OP_NO_TLSv1'', ''OP_NO_TLSv1_1'', ''OP_NO_COMPRESSION''},
      tls_chain = ([99], [107]), tls_alpn = [''h2'']\<rparr>"
  have made: "new_server {} ?load () [] (443 :: nat) (Some ([99], [107])) =
      Inr (\<lparr>sv_app = (), sv_host = [], sv_port = 443, sv_ssl = Some ([99], [107])\<rparr>, Some ?ctx)"
    by (simp add: new_server_def create_ssl_context_def)
  have conn: "server_connection None (Some 0)
      (\<lparr>sv_app = (), sv_host = [], sv_port = (443 :: nat), sv_ssl = Some ([99], [107])\<rparr>, Some ?ctx)
      \<lparr>ty_window = 3, ty_open = True, ty_sent = []\<rparr> response_500 = Inr ?c"
    by (simp add: server_connection_def server_loop_def)
  have run: "(conn_step ?pr)\<^sup>*\<^sup>* ?c (connection_lost ?pr (connection_made ?pr ?c))"
    by (rule converse_rtranclp_into_rtranclp, rule conn_step.made, rule r_into_rtranclp, rule conn_step.lost)
  show ?thesis
    unfolding Let_def using pushes_keep_scheme [OF made conn run] by simp
qed

end
