(* ===== verification/Demo.thy ===== *)
theory Demo
  imports Answers
begin

text \<open>
  \<^verbatim>\<open>run.py\<close>: the demonstration application, with its configuration (\<open>run_config\<close> of \<open>Defaults\<close>), its
  routes in the order of the file and its handlers. Its JSON function is that of a third party
  (\<^verbatim>\<open>ujson\<close>), so it is a parameter. What the handlers wait for is left out: how long a request takes is
  part of the facts of a run.
\<close>

section \<open>Handlers\<close>

datatype demo_handler =
    H_root | H_userp | H_user | H_qwert | H_user_template | H_user_template2 | H_user_template3
  | H_post_root | H_del_root | H_not_found

definition demo_coroutine :: "demo_handler \<Rightarrow> bool" where
  "demo_coroutine h \<longleftrightarrow> h = H_root \<or> h = H_user"

definition request_param :: param where
  "request_param = \<lparr>pm_name = ''request'', pm_inject = None, pm_default = False\<rparr>"

fun demo_params :: "demo_handler \<Rightarrow> param list" where
  "demo_params H_root = []"
| "demo_params H_user = [\<lparr>pm_name = ''user'', pm_inject = Inject ''user'', pm_default = False\<rparr>]"
| "demo_params H_post_root = [request_param, \<lparr>pm_name = ''process'', pm_inject = None, pm_default = True\<rparr>]"
| "demo_params _ = [request_param]"

definition one_item :: "bytes \<Rightarrow> pyval \<Rightarrow> pyval" where
  "one_item key v = PDict [(PStr (lit key), v)]"

definition root_value :: pyval where
  "root_value = one_item ''status'' (PList (map (\<lambda>i. PInt (int i)) [0..<100000]))"

text \<open>\<open>d.get(key, fallback)\<close>\<close>

fun dict_get :: "pyval \<Rightarrow> pyval \<Rightarrow> pyval \<Rightarrow> pyval result" where
  "dict_get (PDict d) key fallback = Inr (case map_of d key of None \<Rightarrow> fallback | Some v \<Rightarrow> v)"
| "dict_get _ key fallback = Inl AttributeError"

definition userp_body :: "lazy_call \<Rightarrow> request \<Rightarrow> reply result \<times> request" where
  "userp_body call r =
     (case rq_getattr call ''query_params'' r of
        (Inl e, r') \<Rightarrow> (Inl e, r')
      | (Inr params, r') \<Rightarrow>
          (map_sum id (\<lambda>v. R_value (one_item ''status'' v)) (dict_get params (PStr (lit ''str'')) PNone), r'))"

definition user_body ::
  "(pystr \<Rightarrow> kwargs \<Rightarrow> pystr result) \<Rightarrow> demo_handler router \<Rightarrow> pyval \<Rightarrow> reply result" where
  "user_body format rt user =
     map_sum id (\<lambda>url. R_value (PDict [(PStr (lit ''status''), user), (PStr (lit ''url''), PStr url)]))
       (router_url format rt (lit ''user'') [(lit ''user'', lit ''test'')])"

definition qwert_body :: "lazy_call \<Rightarrow> request \<Rightarrow> reply result \<times> request" where
  "qwert_body call r =
     (case rq_getattr call ''query_params'' r of
        (Inl e, r') \<Rightarrow> (Inl e, r')
      | (Inr params, r') \<Rightarrow> (Inr (R_value (one_item ''status'' params)), r'))"

definition user_template_body :: "lazy_call \<Rightarrow> request \<Rightarrow> reply result \<times> request" where
  "user_template_body call r =
     (case rq_get call ''user'' PNone r of
        (res, r') \<Rightarrow> (map_sum id (\<lambda>v. R_value (one_item ''user'' v)) res, r'))"

text \<open>The two handlers that use the component \<open>templates\<close> of the application.\<close>

definition user_template2_body :: "'h app \<Rightarrow> lazy_call \<Rightarrow> request \<Rightarrow> reply result \<times> request" where
  "user_template2_body app call r =
     (case app_getattr ''templates'' app of
        Inl e \<Rightarrow> (Inl e, r)
      | Inr c \<Rightarrow>
          (case rq_get call ''user'' PNone r of
             (res, r') \<Rightarrow>
               (map_sum id (\<lambda>v. R_template (lit ''index.html'') [(PStr (lit ''status''), v)]) res, r')))"

definition user_template3_body ::
  "template_config \<Rightarrow> templates \<Rightarrow> 'h app \<Rightarrow> lazy_call \<Rightarrow> request \<Rightarrow> reply result \<times> request" where
  "user_template3_body cfg ts app call r =
     (case app_getattr ''templates'' app of
        Inl e \<Rightarrow> (Inl e, r)
      | Inr c \<Rightarrow>
          (case rq_get call ''user'' PNone r of
             (Inl e, r') \<Rightarrow> (Inl e, r')
           | (Inr v, r') \<Rightarrow>
               (map_sum id (\<lambda>b. R_value (PBytes b))
                  (render cfg ts (PStr (lit ''index.html'')) [(PStr (lit ''user''), v)] None), r')))"

definition twenty_value :: pyval where
  "twenty_value = one_item ''status'' (PStr (lit ''20''))"

section \<open>Routes\<close>

text \<open>\<open>condition\<close> and the lambda of the first route: both answer \<open>True\<close> to every call.\<close>

definition condition_fn :: pyval where
  "condition_fn = PObj ''condition'' 0"

definition condition_lambda :: pyval where
  "condition_lambda = PObj ''lambda'' 0"

type_synonym decorator = "demo_handler router \<Rightarrow> demo_handler router result"

definition add_root :: "(bytes \<Rightarrow> compiled result) \<Rightarrow> decorator" where
  "add_root ext = router_get ext (PatText (TStr (lit ''/-/'')))
     [(''name'', PStr (lit ''root'')), (''profile_condition'', condition_lambda), (''status'', PInt 201),
      (''push'', PStr (lit ''/q/''))] H_root"

definition add_userp :: "(bytes \<Rightarrow> compiled result) \<Rightarrow> decorator" where
  "add_userp ext = router_get ext (PatText (TStr (lit ''/new/{user}/p''))) [(''process'', PBool True)] H_userp"

definition add_user :: "(bytes \<Rightarrow> compiled result) \<Rightarrow> decorator" where
  "add_user ext = router_get ext (PatText (TStr (lit ''/new/{user}/'')))
     [(''profile_condition'', condition_fn), (''name'', PStr (lit ''user''))] H_user"

definition add_qwert :: "(bytes \<Rightarrow> compiled result) \<Rightarrow> decorator" where
  "add_qwert ext = router_get ext (PatText (TStr (lit ''/q/''))) [] H_qwert"

definition add_user_template :: "(bytes \<Rightarrow> compiled result) \<Rightarrow> decorator" where
  "add_user_template ext = router_get ext (PatText (TStr (lit ''/template/{user}/'')))
     [(''template'', PStr (lit ''index.html''))] H_user_template"

definition add_user_template2 :: "(bytes \<Rightarrow> compiled result) \<Rightarrow> decorator" where
  "add_user_template2 ext = router_get ext (PatText (TBytes ''/template/{user}/2'')) [] H_user_template2"

definition add_user_template3 :: "(bytes \<Rightarrow> compiled result) \<Rightarrow> decorator" where
  "add_user_template3 ext = router_get ext (PatText (TBytes ''/template/{user}/3'')) [] H_user_template3"

definition add_post_root :: "(bytes \<Rightarrow> compiled result) \<Rightarrow> decorator" where
  "add_post_root ext = router_post ext (PatText (TBytes ''/-/'')) [] H_post_root"

definition add_del_root :: "(bytes \<Rightarrow> compiled result) \<Rightarrow> decorator" where
  "add_del_root ext = router_delete ext (PatText (TBytes ''/-/'')) [(''process'', PBool True)] H_del_root"

text \<open>The decorators run in the order of the file, on the table of a new application.\<close>

fun decorate_all :: "decorator list \<Rightarrow> decorator" where
  "decorate_all [] rt = Inr rt"
| "decorate_all (d # ds) rt = (case d rt of Inl e \<Rightarrow> Inl e | Inr rt' \<Rightarrow> decorate_all ds rt')"

definition demo_routes :: "(bytes \<Rightarrow> compiled result) \<Rightarrow> demo_handler router result" where
  "demo_routes ext =
     decorate_all
       [add_root ext, add_userp ext, add_user ext, add_qwert ext, add_user_template ext,
        add_user_template2 ext, add_user_template3 ext, add_post_root ext, add_del_root ext]
       (new_router H_not_found)"

section \<open>The table\<close>

definition userp_path :: "seg list" where
  "userp_path = map Lit ''/new/'' @ [Arg ''user''] @ map Lit ''/p''"

definition user_path :: "seg list" where
  "user_path = map Lit ''/new/'' @ [Arg ''user''] @ map Lit ''/''"

definition template_path :: "bytes \<Rightarrow> seg list" where
  "template_path rest = map Lit ''/template/'' @ [Arg ''user''] @ map Lit (CHR ''/'' # rest)"

lemma no_args [simp]: "args (map Lit s) = []"
  by (induction s) simp_all

lemma literal_ok: "list_all (\<lambda>c. seg_ok (Lit c)) s \<Longrightarrow> list_all seg_ok (map Lit s)"
  by (simp add: list_all_iff)

lemma demo_paths_ok:
  "pattern_ok userp_path" "separated userp_path" "pattern_ok user_path" "separated user_path"
  "list_all (\<lambda>c. seg_ok (Lit c)) rest \<Longrightarrow> pattern_ok (template_path rest)"
  by (simp_all add: userp_path_def user_path_def template_path_def pattern_ok_def is_meta_def is_identifier_def
      is_alnum_def name_char_def literal_ok)

definition demo_table :: "demo_handler router" where
  "demo_table =
     \<lparr>rt_routes =
        [(EqualsCondition ''GET'' ''/-/''
            [(''name'', PStr (lit ''root'')), (''profile_condition'', condition_lambda), (''status'', PInt 201),
             (''push'', PStr (lit ''/q/''))], H_root),
         (path_condition ''GET'' userp_path [(''process'', PBool True)], H_userp),
         (path_condition ''GET'' user_path
            [(''profile_condition'', condition_fn), (''name'', PStr (lit ''user''))], H_user),
         (EqualsCondition ''GET'' ''/q/'' [], H_qwert),
         (path_condition ''GET'' (template_path []) [(''template'', PStr (lit ''index.html''))], H_user_template),
         (path_condition ''GET'' (template_path ''2'') [], H_user_template2),
         (path_condition ''GET'' (template_path ''3'') [], H_user_template3),
         (EqualsCondition ''POST'' ''/-/'' [], H_post_root),
         (EqualsCondition ''DELETE'' ''/-/'' [(''process'', PBool True)], H_del_root)],
      rt_not_found = H_not_found\<rparr>"

lemma text_bytes: "ascii s \<Longrightarrow> to_bytes (TStr (lit s)) = Inr s"
  by simp

lemma methods:
  "to_bytes (TStr (lit ''GET'')) = Inr ''GET''" "to_bytes (TStr (lit ''POST'')) = Inr ''POST''"
  "to_bytes (TStr (lit ''DELETE'')) = Inr ''DELETE''"
  by (rule text_bytes, simp add: ascii_def)+

lemma add_path:
  assumes "pattern_ok ts" and "args ts \<noteq> []" and "to_bytes pt = Inr (pattern_text ts)"
  shows "router_get ext (PatText pt) meta h rt = Inr (append_route rt (path_condition ''GET'' ts meta) h)"
  using brace_in_text [OF assms(2)] regexp_condition_text [OF assms(1)] assms(3)
  by (simp add: router_get_def router_add_def methods del: to_bytes.simps lit_simps)

lemma add_plain:
  assumes "to_bytes pt = Inr p" and "CHR ''{'' \<notin> set p"
  shows "router_get ext (PatText pt) meta h rt = Inr (append_route rt (EqualsCondition ''GET'' p meta) h)"
    "router_post ext (PatText pt) meta h rt = Inr (append_route rt (EqualsCondition ''POST'' p meta) h)"
    "router_delete ext (PatText pt) meta h rt = Inr (append_route rt (EqualsCondition ''DELETE'' p meta) h)"
  using assms by (simp_all add: router_get_def router_post_def router_delete_def router_add_def methods del: to_bytes.simps lit_simps)

lemma demo_texts:
  "pattern_text userp_path = ''/new/{user}/p''" "pattern_text user_path = ''/new/{user}/''"
  "pattern_text (template_path []) = ''/template/{user}/''"
  "pattern_text (template_path ''2'') = ''/template/{user}/2''"
  "pattern_text (template_path ''3'') = ''/template/{user}/3''"
  by (simp_all add: userp_path_def user_path_def template_path_def)

lemma demo_args: "args userp_path \<noteq> []" "args user_path \<noteq> []" "args (template_path rest) \<noteq> []"
  by (simp_all add: userp_path_def user_path_def template_path_def)

lemma ok_rest: "list_all (\<lambda>c. seg_ok (Lit c)) []" "list_all (\<lambda>c. seg_ok (Lit c)) ''2''" "list_all (\<lambda>c. seg_ok (Lit c)) ''3''"
  by (simp_all add: is_meta_def)

lemma demo_bytes: "to_bytes (TStr (lit ''/-/'')) = Inr ''/-/''" "to_bytes (TStr (lit ''/q/'')) = Inr ''/q/''"
  by (rule text_bytes, simp add: ascii_def)+

lemma plain_brace: "(CHR ''{'' \<in> set ''/-/'') = False" "(CHR ''{'' \<in> set ''/q/'') = False"
  by simp_all

lemma demo_sources:
  "to_bytes (TStr (lit ''/new/{user}/p'')) = Inr (pattern_text userp_path)"
  "to_bytes (TStr (lit ''/new/{user}/'')) = Inr (pattern_text user_path)"
  "to_bytes (TStr (lit ''/template/{user}/'')) = Inr (pattern_text (template_path []))"
  "to_bytes (TBytes ''/template/{user}/2'') = Inr (pattern_text (template_path ''2''))"
  "to_bytes (TBytes ''/template/{user}/3'') = Inr (pattern_text (template_path ''3''))"
  unfolding demo_texts by (rule text_bytes, simp add: ascii_def)+ (rule to_bytes.simps)+

lemma decorators:
  "add_root ext rt = Inr (append_route rt (EqualsCondition ''GET'' ''/-/''
     [(''name'', PStr (lit ''root'')), (''profile_condition'', condition_lambda), (''status'', PInt 201),
      (''push'', PStr (lit ''/q/''))]) H_root)"
  "add_userp ext rt = Inr (append_route rt (path_condition ''GET'' userp_path [(''process'', PBool True)]) H_userp)"
  "add_user ext rt = Inr (append_route rt (path_condition ''GET'' user_path
     [(''profile_condition'', condition_fn), (''name'', PStr (lit ''user''))]) H_user)"
  "add_qwert ext rt = Inr (append_route rt (EqualsCondition ''GET'' ''/q/'' []) H_qwert)"
  "add_user_template ext rt = Inr (append_route rt (path_condition ''GET'' (template_path [])
     [(''template'', PStr (lit ''index.html''))]) H_user_template)"
  "add_user_template2 ext rt = Inr (append_route rt (path_condition ''GET'' (template_path ''2'') []) H_user_template2)"
  "add_user_template3 ext rt = Inr (append_route rt (path_condition ''GET'' (template_path ''3'') []) H_user_template3)"
  "add_post_root ext rt = Inr (append_route rt (EqualsCondition ''POST'' ''/-/'' []) H_post_root)"
  "add_del_root ext rt = Inr (append_route rt (EqualsCondition ''DELETE'' ''/-/'' [(''process'', PBool True)]) H_del_root)"
  by (simp_all only: add_root_def add_userp_def add_user_def add_qwert_def add_user_template_def add_user_template2_def
      add_user_template3_def add_post_root_def add_del_root_def demo_bytes [THEN add_plain(1)] plain_brace
      add_plain(2,3) [OF to_bytes.simps(1)] not_False_eq_True
      add_path [OF demo_paths_ok(1) demo_args(1) demo_sources(1)] add_path [OF demo_paths_ok(3) demo_args(2) demo_sources(2)]
      add_path [OF demo_paths_ok(5) [OF ok_rest(1)] demo_args(3) demo_sources(3)]
      add_path [OF demo_paths_ok(5) [OF ok_rest(2)] demo_args(3) demo_sources(4)]
      add_path [OF demo_paths_ok(5) [OF ok_rest(3)] demo_args(3) demo_sources(5)])

lemma demo_routes_table: "demo_routes ext = Inr demo_table"
  by (simp add: demo_routes_def decorators demo_table_def append_route_def new_router_def del: lit_simps)

end
