(* ===== verification/Demo_App.thy ===== *)
theory Demo_App
  imports Demo
begin

text \<open>
  \<^verbatim>\<open>run.py\<close>, continued: the chain of the demonstration application. The configuration disables the
  pushes and the templates, so the chain is shorter than the default one, and two of the handlers ask for a
  component that is gone. The profile condition of a route of \<^verbatim>\<open>run.py\<close> answers \<open>True\<close>, so every request
  for it has the next one of the same target profiled.
\<close>

section \<open>The application\<close>

definition demo_components :: "component list" where
  "demo_components = ap_components (snd (run_py H_not_found))"

definition demo_state :: "demo_handler app" where
  "demo_state = snd (run_py H_not_found)"

text \<open>The handlers, called with what their parameters are bound to.\<close>

definition user_value :: "(name \<times> call_arg) list \<Rightarrow> pyval" where
  "user_value env = (case map_of env ''user'' of Some (A_value v) \<Rightarrow> v | _ \<Rightarrow> PObj ''request'' 0)"

fun demo_body ::
  "lazy_call \<Rightarrow> (pystr \<Rightarrow> kwargs \<Rightarrow> pystr result) \<Rightarrow> template_config \<Rightarrow> templates \<Rightarrow> demo_handler \<Rightarrow>
   (name \<times> call_arg) list \<Rightarrow> request \<Rightarrow> reply result \<times> request" where
  "demo_body call fmt cfg ts H_root env r = (Inr (R_value root_value), r)"
| "demo_body call fmt cfg ts H_userp env r = userp_body call r"
| "demo_body call fmt cfg ts H_user env r = (user_body fmt demo_table (user_value env), r)"
| "demo_body call fmt cfg ts H_qwert env r = qwert_body call r"
| "demo_body call fmt cfg ts H_user_template env r = user_template_body call r"
| "demo_body call fmt cfg ts H_user_template2 env r = user_template2_body demo_state call r"
| "demo_body call fmt cfg ts H_user_template3 env r = user_template3_body cfg ts demo_state call r"
| "demo_body call fmt cfg ts H_post_root env r = (Inr (R_value twenty_value), r)"
| "demo_body call fmt cfg ts H_del_root env r = (Inr (R_value twenty_value), r)"
| "demo_body call fmt cfg ts H_not_found env r = (Inr (R_response (not_found_handler r)), r)"

text \<open>What the environment of the application gives: the lazy attributes, \<open>str.format\<close> outside the model,
  \<open>ujson.dumps\<close>, the traceback that \<open>ErrorHandle\<close> formats, and the templates.\<close>

record demo_env =
  de_call :: lazy_call
  de_format :: "pystr \<Rightarrow> kwargs \<Rightarrow> pystr result"
  de_dumps :: "pyval \<Rightarrow> pystr result"
  de_traceback :: "exn \<Rightarrow> bytes"
  de_template :: template_config
  de_templates :: templates
  de_str :: "attr \<Rightarrow> pystr"

text \<open>\<open>json_format\<close> is configured with \<open>default=None\<close>, so \<open>json_dumps\<close> gets the value alone.\<close>

definition demo_setup :: "demo_env \<Rightarrow> demo_handler app_setup" where
  "demo_setup de =
     \<lparr>su_call = de_call de, su_router = demo_table, su_is_coro = demo_coroutine, su_params = demo_params,
      su_body = demo_body (de_call de) (de_format de) (de_template de) (de_templates de),
      su_on_error = (\<lambda>r e. map_prod (map_sum id R_response) id (default_on_error (de_traceback de) r e)),
      su_timeout = 10,
      su_json = \<lparr>jc_dumps = (\<lambda>d. de_dumps de), jc_default = False, jc_content_type = ''application/json'',
                 jc_types = is_container\<rparr>,
      su_template = de_template de, su_templates = de_templates de, su_format = de_format de, su_str = de_str de\<rparr>"

text \<open>The answers of the profile conditions: those of \<^verbatim>\<open>run.py\<close>, and \<open>_default_profile_condition\<close>, which
  compares the time with the threshold.\<close>

definition default_profile_condition :: "nat \<Rightarrow> nat \<Rightarrow> bool" where
  "default_profile_condition time_spend threshold \<longleftrightarrow> threshold < time_spend"

definition demo_slow :: "nat \<Rightarrow> nat \<Rightarrow> pyval \<Rightarrow> bool result" where
  "demo_slow time_spend threshold v =
     (if v = condition_fn \<or> v = condition_lambda then Inr True
      else if v = default_condition then Inr (default_profile_condition time_spend threshold)
      else Inl TypeError)"

definition demo_app ::
  "demo_env \<Rightarrow> run_facts \<Rightarrow> demo_handler runner handler_chain" where
  "demo_app de rf = app_call (demo_setup de) rf demo_components"

section \<open>The chain\<close>

lemma component_names:
  "co_name patch_component = ''patch_request''" "co_name push_component = ''push''"
  "co_name logger_component = ''logger''" "co_name error_component = ''error_handle''"
  "co_name timeout_component = ''handler_timeout''" "co_name route_component = ''route''"
  "co_name (executor_component i n vars) = n" "co_name profile_component = ''profile''"
  "co_name json_component = ''json_format''" "co_name text_component = ''text_format''"
  "co_name template_component = ''templates''" "co_name inject_component = ''injector''"
  "co_name request_component = ''add_request''" "co_name cli_component_default = ''cli''"
  by (simp_all add: default_component_simps)

lemma configured_enabled:
  "co_enabled (configured run_config patch_component)" "\<not> co_enabled (configured run_config push_component)"
  "co_enabled (configured run_config logger_component)" "co_enabled (configured run_config error_component)"
  "co_enabled (configured run_config timeout_component)" "co_enabled (configured run_config route_component)"
  "co_enabled (configured run_config (executor_component 7 ''process_executor'' run_process_vars))"
  "co_enabled (configured run_config profile_component)"
  "co_enabled (configured run_config (executor_component 9 ''sync_to_async'' sync_to_async_vars))"
  "co_enabled (configured run_config json_component)" "co_enabled (configured run_config text_component)"
  "\<not> co_enabled (configured run_config template_component)" "co_enabled (configured run_config inject_component)"
  "co_enabled (configured run_config request_component)" "co_enabled (configured run_config cli_component_default)"
  by (simp_all add: default_component_simps configured_def run_config_def configure_def set_from_def set_attr_def
      skip_param_def attr_is_method_def co_enabled_def run_process_vars_def sync_to_async_vars_def)

lemma set_from_middleware [simp]: "co_middleware (set_from kw p c) = co_middleware c"
  by (simp add: set_from_def set_attr_def split: option.split)

lemma configure_middleware [simp]: "co_middleware (configured configs c) = co_middleware c"
proof -
  have "co_middleware (configure_vars kw vars c) = co_middleware c" for kw vars and c :: component
    by (induction kw vars c rule: configure_vars.induct) simp_all
  then show ?thesis by (simp add: configured_def configure_def split: option.split)
qed

lemma component_middlewares:
  "co_middleware patch_component \<noteq> None" "co_middleware logger_component \<noteq> None"
  "co_middleware error_component \<noteq> None" "co_middleware timeout_component \<noteq> None"
  "co_middleware route_component \<noteq> None" "co_middleware (executor_component i n vars) \<noteq> None"
  "co_middleware profile_component \<noteq> None" "co_middleware json_component \<noteq> None"
  "co_middleware text_component \<noteq> None" "co_middleware inject_component \<noteq> None"
  "co_middleware request_component \<noteq> None" "co_middleware cli_component_default = None"
  by (simp_all add: default_component_simps)

lemma demo_chain:
  "create_chain demo_components =
     (let c = configured run_config
      in Layer (c patch_component) (Layer (c logger_component) (Layer (c error_component)
        (Layer (c timeout_component) (Layer (c route_component)
          (Layer (c (executor_component 7 ''process_executor'' run_process_vars)) (Layer (c profile_component)
            (Layer (c (executor_component 9 ''sync_to_async'' sync_to_async_vars)) (Layer (c json_component)
              (Layer (c text_component) (Layer (c inject_component) (Layer (c request_component) CallNext))))))))))))"
  unfolding demo_components_def run_py_components
  by (simp add: default_components_def configured_enabled component_names component_middlewares Let_def)

text \<open>\<open>setattr\<close> changes what a middleware is given, not which one it is.\<close>

lemma configured_same_middleware: "default_middleware su rf (configured configs c) = default_middleware su rf c"
  by (rule ext) (simp add: default_middleware_def)

definition demo_formatters :: "'h app_setup \<Rightarrow> 'h runner handler_chain \<Rightarrow> 'h runner handler_chain" where
  "demo_formatters su call_next =
     json_middleware (su_json su) (su_call su) (text_middleware ''text/html'' (su_call su) call_next)"

abbreviation demo_inner :: "'h app_setup \<Rightarrow> run_facts \<Rightarrow> 'h runner handler_chain" where
  "demo_inner su rf \<equiv> executors su rf (demo_formatters su (run_handler (su_call su) (su_params su) (su_body su)))"

definition demo_timed :: "'h app_setup \<Rightarrow> run_facts \<Rightarrow> 'h handler_chain" where
  "demo_timed su rf =
     time_limit_middleware (su_timeout su) (rf_outer rf)
       (\<lambda>h r. \<lparr>tk_duration = rf_duration rf,
               tk_natural = router_middleware (su_call su) 0 (su_router su) (\<lambda>handler. demo_inner su rf (Plain_handler handler)) r,
               tk_cancelled = rf_cancelled rf r\<rparr>)"

lemma demo_app_eq:
  "demo_app de rf h =
     patch_middleware (logger_middleware (de_call de) 0
       (error_middleware (su_on_error (demo_setup de)) (demo_timed (demo_setup de) rf))) k"
proof -
  have "su_call (demo_setup de) = de_call de" by (simp add: demo_setup_def)
  then show ?thesis
    unfolding demo_app_def app_call_def demo_chain Let_def run_chain.simps configured_same_middleware default_middlewares
      demo_timed_def executors_def demo_formatters_def run_handler_def
    by (simp only: ) (intro outer_components_pass time_limit_passes refl)
qed

section \<open>From the request to the handler\<close>

text \<open>A request as a connection hands it over: its scope has the transport information only.\<close>

definition served_request :: "request \<Rightarrow> bool" where
  "served_request r \<longleftrightarrow>
     rq_scope r = [(''get_transport_info'', Lazy F_get_transport_info)] \<and>
     (CHR ''?'' \<in> set (rq_raw_path r) \<longrightarrow> plain_target (rq_raw_path r)) \<and>
     ascii (rq_method r) \<and> ascii (rq_raw_path r) \<and> ascii (rq_protocol r)"

definition demo_entered :: "request \<Rightarrow> request" where
  "demo_entered r = rq_set ''logger'' (Plain (PObj ''logger'' 0)) False (put_all rq_set patch_attrs r)"

lemma demo_entered_all:
  "demo_entered r = put_all rq_set (patch_attrs @ [(''logger'', Plain (PObj ''logger'' 0))]) r"
  by (simp add: demo_entered_def put_all_def patch_attrs_def)

definition demo_scope :: "meta \<Rightarrow> (name \<times> attr) list" where
  "demo_scope data =
     (''get_transport_info'', Lazy F_get_transport_info) # patch_attrs @
     [(''logger'', Plain (PObj ''logger'' 0)), (''get_url'', Plain (PObj ''url'' 0)),
      (''get_route'', Plain (PObj ''_resolve'' 0))] @ map (\<lambda>(k, v). (k, Plain v)) data"

definition demo_routed :: "request \<Rightarrow> meta \<Rightarrow> request \<Rightarrow> bool" where
  "demo_routed r data r' \<longleftrightarrow>
     rq_method r' = rq_method r \<and> rq_raw_path r' = rq_raw_path r \<and> rq_protocol r' = rq_protocol r \<and>
     (\<forall>k. k \<noteq> ''path'' \<longrightarrow> look_scope r' k = map_of (demo_scope data) k)"

lemma map_of_Plain: "map_of (map (\<lambda>(k, v). (k, Plain v)) data) k = map_option Plain (map_of data k)"
  by (induction data) auto

lemma demo_to_handler:
  assumes "usual_calls su n cfg other info" and "served_request r"
    and "table_answer (su_router su) (rq_method r) (target r) = (h, data)"
  shows "\<exists>r'. router_middleware (su_call su) 0 (su_router su) call_next (demo_entered r) = call_next h r' \<and>
    demo_routed r data r'"
proof -
  obtain ext where calls: "su_call su = patch_call (Suc n) cfg other" "pc_parse_url cfg = url_parse ext"
      "\<And>q. pc_parse_query cfg q \<in> range Inr"
    using assms(1) by (auto simp: usual_calls_def)
  have scope: "look_scope (demo_entered r) k = map_of ((''get_transport_info'', Lazy F_get_transport_info) #
      patch_attrs @ [(''logger'', Plain (PObj ''logger'' 0))]) k" for k
    unfolding demo_entered_all scope.look_put_all using assms(2) by (simp add: served_request_def look_scope_def)
  have start: "look_scope (demo_entered r) ''path'' = Some (Lazy F_path)" "look_scope (demo_entered r) ''query_params'' \<noteq> None"
    by (simp_all add: scope patch_attrs_def)
  have query: "CHR ''?'' \<in> set (rq_raw_path (demo_entered r)) \<Longrightarrow> plain_target (rq_raw_path (demo_entered r))"
    using assms(2) by (simp add: served_request_def demo_entered_def)
  have answer: "table_answer (su_router su) (rq_method (demo_entered r)) (target (demo_entered r)) = (h, data)"
    using assms(3) by (simp add: demo_entered_def)
  from routed_request [OF start query calls(2,3) answer, of n other 0 call_next]
  obtain r' where "router_middleware (su_call su) 0 (su_router su) call_next (demo_entered r) = call_next h r'"
    and frame: "rq_method r' = rq_method r" "rq_raw_path r' = rq_raw_path r" "rq_protocol r' = rq_protocol r"
    and look: "\<And>k. k \<noteq> ''path'' \<Longrightarrow> look_scope r' k =
      (case look_scope (demo_entered r) k of Some a \<Rightarrow> Some a
       | None \<Rightarrow> map_of ([(''get_url'', Plain (PObj ''url'' 0)), (''get_route'', Plain (PObj ''_resolve'' 0))] @
                         map (\<lambda>(k, v). (k, Plain v)) data) k)"
    by (auto simp: calls(1) demo_entered_def)
  moreover have "demo_routed r data r'"
    unfolding demo_routed_def demo_scope_def using frame
    by (simp add: look scope map_add_def split: option.split)
  ultimately show ?thesis by blast
qed

text \<open>The executors with a profile condition that may answer \<open>True\<close>.\<close>

definition where_run :: "('h \<Rightarrow> bool) \<Rightarrow> 'h \<Rightarrow> 'h runner" where
  "where_run is_coro h = (if is_coro h then Plain_handler h else In_pool ThreadPool (Plain_handler h))"

lemma plain_attribute:
  "k \<notin> set request_slots \<Longrightarrow> look_scope r k = Some (Plain v) \<Longrightarrow> v \<noteq> EMPTY \<Longrightarrow> rq_getattr call k r = (Inr v, r)"
  by (simp add: rq_getattr_def rq_get_plain)

lemma executors_unprofiled:
  assumes "look_scope r ''process'' = None" and "\<not> rf_profiled rf"
    and "call_next (where_run (su_is_coro su) h) r = (res, r)"
    and "look_scope r ''profile_condition'' = map_option Plain v"
    and "rf_slow rf (case v of None \<Rightarrow> default_condition | Some w \<Rightarrow> w) = Inr b"
    and "look_scope r ''logger'' = Some (Plain (PObj ''logger'' i))"
  shows "executors su rf call_next (Plain_handler h) r = (res, r)"
proof -
  have process: "rq_get (su_call su) ''process'' (PBool False) r = (Inr (PBool False), r)"
    using assms(1) by (rule rq_get_missing)
  have sync: "sync_to_async (su_is_coro su) (su_call su) call_next (Plain_handler h) r = (res, r)"
    using assms(3) process
    by (simp add: sync_to_async_def executor_middleware_def sync_condition_def where_run_def split: if_split_asm)
  have logger: "rq_getattr (su_call su) ''logger'' r = (Inr (PObj ''logger'' i), r)"
    using assms(6) by (rule plain_attribute [rotated]) (simp_all add: request_slots_def EMPTY_def)
  have "profile_middleware (su_call su) False (rf_slow rf) Profiled
      (sync_to_async (su_is_coro su) (su_call su) call_next) (Plain_handler h) r = (res, r)"
    using rq_get_settled [OF assms(4), of "su_call su" default_condition] assms(5) sync logger
    by (cases b) (simp_all add: profile_middleware_def)
  then show ?thesis
    using assms(2) process by (simp add: executors_def run_process_def executor_middleware_def process_condition_def)
qed

text \<open>The way back: a response goes out, an exception becomes the error page.\<close>

definition error_page :: "demo_env \<Rightarrow> exn \<Rightarrow> reply" where
  "error_page de e = R_response (new_response 500 (de_traceback de e) None [] False)"

lemma demo_setup_simps:
  "su_call (demo_setup de) = de_call de" "su_router (demo_setup de) = demo_table"
  "su_is_coro (demo_setup de) = demo_coroutine" "su_params (demo_setup de) = demo_params"
  "su_body (demo_setup de) = demo_body (de_call de) (de_format de) (de_template de) (de_templates de)"
  "su_timeout (demo_setup de) = 10"
  "su_json (demo_setup de) = \<lparr>jc_dumps = (\<lambda>d. de_dumps de), jc_default = False,
     jc_content_type = ''application/json'', jc_types = is_container\<rparr>"
  "su_on_error (demo_setup de) r e = (Inr (error_page de e), r)"
  by (simp_all add: demo_setup_def error_page_def default_on_error_def)

lemma demo_answers:
  assumes "usual_calls (demo_setup de) n cfg other info" and "served_request r"
    and "table_answer demo_table (rq_method r) (target r) = (h, data)"
    and "rf_duration rf \<le> 10" and "rf_outer rf = None"
    and inner: "\<And>r'. demo_routed r data r' \<Longrightarrow> demo_inner (demo_setup de) rf (Plain_handler h) r' = (res, r')"
    and "res \<noteq> Inl CancelledError" and "(case res of Inl e \<Rightarrow> error_page de e | Inr rep \<Rightarrow> rep) = R_response resp"
  shows "fst (demo_app de rf h0 r) = Inr (R_response resp)"
proof -
  let ?su = "demo_setup de" and ?call = "de_call de"
  obtain r' where routed: "router_middleware (su_call ?su) 0 (su_router ?su)
      (\<lambda>handler. demo_inner ?su rf (Plain_handler handler)) (demo_entered r) = demo_inner ?su rf (Plain_handler h) r'"
    and state: "demo_routed r data r'"
    using demo_to_handler [OF assms(1,2)] assms(3) by (fastforce simp: demo_setup_simps)
  have "demo_timed ?su rf H_not_found (demo_entered r) = (res, r')"
    using assms(4,5,7) inner [OF state] routed
    by (cases res) (simp_all add: demo_timed_def time_limit_middleware_def cut_short_def demo_setup_simps)
  then have error: "error_middleware (su_on_error ?su) (demo_timed ?su rf) H_not_found (demo_entered r) = (Inr (R_response resp), r')"
    using assms(8) by (cases res) (simp_all add: error_middleware_def demo_setup_simps)
  have "look_scope r' ''get_transport_info'' = Some (Lazy F_get_transport_info)"
    using state by (simp add: demo_routed_def demo_scope_def)
  moreover have "de_call de F_get_transport_info t = (Inr info, t)" "info \<noteq> EMPTY" for t
    using assms(1) by (auto simp: usual_calls_def demo_setup_simps)
  ultimately have "rq_getattr ?call ''get_transport_info'' r' =
      (Inr info, r'\<lparr>rq_scope := AList.update ''get_transport_info'' (Plain info) (rq_scope r')\<rparr>)"
    by (intro getattr_lazy [where f = F_get_transport_info]) (auto simp: request_slots_def)
  with error state assms(2) have "fst (logger_middleware ?call 0 (error_middleware (su_on_error ?su) (demo_timed ?su rf)) H_not_found
      (put_all rq_set patch_attrs r)) = Inr (R_response resp)"
    by (subst logger_passes [of _ _ 0 _ resp r'])
      (simp_all add: demo_entered_def served_request_def demo_routed_def)
  then show ?thesis unfolding demo_app_eq [of de rf h0 H_not_found] by (simp add: patch_middleware_def)
qed

end
