(* ===== verification/Demo_Runs.thy ===== *)
theory Demo_Runs
  imports Demo_App
begin

text \<open>
  \<^verbatim>\<open>run.py\<close>: what its application answers, request by request, with the state of the profiler.
\<close>

section \<open>Resolution\<close>

lemma slash_append_starts: "take (length p) (slash_append p) = p"
  by (simp add: slash_append_def)

lemma equals_other_start:
  assumes "take n p \<noteq> take n q" and "n \<le> length p" and "n \<le> length q"
  shows "cond_on_path (EqualsCondition m q meta) p = None"
proof -
  have "take n (slash_append p) = take n p" "take n (slash_append q) = take n q"
    using assms(2,3) slash_append_starts [of p] slash_append_starts [of q]
    by (metis min_absorb1 take_take)+
  with assms(1) have "slash_append q \<noteq> slash_append p" by metis
  then show ?thesis by simp
qed

lemma takes_arg:
  assumes "list_all name_char v" and "s = [] \<or> hd s = CHR ''/''"
  shows "takeWhile name_char (v @ s) = v"
proof -
  have "takeWhile name_char s = []" using assms(2) by (cases s) (auto simp: name_char_def is_alnum_def)
  then show ?thesis using assms(1) by (simp add: list_all_iff takeWhile_append2)
qed

lemma arg_then_slash:
  assumes "list_all name_char v" and "list_all name_char w" and "v @ t = w @ CHR ''/'' # s" and "t \<in> {[], ''/''}"
  shows "t = ''/'' \<and> s = []"
proof -
  have "takeWhile name_char (v @ t) = v" using assms(1,4) by (intro takes_arg) auto
  moreover have "takeWhile name_char (w @ CHR ''/'' # s) = w" using assms(2) by (intro takes_arg) simp_all
  ultimately have "v = w" using assms(3) by simp
  with assms(3,4) show ?thesis by auto
qed

lemma userp_refuses:
  assumes "arg_value v" and "t \<in> {[], ''/''}"
  shows "cond_on_path (path_condition ''GET'' userp_path meta) (''/new/'' @ v @ t) = None"
proof (rule ccontr)
  assume "\<not> ?thesis"
  then obtain d where "cond_on_path (path_condition ''GET'' userp_path meta) (''/new/'' @ v @ t) = Some d" by blast
  from path_condition_sound [OF this] obtain w u where w: "arg_value w"
    and eq: "''/new/'' @ v @ t = fill userp_path [w] @ u"
    by (auto simp: userp_path_def strip_seg_def length_Suc_conv)
  have "v @ t = w @ CHR ''/'' # CHR ''p'' # u" using eq by (simp add: userp_path_def)
  from arg_then_slash [OF _ _ this assms(2)] show False
    using assms(1) w by (simp add: arg_value_def)
qed

definition user_meta :: meta where
  "user_meta = [(''profile_condition'', condition_fn), (''name'', PStr (lit ''user''))]"

definition user_data :: "bytes \<Rightarrow> meta" where
  "user_data v = [(''user'', PBytes v), (''pattern'', PBytes ''/new/{user}/'')] @ user_meta"

lemma user_resolved:
  assumes "arg_value v" and "t \<in> {[], ''/''}"
  shows "table_answer demo_table ''GET'' (''/new/'' @ v @ t) = (H_user, user_data v)"
proof -
  have root: "cond_on_path (EqualsCondition ''GET'' ''/-/'' meta) (''/new/'' @ v @ t) = None" for meta
    by (rule equals_other_start [where n = 2]) simp_all
  have "fill (strip_seg user_path) [v] @ t = ''/new/'' @ v @ t" by (simp add: user_path_def strip_seg_def)
  moreover have "cond_on_path (path_condition ''GET'' user_path user_meta) (fill (strip_seg user_path) [v] @ t) =
      Some (path_data user_path [v] user_meta)"
    using assms demo_paths_ok(4) by (intro path_condition_fill) (auto simp: user_path_def)
  moreover have "path_data user_path [v] user_meta = user_data v"
    by (simp add: path_data_def user_data_def user_meta_def user_path_def)
  ultimately have user: "cond_on_path (path_condition ''GET'' user_path user_meta) (''/new/'' @ v @ t) = Some (user_data v)"
    by simp
  have methods: "c_method (path_condition m ts meta) = m" for m ts meta by (simp add: path_condition_def)
  show ?thesis
    using root userp_refuses [OF assms] user
    unfolding table_answer_def first_route_def demo_table_def user_meta_def
    by (simp add: methods del: cond_on_path.simps)
qed

section \<open>The handler of a user\<close>

definition user_reply :: "bytes \<Rightarrow> pyval" where
  "user_reply v = PDict [(PStr (lit ''status''), PBytes v), (PStr (lit ''url''), PStr (lit ''/new/test/''))]"

lemma demo_url:
  "router_url fmt demo_table (lit ''user'') [(lit ''user'', lit ''test'')] = Inr (lit ''/new/test/'')"
proof -
  let ?name = "PStr (lit ''user'')"
  have split: "rt_routes demo_table =
      take 2 (rt_routes demo_table) @ (path_condition ''GET'' user_path user_meta, H_user) # drop 3 (rt_routes demo_table)"
    by (simp add: demo_table_def user_meta_def)
  have "lit ''root'' \<noteq> lit ''user''" by (simp only: lit_inject) simp
  then have pre: "\<forall>(c, h) \<in> set (take 2 (rt_routes demo_table)). meta_name (c_meta c) \<noteq> ?name"
    by (simp add: demo_table_def path_condition_def meta_name_def del: lit_simps) simp
  have args: "args user_path = [''user'']" by (simp add: user_path_def)
  have "url_loop fmt (take 2 (rt_routes demo_table) @ (path_condition ''GET'' user_path user_meta, H_user) #
      drop 3 (rt_routes demo_table)) (lit ''user'') (named_args user_path [''test'']) = Inr (lit (fill user_path [''test'']))"
    using demo_paths_ok(3) args pre
    by (intro path_url) (simp_all add: path_condition_def meta_name_def user_meta_def)
  moreover have "named_args user_path [''test''] = [(lit ''user'', lit ''test'')]"
    by (simp add: named_args_def args del: lit_simps)
  moreover have "fill user_path [''test''] = ''/new/test/''" by (simp add: user_path_def)
  ultimately show ?thesis unfolding router_url_def by (subst split) simp
qed

lemma user_call:
  assumes "look_scope r ''user'' = Some (Plain (PBytes v))"
  shows "run_handler call demo_params (demo_body bcall fmt cfg ts) (Plain_handler H_user) r =
    (Inr (R_value (user_reply v)), r)"
proof -
  have "rq_get call ''user'' PNone r = (Inr (PBytes v), r)" using assms by (rule rq_get_plain)
  then have "call_handler call (demo_params H_user) r = (Inr [(''user'', A_value (PBytes v))], r)"
    by (simp add: call_handler_def inject_middleware_def new_callable_def signature_params_def
        add_request_middleware_def partial_kwargs_def py_call_def Inject_def Let_def)
  then show ?thesis
    using demo_url [of fmt]
    by (simp add: run_handler_eqs user_value_def user_body_def user_reply_def del: lit_simps)
qed

text \<open>The formatters on a dictionary, with the JSON function of the configuration.\<close>

lemma demo_formatters_json:
  assumes "call_next h r = (Inr (R_value (PDict d)), r)" and "de_dumps de (PDict d) = Inr s" and "encode s = Inr b"
    and "look_scope r ''status'' = None"
  shows "demo_formatters (demo_setup de) call_next h r =
    (Inr (R_response (new_response 200 b (Some [(''content-type'', ''application/json'')]) [] False)), r)"
  using assms
  by (simp add: demo_formatters_def json_middleware_def text_middleware_def demo_setup_simps reply_with_def
      rq_get_missing made_response_def)

lemma demo_formatters_error:
  "call_next h r = (Inl e, r) \<Longrightarrow> demo_formatters su call_next h r = (Inl e, r)"
  by (simp add: demo_formatters_def json_middleware_def text_middleware_def)

section \<open>One request\<close>

text \<open>A run of the demonstration: the lazy attributes are the usual ones, nothing cancels the request,
  and the profile conditions answer as they are written.\<close>

definition demo_facts :: "run_facts \<Rightarrow> nat \<Rightarrow> nat \<Rightarrow> bool" where
  "demo_facts rf spent threshold \<longleftrightarrow>
     rf_duration rf \<le> 10 \<and> rf_outer rf = None \<and> rf_slow rf = demo_slow spent threshold"

definition user_request :: "bytes \<Rightarrow> request \<Rightarrow> bool" where
  "user_request v r \<longleftrightarrow>
     served_request r \<and> arg_value v \<and> rq_method r = ''GET'' \<and>
     (\<exists>t \<in> {[], ''/''}. target r = ''/new/'' @ v @ t)"

lemma user_answer:
  assumes "user_request v r"
  shows "table_answer demo_table (rq_method r) (target r) = (H_user, user_data v)"
proof -
  obtain t where "t \<in> {[], ''/''}" "target r = ''/new/'' @ v @ t" "arg_value v" "rq_method r = ''GET''"
    using assms by (auto simp: user_request_def)
  then show ?thesis by (simp only: user_resolved)
qed

lemma user_answered:
  assumes "usual_calls (demo_setup de) n cfg other info" and "user_request v r" and "demo_facts rf spent threshold"
    and "\<not> rf_profiled rf" and "de_dumps de (user_reply v) = Inr s" and "encode s = Inr b"
  shows "fst (demo_app de rf h0 r) =
    Inr (R_response (new_response 200 b (Some [(''content-type'', ''application/json'')]) [] False))"
proof -
  let ?resp = "new_response 200 b (Some [(''content-type'', ''application/json'')]) [] False"
  note answer = user_answer [OF assms(2)]
  have inner: "demo_inner (demo_setup de) rf (Plain_handler H_user) r' = (Inr (R_response ?resp), r')"
    if "demo_routed r (user_data v) r'" for r'
  proof -
    have scope: "look_scope r' ''user'' = Some (Plain (PBytes v))" "look_scope r' ''status'' = None"
      "look_scope r' ''process'' = None" "look_scope r' ''logger'' = Some (Plain (PObj ''logger'' 0))"
      "look_scope r' ''profile_condition'' = map_option Plain (Some condition_fn)"
      using that by (simp_all add: demo_routed_def demo_scope_def patch_attrs_def user_data_def user_meta_def)
    have "demo_formatters (demo_setup de) (run_handler (de_call de) demo_params
        (demo_body (de_call de) (de_format de) (de_template de) (de_templates de))) (Plain_handler H_user) r' =
        (Inr (R_response ?resp), r')"
      using user_call [OF scope(1)] assms(5,6) scope(2) unfolding user_reply_def
      by (intro demo_formatters_json) simp_all
    then show ?thesis
      using scope assms(3,4)
      by (intro executors_unprofiled [where v = "Some condition_fn" and b = True])
        (simp_all add: demo_setup_simps where_run_def demo_coroutine_def demo_facts_def demo_slow_def)
  qed
  show ?thesis
    using assms(1-3) answer inner
    by (intro demo_answers [where res = "Inr (R_response ?resp)"])
      (simp_all add: user_request_def demo_facts_def)
qed

text \<open>The same request under the profiler.\<close>

lemma executors_profiled:
  assumes "look_scope r ''process'' = None" and "look_scope r ''depth'' = None" and "rf_profiled rf"
    and "su_is_coro su h" and "call_next (Profiled (Plain_handler h)) r = (res, r)"
  shows "executors su rf call_next (Plain_handler h) r = (res, r)"
  using assms
  by (simp add: executors_def run_process_def executor_middleware_def process_condition_def
      profile_middleware_def sync_to_async_def sync_condition_def rq_get_missing)

lemma user_profiled:
  assumes "usual_calls (demo_setup de) n cfg other info" and "user_request v r" and "demo_facts rf spent threshold"
    and "rf_profiled rf"
  shows "fst (demo_app de rf h0 r) = Inr (error_page de TypeError)"
proof -
  have inner: "demo_inner (demo_setup de) rf (Plain_handler H_user) r' = (Inl TypeError, r')"
    if "demo_routed r (user_data v) r'" for r'
  proof -
    have scope: "look_scope r' ''process'' = None" "look_scope r' ''depth'' = None"
      using that by (simp_all add: demo_routed_def demo_scope_def patch_attrs_def user_data_def user_meta_def)
    have "run_handler call demo_params body (Profiled (Plain_handler H_user)) r' = (Inl TypeError, r')" for call body
      by (simp add: run_handler_eqs new_callable_def py_call_def)
    then show ?thesis
      using scope assms(4)
      by (intro executors_profiled demo_formatters_error) (simp_all add: demo_setup_simps demo_coroutine_def)
  qed
  show ?thesis
    unfolding error_page_def using assms(1-3) user_answer [OF assms(2)] inner
    by (intro demo_answers [where res = "Inl TypeError"])
      (simp_all add: user_request_def demo_facts_def error_page_def)
qed

section \<open>Requests one after the other\<close>

text \<open>The condition that the profiler asks about a request, and a run of requests: each is served as the
  state of the profiler demands, and changes it.\<close>

definition condition_of :: "request \<Rightarrow> pyval" where
  "condition_of r =
     (case map_of (snd (table_answer demo_table (rq_method r) (target r))) ''profile_condition'' of
        None \<Rightarrow> default_condition | Some v \<Rightarrow> v)"

definition serve :: "demo_env \<Rightarrow> run_facts \<Rightarrow> profile_state \<Rightarrow> request \<Rightarrow> reply result \<times> profile_state" where
  "serve de rf st r =
     (case profile_enter r st of
        (profiled, st1) \<Rightarrow>
          (fst (demo_app de (rf\<lparr>rf_profiled := profiled\<rparr>) (Plain_handler H_not_found) r),
           profile_leave profiled (rf_slow rf (condition_of r) = Inr True) r st1))"

fun serve_all :: "demo_env \<Rightarrow> run_facts \<Rightarrow> profile_state \<Rightarrow> request list \<Rightarrow> reply result list" where
  "serve_all de rf st [] = []"
| "serve_all de rf st (r # rs) =
     (case serve de rf st r of (rep, st') \<Rightarrow> rep # serve_all de rf st' rs)"

lemma user_pair:
  assumes "usual_calls (demo_setup de) n cfg other info" and "user_request v r" and "demo_facts rf spent threshold"
    and "de_dumps de (user_reply v) = Inr s" and "encode s = Inr b"
    and "request_hash r \<notin> set (pf_targets st)" and "\<not> pf_locked st"
  shows "serve_all de rf st (r # r # rs) =
    Inr (R_response (new_response 200 b (Some [(''content-type'', ''application/json'')]) [] False)) #
    Inr (error_page de TypeError) # serve_all de rf st rs"
proof -
  let ?st = "st\<lparr>pf_targets := pf_targets st @ [request_hash r]\<rparr>"
  have facts: "demo_facts (rf\<lparr>rf_profiled := b\<rparr>) spent threshold" for b
    using assms(3) by (simp add: demo_facts_def)
  have "condition_of r = condition_fn"
    using user_answer [OF assms(2)] by (simp add: condition_of_def user_data_def user_meta_def)
  then have slow: "rf_slow rf (condition_of r) = Inr True"
    using assms(3) by (simp add: demo_facts_def demo_slow_def)
  have first: "serve de rf st r =
      (Inr (R_response (new_response 200 b (Some [(''content-type'', ''application/json'')]) [] False)), ?st)"
    using assms(6) user_answered [OF assms(1,2) facts _ assms(4,5)] slow
    by (simp add: serve_def profile_enter_def profile_leave_def)
  have "remove1 (request_hash r) (pf_targets st @ [request_hash r]) = pf_targets st"
    using assms(6) by (simp add: remove1_append)
  then have "st\<lparr>pf_targets := remove1 (request_hash r) (pf_targets st @ [request_hash r]), pf_locked := False\<rparr> = st"
    using assms(7) by simp
  then have "serve de rf ?st r = (Inr (error_page de TypeError), st)"
    using assms(7) user_profiled [OF assms(1,2) facts] slow
    by (simp add: serve_def profile_enter_def profile_leave_def)
  with first show ?thesis by simp
qed

section \<open>The handlers without templates\<close>

lemma fill_literal: "fill (map Lit pre @ us) vs = pre @ fill us vs"
  by (induction pre) simp_all

lemma path_other_start:
  assumes "strip_seg ts = map Lit pre @ us" and "take (length pre) p \<noteq> pre"
  shows "cond_on_path (path_condition m ts meta) p = None"
proof (rule ccontr)
  assume "\<not> ?thesis"
  then obtain d where "cond_on_path (path_condition m ts meta) p = Some d" by blast
  from path_condition_sound [OF this] obtain vs t where "p = fill (strip_seg ts) vs @ t" by blast
  with assms show False by (simp add: fill_literal)
qed

lemma template_other_rest:
  assumes "arg_value v" and "\<And>u. u \<in> {[], ''/''} \<Longrightarrow> k @ t \<noteq> rest @ u" and "rest \<noteq> [] \<Longrightarrow> last rest \<noteq> CHR ''/''"
    and "k \<noteq> []"
  shows "cond_on_path (path_condition m (template_path rest) meta) (''/template/'' @ v @ CHR ''/'' # k @ t) = None"
proof (rule ccontr)
  assume "\<not> ?thesis"
  then obtain d where
    "cond_on_path (path_condition m (template_path rest) meta) (''/template/'' @ v @ CHR ''/'' # k @ t) = Some d" by blast
  from path_condition_sound [OF this] obtain vs u where vs: "length vs = length (args (template_path rest))"
    "list_all arg_value vs" and u: "u \<in> {[], ''/''}"
    and filled: "''/template/'' @ v @ CHR ''/'' # k @ t = fill (strip_seg (template_path rest)) vs @ u"
    by blast
  from vs(1) obtain w where "vs = [w]" by (auto simp: template_path_def length_Suc_conv)
  with vs(2) filled have w: "arg_value w"
    and eq: "''/template/'' @ v @ CHR ''/'' # k @ t = fill (strip_seg (template_path rest)) [w] @ u"
    by simp_all
  have "strip_seg (template_path rest) = map Lit ''/template/'' @ Arg ''user'' # (if rest = [] then [] else map Lit (CHR ''/'' # rest))"
    using assms(3) by (auto simp: template_path_def strip_seg_def last_map butlast_append)
  with eq have same: "v @ CHR ''/'' # k @ t = w @ (if rest = [] then u else CHR ''/'' # rest @ u)"
    using fill_literal [of "CHR ''/'' # rest" "[]"] by (simp add: fill_literal split: if_split_asm)
  have v: "takeWhile name_char (v @ CHR ''/'' # k @ t) = v"
    using assms(1) by (intro takes_arg) (simp_all add: arg_value_def)
  have "takeWhile name_char (w @ (if rest = [] then u else CHR ''/'' # rest @ u)) = w"
    using w u by (intro takes_arg) (auto simp: arg_value_def)
  with v same have "v = w" by simp
  with same have rests: "CHR ''/'' # k @ t = (if rest = [] then u else CHR ''/'' # rest @ u)"
    by (simp only: same_append_eq)
  show False
  proof (cases "rest = []")
    case True
    with rests u assms(4) show False by auto
  next
    case False
    with rests assms(2) [OF u] show False by simp
  qed
qed

definition template_handler :: "bytes \<Rightarrow> demo_handler" where
  "template_handler k = (if k = ''2'' then H_user_template2 else H_user_template3)"

definition template_data :: "bytes \<Rightarrow> bytes \<Rightarrow> meta" where
  "template_data k v = [(''user'', PBytes v), (''pattern'', PBytes (''/template/{user}/'' @ k))]"

lemma template_resolved:
  assumes "arg_value v" and "t \<in> {[], ''/''}" and "k \<in> {''2'', ''3''}"
  shows "table_answer demo_table ''GET'' (''/template/'' @ v @ CHR ''/'' # k @ t) = (template_handler k, template_data k v)"
proof -
  let ?p = "''/template/'' @ v @ CHR ''/'' # k @ t"
  have plain: "cond_on_path (EqualsCondition ''GET'' ''/-/'' meta) ?p = None"
    "cond_on_path (EqualsCondition ''GET'' ''/q/'' meta) ?p = None" for meta
    by (rule equals_other_start [where n = 2]; simp)+
  have users: "cond_on_path (path_condition ''GET'' userp_path meta) ?p = None"
    "cond_on_path (path_condition ''GET'' user_path meta) ?p = None" for meta
    by (rule path_other_start [where pre = "''/new/''"]; simp add: userp_path_def user_path_def strip_seg_def)+
  have first: "cond_on_path (path_condition ''GET'' (template_path []) meta) ?p = None" for meta
    using assms by (intro template_other_rest) auto
  have second: "k = ''3'' \<Longrightarrow> cond_on_path (path_condition ''GET'' (template_path ''2'') meta) ?p = None" for meta
    using assms by (intro template_other_rest) auto
  have hit: "cond_on_path (path_condition ''GET'' (template_path k) []) ?p = Some (template_data k v)"
  proof -
    have "strip_seg (template_path k) = template_path k" using assms(3) by (auto simp: template_path_def strip_seg_def)
    then have p: "?p = fill (strip_seg (template_path k)) [v] @ t"
      using fill_literal [of "CHR ''/'' # k" "[]" "[]"] by (simp add: template_path_def fill_literal)
    have "separated (template_path k)"
      using assms(3) by (auto simp: template_path_def name_char_def is_alnum_def)
    then have "cond_on_path (path_condition ''GET'' (template_path k) []) ?p = Some (path_data (template_path k) [v] [])"
      unfolding p using assms(1,2) by (intro path_condition_fill) (auto simp: template_path_def)
    moreover have "path_data (template_path k) [v] [] = template_data k v"
      using assms(3) by (auto simp: path_data_def template_data_def template_path_def)
    ultimately show ?thesis by simp
  qed
  have methods: "c_method (path_condition m ts meta) = m" for m ts meta by (simp add: path_condition_def)
  show ?thesis
    using plain users first second hit assms(3)
    unfolding table_answer_def first_route_def demo_table_def template_handler_def
    by (auto simp: methods simp del: cond_on_path.simps)
qed

lemma no_templates: "app_getattr ''templates'' demo_state = Inl AttributeError"
proof -
  have "find (\<lambda>c. co_name c = ''templates'') (ap_components demo_state) = None"
    by (rule find_name_None) (simp only: demo_state_def run_py_components run_enabled, simp)
  then show ?thesis by (simp add: app_getattr_def)
qed

lemma template_call:
  assumes "k \<in> {''2'', ''3''}"
  shows "run_handler call demo_params (demo_body bcall fmt cfg ts) (where_run demo_coroutine (template_handler k)) r =
    (Inl AttributeError, r)"
  using assms one_argument [of "[]" request_param] no_templates
  by (auto simp: where_run_def demo_coroutine_def template_handler_def run_handler_eqs user_template2_body_def
      user_template3_body_def)

section \<open>Properties\<close>

text \<open>The two handlers of \<^verbatim>\<open>run.py\<close> that use \<open>app.templates\<close> always fail: the configuration disables that
  component, \<open>start\<close> removes it, and looking it up raises \<open>AttributeError\<close>, which becomes the error page.\<close>

theorem demo_templates_gone:
  assumes "usual_calls (demo_setup de) n cfg other info" and "served_request r" and "demo_facts rf spent threshold"
    and "\<not> rf_profiled rf" and "rq_method r = ''GET''" and "target r = ''/template/'' @ v @ CHR ''/'' # k @ t"
    and "arg_value v" and "k \<in> {''2'', ''3''}" and "t \<in> {[], ''/''}"
  shows "fst (demo_app de rf h0 r) = Inr (R_response (new_response 500 (de_traceback de AttributeError) None [] False))"
proof -
  have answer: "table_answer demo_table (rq_method r) (target r) = (template_handler k, template_data k v)"
    unfolding assms(5,6) by (rule template_resolved) (rule assms)+
  have inner: "demo_inner (demo_setup de) rf (Plain_handler (template_handler k)) r' = (Inl AttributeError, r')"
    if "demo_routed r (template_data k v) r'" for r'
  proof -
    have scope: "look_scope r' ''process'' = None" "look_scope r' ''profile_condition'' = map_option Plain None"
      "look_scope r' ''logger'' = Some (Plain (PObj ''logger'' 0))"
      using that by (simp_all add: demo_routed_def demo_scope_def patch_attrs_def template_data_def)
    show ?thesis
      using scope assms(3,4) template_call [OF assms(8)]
      by (intro executors_unprofiled [where v = None and b = "default_profile_condition spent threshold"]
          demo_formatters_error)
        (simp_all add: demo_setup_simps demo_facts_def demo_slow_def default_condition_def condition_fn_def
          condition_lambda_def)
  qed
  show ?thesis
    using assms(1-3) answer inner
    by (intro demo_answers [where res = "Inl AttributeError"]) (simp_all add: demo_facts_def error_page_def)
qed

text \<open>C30: The demonstration application of \<^verbatim>\<open>run.py\<close> answers \<open>GET /new/{user}/\<close> every second time only: the
  profile condition of the route asks for the next request to be profiled, the wrapper of the profiler hides
  the annotation of the handler's parameter, so the handler is called without its argument, and that request
  is answered with the error page. In between, the answer is the JSON of the user and the URL that the
  route's name gives.\<close>

theorem demo_user_alternates:
  assumes "usual_calls (demo_setup de) n cfg other info" and "user_request v r" and "demo_facts rf spent threshold"
    and "de_dumps de (user_reply v) = Inr s" and "encode s = Inr b"
  shows "serve_all de rf \<lparr>pf_targets = [], pf_locked = False\<rparr> (replicate (2 * k) r) =
    concat (replicate k
      [Inr (R_response (new_response 200 b (Some [(''content-type'', ''application/json'')]) [] False)),
       Inr (R_response (new_response 500 (de_traceback de TypeError) None [] False))])"
proof (induction k)
  case 0
  show ?case by simp
next
  case (Suc k)
  have "replicate (2 * Suc k) r = r # r # replicate (2 * k) r" by simp
  then show ?case
    using user_pair [OF assms, of "\<lparr>pf_targets = [], pf_locked = False\<rparr>"] Suc by (simp only: replicate_Suc) (simp add: error_page_def)
qed

definition demo_sample :: demo_env where
  "demo_sample =
     \<lparr>de_call = patch_call (Suc 0) sample_config (\<lambda>f r. (Inr PNone, r)), de_format = (\<lambda>p k. Inl KeyError),
      de_dumps = json_value True, de_traceback = (\<lambda>e. ''Traceback''),
      de_template = \<lparr>tc_formats = [], tc_content_type = ''text/html'', tc_str = (\<lambda>a. [])\<rparr>, de_templates = [],
      de_str = (\<lambda>a. [])\<rparr>"

definition demo_run :: run_facts where
  "demo_run =
     \<lparr>rf_duration = 1, rf_outer = None, rf_cancelled = (\<lambda>r. (Inl CancelledError, r)), rf_profiled = False,
      rf_slow = demo_slow 0 1\<rparr>"

definition demo_text :: pystr where
  "demo_text = lit ''{'' @ [34] @ lit ''status'' @ [34] @ lit '': '' @ [34] @ lit ''bob'' @ [34] @ lit '', '' @
     [34] @ lit ''url'' @ [34] @ lit '': '' @ [34] @ lit ''/new/test/'' @ [34] @ lit ''}''"

lemma demo_sample_usual:
  "usual_calls (demo_setup demo_sample) 0 sample_config (\<lambda>f r. (Inr PNone, r)) PNone"
  "demo_facts demo_run 0 1"
  by (auto simp: usual_calls_def demo_setup_def demo_sample_def sample_config_def EMPTY_def demo_facts_def demo_run_def)

lemma demo_sample_json: "de_dumps demo_sample (user_reply ''bob'') = Inr demo_text"
  by (simp add: demo_sample_def user_reply_def demo_text_def json_string_def json_char_def)

lemma demo_sample_user: "user_request ''bob'' (sample_request ''GET'' ''/new/bob/?x=1'')"
  by (simp add: user_request_def served_request_def sample_request_def new_request_def ascii_def plain_target_def
      arg_value_def name_char_def is_alnum_def)

theorem demo_user_alternates_witness:
  "serve_all demo_sample demo_run \<lparr>pf_targets = [], pf_locked = False\<rparr>
     (replicate 4 (sample_request ''GET'' ''/new/bob/?x=1'')) =
   concat (replicate 2
     [Inr (R_response (new_response 200 (map char_of demo_text) (Some [(''content-type'', ''application/json'')]) [] False)),
      Inr (R_response (new_response 500 ''Traceback'' None [] False))])"
proof -
  have "encode demo_text = Inr (map char_of demo_text)"
    using demo_sample_json by (intro encode_printable) (simp add: demo_sample_def json_printable(1))
  from demo_user_alternates [OF demo_sample_usual(1) demo_sample_user demo_sample_usual(2) demo_sample_json this, of 2]
  show ?thesis by (simp add: demo_sample_def)
qed

theorem demo_templates_gone_witness:
  "fst (demo_app demo_sample demo_run (Plain_handler H_not_found) (sample_request ''GET'' ''/template/bob/2'')) =
     Inr (R_response (new_response 500 (de_traceback demo_sample AttributeError) None [] False))"
  by (rule demo_templates_gone [OF demo_sample_usual(1) _ demo_sample_usual(2), where v = "''bob''" and k = "''2''" and t = "[]"])
    (simp_all add: served_request_def sample_request_def new_request_def ascii_def arg_value_def name_char_def
      is_alnum_def demo_run_def)

end
