(* ===== verification/Profiler.thy ===== *)
theory Profiler
  imports Prelude "HOL-Library.List_Lexorder" "HOL-Library.Product_Lexorder"
begin

text \<open>
  \<^verbatim>\<open>levin/utils/profile.py\<close>: \<open>SimpleProfile\<close>, the profiler that \<open>ProfileHandler\<close> runs handlers under. The
  interpreter calls \<open>_trace\<close> with an event and the current frame; a frame is modelled with the frames
  that called it, as the list that begins with it (\<open>f_back\<close> is its tail). The profiler learns which
  functions to follow while it runs, up to its depth, and keeps one record for every line of these
  functions that makes a call.

  Times are readings of the clock, an argument of the events. The sources of functions
  (\<open>inspect.getsource\<close>, as lines), the snapshot of \<open>tracemalloc\<close> and the run of the profiled function are
  arguments. Operations return the exception that leaves them, if any, and the profiler as they leave
  it.
\<close>

section \<open>Frames\<close>

record code_obj =
  cd_file :: pystr
  cd_line :: int
  cd_name :: name

text \<open>\<open>_get_code_alias\<close>\<close>

type_synonym func_alias = "pystr \<times> int \<times> name"

definition code_alias :: "code_obj \<Rightarrow> func_alias" where
  "code_alias c = (cd_file c, cd_line c, cd_name c)"

record frame =
  fr_code :: code_obj
  fr_line :: int

definition frame_alias :: "frame \<Rightarrow> func_alias" where
  "frame_alias f = code_alias (fr_code f)"

datatype trace_event = T_call | T_return | T_c_call | T_c_return | T_c_exception

definition is_c_event :: "trace_event \<Rightarrow> bool" where
  "is_c_event ev \<longleftrightarrow> ev \<in> {T_c_return, T_c_exception, T_c_call}"

definition is_call :: "trace_event \<Rightarrow> bool" where
  "is_call ev \<longleftrightarrow> ev \<in> {T_c_call, T_call}"

text \<open>\<open>_get_event_frame\<close>: the frame that makes the call.\<close>

definition event_frame :: "trace_event \<Rightarrow> frame list \<Rightarrow> frame list" where
  "event_frame ev frames = (if is_c_event ev then frames else tl frames)"

section \<open>The state\<close>

record call_result =
  cr_line :: int
  cr_caller :: int
  cr_file :: pystr
  cr_depth :: nat
  cr_start :: int
  cr_end :: int
  cr_ncalls :: nat
  cr_mem :: int

definition call_time :: "call_result \<Rightarrow> int" where
  "call_time c = cr_end c - cr_start c"

definition func_line :: "call_result \<Rightarrow> int" where
  "func_line c = cr_line c - cr_caller c"

text \<open>The interpreter's profile function: none, that of someone else, or the one of a profiler.\<close>

datatype tracer = No_tracer | Foreign nat | Tracing nat

text \<open>The statistics of a snapshot, filtered by file and line: tracebacks with sizes.\<close>

type_synonym snapshot = "pystr \<Rightarrow> int \<Rightarrow> ((pystr \<times> int) list \<times> int) list"

type_synonym sources = "code_obj \<Rightarrow> pystr list result"

record profile =
  sp_id :: nat
  sp_calls :: "call_result list"
  sp_depth :: int
  sp_targets :: "func_alias list"
  sp_functions :: "((pystr \<times> int) \<times> pystr list) list"
  sp_memory :: bool
  sp_orig :: tracer
  sp_snapshot :: "snapshot option"
  sp_stop :: bool

definition new_profile :: "nat \<Rightarrow> int \<Rightarrow> bool \<Rightarrow> profile" where
  "new_profile ident depth memory =
     \<lparr>sp_id = ident, sp_calls = [], sp_depth = depth, sp_targets = [], sp_functions = [],
      sp_memory = memory, sp_orig = No_tracer, sp_snapshot = None, sp_stop = False\<rparr>"

section \<open>Targets\<close>

text \<open>\<open>_save_function\<close>\<close>

definition save_function :: "sources \<Rightarrow> code_obj \<Rightarrow> profile \<Rightarrow> exn option \<times> profile" where
  "save_function src c p =
     (case src c of
        Inl e \<Rightarrow> (Some e, p)
      | Inr lines \<Rightarrow> (None, p\<lparr>sp_functions := AList.update (cd_file c, cd_line c) lines (sp_functions p)\<rparr>))"

text \<open>\<open>add_target\<close>; not every callable has a \<open>__code__\<close>.\<close>

definition add_target :: "sources \<Rightarrow> code_obj option \<Rightarrow> profile \<Rightarrow> exn option \<times> profile" where
  "add_target src func p =
     (case func of
        None \<Rightarrow> (Some AttributeError, p)
      | Some c \<Rightarrow> save_function src c (p\<lparr>sp_targets := sp_targets p @ [code_alias c]\<rparr>))"

text \<open>\<open>_save_frame\<close>: what a target calls becomes the next target, until there are as many as the
  depth.\<close>

definition save_frame :: "sources \<Rightarrow> frame list \<Rightarrow> profile \<Rightarrow> exn option \<times> profile" where
  "save_frame src frames p =
     (if int (length (sp_targets p)) = sp_depth p then (None, p)
      else (case frames of
              f # caller # rest \<Rightarrow>
                if frame_alias caller \<in> set (sp_targets p)
                then save_function src (fr_code f) (p\<lparr>sp_targets := sp_targets p @ [frame_alias f]\<rparr>)
                else (None, p)
            | _ \<Rightarrow> (Some AttributeError, p)))"

text \<open>The loop of \<open>_get_depth_at_recursion\<close>: how many callers in a row are the same function. The
  lowest frame has no \<open>f_back\<close>.\<close>

fun same_callers :: "frame list \<Rightarrow> nat result" where
  "same_callers (f # caller # rest) =
     (if frame_alias f = frame_alias caller then map_sum id Suc (same_callers (caller # rest)) else Inr 0)"
| "same_callers _ = Inl AttributeError"

definition depth_at_recursion :: "frame list \<Rightarrow> nat \<Rightarrow> nat option result" where
  "depth_at_recursion frames n =
     map_sum id (\<lambda>d. if n \<le> d \<or> d = 0 then None else Some d) (same_callers frames)"

definition indexes_of :: "'a \<Rightarrow> 'a list \<Rightarrow> nat list" where
  "indexes_of x xs = map fst (filter (\<lambda>(i, y). y = x) (enumerate 0 xs))"

definition target_depth :: "frame list \<Rightarrow> func_alias list \<Rightarrow> nat option result" where
  "target_depth frames targets =
     (let indexes = indexes_of (frame_alias (hd frames)) targets
      in if indexes = [] then Inr None
         else if 1 < length indexes then depth_at_recursion frames (length indexes)
         else Inr (Some (Suc (last indexes))))"

text \<open>\<open>_get_current_depth\<close>\<close>

definition current_depth ::
  "sources \<Rightarrow> trace_event \<Rightarrow> frame list \<Rightarrow> profile \<Rightarrow> nat option result \<times> profile" where
  "current_depth src ev frames p =
     (let fs = event_frame ev frames
      in if fs = [] then (Inl AttributeError, p)
         else (case save_frame src fs p of
                 (Some e, p') \<Rightarrow> (Inl e, p')
               | (None, p') \<Rightarrow> (target_depth fs (sp_targets p'), p')))"

section \<open>Tracing\<close>

text \<open>\<open>_create_call_from\<close>, \<open>_is_the_same_call\<close> and \<open>_get_the_same_call\<close>; the call that the search
  creates is compared and thrown away.\<close>

definition create_call :: "int \<Rightarrow> frame \<Rightarrow> nat \<Rightarrow> call_result" where
  "create_call now f depth =
     \<lparr>cr_line = fr_line f, cr_caller = cd_line (fr_code f), cr_file = cd_file (fr_code f), cr_depth = depth,
      cr_start = now, cr_end = 0, cr_ncalls = 0, cr_mem = 0\<rparr>"

type_synonym call_key = "nat \<times> pystr \<times> int"

definition call_key :: "call_result \<Rightarrow> call_key" where
  "call_key c = (cr_depth c, cr_file c, cr_line c)"

definition frame_key :: "frame \<Rightarrow> nat \<Rightarrow> call_key" where
  "frame_key f depth = (depth, cd_file (fr_code f), fr_line f)"

definition same_call :: "call_result \<Rightarrow> call_result \<Rightarrow> bool" where
  "same_call c1 c2 \<longleftrightarrow>
     cr_depth c1 = cr_depth c2 \<and> cr_file c1 = cr_file c2 \<and> cr_line c1 = cr_line c2"

definition find_call :: "frame \<Rightarrow> nat \<Rightarrow> profile \<Rightarrow> call_result option" where
  "find_call f depth p = find (same_call (create_call 0 f depth)) (sp_calls p)"

text \<open>An assignment to an attribute of the record that was found.\<close>

fun update_first :: "('a \<Rightarrow> bool) \<Rightarrow> ('a \<Rightarrow> 'a) \<Rightarrow> 'a list \<Rightarrow> 'a list" where
  "update_first P g [] = []"
| "update_first P g (x # xs) = (if P x then g x # xs else x # update_first P g xs)"

definition update_call :: "frame \<Rightarrow> nat \<Rightarrow> (call_result \<Rightarrow> call_result) \<Rightarrow> profile \<Rightarrow> profile" where
  "update_call f depth g p =
     p\<lparr>sp_calls := update_first (same_call (create_call 0 f depth)) g (sp_calls p)\<rparr>"

definition trace_call :: "int \<Rightarrow> frame \<Rightarrow> nat \<Rightarrow> profile \<Rightarrow> profile" where
  "trace_call now f depth p =
     (case find_call f depth p of
        None \<Rightarrow> p\<lparr>sp_calls := sp_calls p @ [create_call now f depth]\<rparr>
      | Some c \<Rightarrow> update_call f depth (\<lambda>c. c\<lparr>cr_ncalls := Suc (cr_ncalls c)\<rparr>) p)"

text \<open>\<open>_trace\<close>\<close>

definition trace_step ::
  "sources \<Rightarrow> trace_event \<times> frame list \<times> int \<Rightarrow> profile \<Rightarrow> exn option \<times> profile" where
  "trace_step src e p =
     (case e of (ev, frames, now) \<Rightarrow>
        if frames = [] then (None, p)
        else (case current_depth src ev frames p of
                (Inl e, p') \<Rightarrow> (Some e, p')
              | (Inr None, p') \<Rightarrow> (None, p')
              | (Inr (Some depth), p') \<Rightarrow>
                  (let f = hd (event_frame ev frames)
                   in if is_call ev then (None, trace_call now f depth p')
                      else (case find_call f depth p' of
                              None \<Rightarrow> (Some AttributeError, p')
                            | Some c \<Rightarrow> (None, update_call f depth (\<lambda>c. c\<lparr>cr_end := now\<rparr>) p')))))"

text \<open>All events of a run; an exception of the profile function ends the tracing.\<close>

fun trace_events ::
  "sources \<Rightarrow> (trace_event \<times> frame list \<times> int) list \<Rightarrow> profile \<Rightarrow> exn option \<times> profile" where
  "trace_events src [] p = (None, p)"
| "trace_events src (e # es) p =
     (case trace_step src e p of
        (Some x, p') \<Rightarrow> (Some x, p')
      | (None, p') \<Rightarrow> trace_events src es p')"

section \<open>Running\<close>

text \<open>\<open>stop\<close>, on the profiler and the interpreter's profile function\<close>

definition stop_trace :: "snapshot \<Rightarrow> profile \<Rightarrow> tracer \<Rightarrow> profile \<times> tracer" where
  "stop_trace snap p current =
     (if sp_stop p then (p, current)
      else (p\<lparr>sp_snapshot := (if sp_memory p then Some snap else sp_snapshot p), sp_stop := True\<rparr>, sp_orig p))"

text \<open>\<open>trace(func)\<close>, \<open>_run\<close> and \<open>_run_async\<close>: \<open>body\<close> is the call of the function under the profiler. The
  wrapper that \<open>trace\<close> makes, with or without \<open>await\<close>, runs the function when it is called.\<close>

definition prepare_trace :: "tracer \<Rightarrow> profile \<Rightarrow> profile" where
  "prepare_trace current p = p\<lparr>sp_orig := current\<rparr>"

definition run_traced ::
  "snapshot \<Rightarrow> (profile \<Rightarrow> tracer \<Rightarrow> 'a result \<times> profile \<times> tracer) \<Rightarrow> profile \<Rightarrow> 'a result \<times> profile \<times> tracer" where
  "run_traced snap body p =
     (case body p (Tracing (sp_id p)) of
        (res, p1, current) \<Rightarrow>
          (case stop_trace snap p1 current of (p2, current') \<Rightarrow> (res, p2, current')))"

definition trace_wrapped ::
  "snapshot \<Rightarrow> (profile \<Rightarrow> tracer \<Rightarrow> 'a result \<times> profile \<times> tracer) \<Rightarrow> profile \<Rightarrow> tracer \<Rightarrow> 'a result \<times> profile \<times> tracer" where
  "trace_wrapped snap body p current = run_traced snap body (prepare_trace current p)"

text \<open>\<open>run(func)\<close>\<close>

definition profile_run ::
  "sources \<Rightarrow> snapshot \<Rightarrow> code_obj option \<Rightarrow>
   (profile \<Rightarrow> tracer \<Rightarrow> 'a result \<times> profile \<times> tracer) \<Rightarrow> profile \<Rightarrow> tracer \<Rightarrow> 'a result \<times> profile \<times> tracer" where
  "profile_run src snap func body p current =
     (case add_target src func p of
        (Some e, p1) \<Rightarrow> (Inl e, p1, current)
      | (None, p1) \<Rightarrow> trace_wrapped snap body p1 current)"

section \<open>Results\<close>

text \<open>\<open>_get_memory_for_call\<close>; without \<open>stop\<close> there is no snapshot.\<close>

definition memory_for_call :: "profile \<Rightarrow> call_result \<Rightarrow> int result" where
  "memory_for_call p c =
     (if \<not> sp_memory p then Inr 0
      else (case sp_snapshot p of
              None \<Rightarrow> Inl AttributeError
            | Some snap \<Rightarrow>
                (case find (\<lambda>(traceback, held). (cr_file c, cr_line c) \<in> set traceback)
                        (snap (cr_file c) (cr_line c)) of
                   None \<Rightarrow> Inr 0
                 | Some (traceback, held) \<Rightarrow> Inr held)))"

text \<open>\<open>not text_line.strip()\<close>, with the white space of \<open>str\<close>\<close>

definition is_str_space :: "nat \<Rightarrow> bool" where
  "is_str_space n \<longleftrightarrow>
     (9 \<le> n \<and> n \<le> 13) \<or> (28 \<le> n \<and> n \<le> 32) \<or> (8192 \<le> n \<and> n \<le> 8202) \<or>
     n \<in> {133, 160, 5760, 8232, 8233, 8239, 8287, 12288}"

definition blank_line :: "pystr \<Rightarrow> bool" where
  "blank_line s \<longleftrightarrow> list_all is_str_space s"

type_synonym line_key = "int \<times> pystr \<times> nat"

definition line_key :: "call_result \<Rightarrow> line_key" where
  "line_key c = (cr_line c, cr_file c, cr_depth c)"

text \<open>\<open>_get_line\<close> and the assignments after it, for one line of a function\<close>

definition line_entry ::
  "profile \<Rightarrow> nat \<Rightarrow> pystr \<Rightarrow> int \<Rightarrow> int \<Rightarrow> (line_key \<times> call_result) list \<Rightarrow> call_result result" where
  "line_entry p depth file first lineno lines =
     (let line = (case map_of lines (lineno + first, file, depth) of
                    None \<Rightarrow>
                      \<lparr>cr_line = lineno + first, cr_caller = first, cr_file = file, cr_depth = depth,
                       cr_start = 0, cr_end = 0, cr_ncalls = 0, cr_mem = 0\<rparr>
                  | Some line \<Rightarrow> line\<lparr>cr_depth := depth\<rparr>)
      in map_sum id (\<lambda>m. line\<lparr>cr_mem := m\<rparr>) (memory_for_call p line))"

fun function_lines ::
  "profile \<Rightarrow> nat \<Rightarrow> pystr \<Rightarrow> int \<Rightarrow> int \<Rightarrow> pystr list \<Rightarrow> (line_key \<times> call_result) list \<Rightarrow>
   (line_key \<times> call_result) list result" where
  "function_lines p depth file first lineno [] lines = Inr lines"
| "function_lines p depth file first lineno (text_line # rest) lines =
     (if blank_line text_line then function_lines p depth file first (lineno + 1) rest lines
      else (case line_entry p depth file first lineno lines of
              Inl e \<Rightarrow> Inl e
            | Inr line \<Rightarrow>
                function_lines p depth file first (lineno + 1) rest
                  (AList.update (line_key line) line lines)))"

fun target_lines ::
  "profile \<Rightarrow> nat \<Rightarrow> func_alias list \<Rightarrow> (line_key \<times> call_result) list \<Rightarrow> (line_key \<times> call_result) list result" where
  "target_lines p depth [] lines = Inr lines"
| "target_lines p depth ((file, first, name) # targets) lines =
     (case map_of (sp_functions p) (file, first) of
        None \<Rightarrow> Inl AttributeError
      | Some source \<Rightarrow>
          (case function_lines p depth file first 1 (drop 1 source) lines of
             Inl e \<Rightarrow> Inl e
           | Inr lines' \<Rightarrow> target_lines p (Suc depth) targets lines'))"

definition call_lines :: "profile \<Rightarrow> (line_key \<times> call_result) list" where
  "call_lines p = foldl (\<lambda>d c. AList.update (line_key c) c d) [] (sp_calls p)"

definition sort_lines :: "call_result \<Rightarrow> pystr \<times> nat \<times> int" where
  "sort_lines c = (cr_file c, cr_depth c, cr_line c)"

definition get_lines :: "profile \<Rightarrow> call_result list result" where
  "get_lines p =
     map_sum id (\<lambda>lines. sort_key sort_lines (map snd lines)) (target_lines p 1 (sp_targets p) (call_lines p))"

text \<open>\<open>print_result\<close>: a heading for every change of the file, and the lines, with their numbers where
  there are any.\<close>

datatype printed = Heading pystr | Measured call_result | Unmeasured call_result

fun print_lines :: "pystr option \<Rightarrow> call_result list \<Rightarrow> printed list" where
  "print_lines file [] = []"
| "print_lines file (c # cs) =
     (if file \<noteq> Some (cr_file c) then [Heading (cr_file c)] else []) @
     (if cr_mem c \<noteq> 0 \<or> call_time c \<noteq> 0 then Measured c else Unmeasured c) #
     print_lines (Some (cr_file c)) cs"

definition print_result :: "profile \<Rightarrow> printed list result" where
  "print_result p = map_sum id (print_lines None) (get_lines p)"

end
