(* ===== verification/Profiler_Events.thy ===== *)
theory Profiler_Events
  imports Profiler
begin

text \<open>
  What \<open>SimpleProfile\<close> records of the events it gets: the invariant of its state, events that are well
  nested, the table that the list of records stands for, and what a run leaves behind.
\<close>

section \<open>Lemmas on the table of calls\<close>

lemma same_call_key: "same_call (create_call t f d) = (\<lambda>c. call_key c = frame_key f d)"
  by (auto simp: same_call_def create_call_def call_key_def frame_key_def fun_eq_iff)

lemma find_call_eq: "find_call f d p = find (\<lambda>c. call_key c = frame_key f d) (sp_calls p)"
  by (simp add: find_call_def same_call_key)

lemma create_call_depth [simp]: "cr_depth (create_call t f d) = d"
  by (simp add: create_call_def)

lemma call_key_create [simp]: "call_key (create_call t f d) = frame_key f d"
  by (simp add: create_call_def call_key_def frame_key_def)

lemma update_first_keys [simp]:
  assumes "\<And>x. h (g x) = h x"
  shows "map h (update_first P g xs) = map h xs"
  using assms by (induction xs) simp_all

lemma set_update_first: "x \<in> set (update_first P g xs) \<Longrightarrow> x \<in> set xs \<or> (\<exists>y \<in> set xs. x = g y)"
  by (induction xs) (auto split: if_splits)

lemma find_update_first:
  assumes "\<And>x. h (g x) = h x"
  shows "find (\<lambda>x. h x = k) (update_first (\<lambda>x. h x = j) g xs) =
    (if k = j then map_option g (find (\<lambda>x. h x = k) xs) else find (\<lambda>x. h x = k) xs)"
  using assms by (induction xs) auto

lemma find_append: "find P (xs @ ys) = (case find P xs of None \<Rightarrow> find P ys | Some x \<Rightarrow> Some x)"
  by (induction xs) auto

text \<open>The calls with a key that the profiler has seen.\<close>

definition recorded :: "profile \<Rightarrow> call_key \<Rightarrow> bool" where
  "recorded p k \<longleftrightarrow> k \<in> call_key ` set (sp_calls p)"

lemma find_call_recorded: "find_call f d p = None \<longleftrightarrow> \<not> recorded p (frame_key f d)"
  unfolding find_call_eq find_None_iff recorded_def by force

lemma update_call_frame [simp]:
  "sp_targets (update_call f d g p) = sp_targets p" "sp_depth (update_call f d g p) = sp_depth p"
  "sp_functions (update_call f d g p) = sp_functions p" "sp_memory (update_call f d g p) = sp_memory p"
  "sp_id (update_call f d g p) = sp_id p"
  by (simp_all add: update_call_def)

lemma trace_call_frame [simp]:
  "sp_targets (trace_call t f d p) = sp_targets p" "sp_depth (trace_call t f d p) = sp_depth p"
  "sp_functions (trace_call t f d p) = sp_functions p" "sp_memory (trace_call t f d p) = sp_memory p"
  "sp_id (trace_call t f d p) = sp_id p"
  by (simp_all add: trace_call_def split: option.split)

lemma update_call_keys:
  assumes "\<And>c. call_key (g c) = call_key c"
  shows "map call_key (sp_calls (update_call f d g p)) = map call_key (sp_calls p)"
  using assms by (simp add: update_call_def)

lemma recorded_update:
  assumes "\<And>c. call_key (g c) = call_key c"
  shows "recorded (update_call f d g p) k = recorded p k"
  using arg_cong [OF update_call_keys [OF assms, of f d p], of set] by (simp add: recorded_def)

lemma key_assignments [simp]:
  "call_key (c\<lparr>cr_ncalls := n\<rparr>) = call_key c" "call_key (c\<lparr>cr_end := t\<rparr>) = call_key c"
  by (simp_all add: call_key_def)

lemma recorded_trace_call: "recorded (trace_call t f d p) k \<longleftrightarrow> recorded p k \<or> k = frame_key f d"
proof (cases "find_call f d p")
  case None
  then show ?thesis by (auto simp: trace_call_def recorded_def)
next
  case (Some c)
  then have "recorded p (frame_key f d)" using find_call_recorded [of f d p] by simp
  with Some show ?thesis by (auto simp: trace_call_def recorded_update)
qed

section \<open>Lemmas on targets\<close>

definition full :: "profile \<Rightarrow> bool" where
  "full p \<longleftrightarrow> int (length (sp_targets p)) = sp_depth p"

lemma indexes_of_append:
  "indexes_of x (xs @ ys) = indexes_of x xs @ map ((+) (length xs)) (indexes_of x ys)"
proof -
  have shift: "map fst (filter (\<lambda>(i, y). y = x) (enumerate (m + n) ys)) =
      map ((+) m) (map fst (filter (\<lambda>(i, y). y = x) (enumerate n ys)))" for m n
    by (induction ys arbitrary: n) (simp_all flip: add_Suc_right)
  have "map fst (filter (\<lambda>(i, y). y = x) (enumerate 0 (xs @ ys))) =
      map fst (filter (\<lambda>(i, y). y = x) (enumerate 0 xs)) @
      map fst (filter (\<lambda>(i, y). y = x) (enumerate (length xs + 0) ys))"
    by (simp add: enumerate_append_eq)
  then show ?thesis unfolding indexes_of_def shift .
qed

lemma length_indexes [simp]: "length (indexes_of x xs) = count_list xs x"
proof -
  have "length (filter (\<lambda>(i, y). y = x) (enumerate n xs)) = count_list xs x" for n
    by (induction xs arbitrary: n) auto
  then show ?thesis by (simp add: indexes_of_def)
qed

lemma indexes_of_Nil [simp]: "indexes_of x xs = [] \<longleftrightarrow> x \<notin> set xs"
  using length_indexes [of x xs] by (metis count_list_0_iff length_0_conv)

lemma indexes_bound: "i \<in> set (indexes_of x xs) \<Longrightarrow> i < length xs"
  by (auto simp: indexes_of_def in_set_enumerate_eq)

text \<open>The depth of an event is between 1 and the number of targets.\<close>

lemma target_depth_bounds:
  assumes "target_depth frames targets = Inr (Some d)"
  shows "1 \<le> d \<and> d \<le> length targets"
proof -
  let ?x = "frame_alias (hd frames)"
  have n: "count_list targets ?x \<le> length targets" by (rule count_le_length)
  show ?thesis
  proof (cases "1 < count_list targets ?x")
    case True
    with assms obtain e where "d = e" "\<not> (count_list targets ?x \<le> e \<or> e = 0)"
      by (cases "same_callers frames")
        (auto simp: target_depth_def depth_at_recursion_def Let_def split: if_splits)
    with n show ?thesis by simp
  next
    case False
    with assms have "indexes_of ?x targets \<noteq> []" "d = Suc (last (indexes_of ?x targets))"
      by (auto simp: target_depth_def Let_def split: if_splits)
    then show ?thesis using indexes_bound [of "last (indexes_of ?x targets)" ?x targets] by (simp add: Suc_le_eq)
  qed
qed

lemma save_function_frame:
  assumes "save_function src c p = (e, p')"
  shows "sp_targets p' = sp_targets p" "sp_depth p' = sp_depth p" "sp_calls p' = sp_calls p"
  using assms by (auto simp: save_function_def split: sum.splits)

lemma save_frame_targets:
  assumes "save_frame src fs p = (e, p')"
  shows "sp_targets p' = sp_targets p \<or> \<not> full p \<and> sp_targets p' = sp_targets p @ [frame_alias (hd fs)]"
    and "sp_depth p' = sp_depth p" "sp_calls p' = sp_calls p"
  using assms by (auto simp: save_frame_def full_def split: if_splits list.splits dest: save_function_frame)

lemma trace_step_depth: "sp_depth (snd (trace_step src e p)) = sp_depth p"
  by (auto simp: trace_step_def current_depth_def Let_def split: prod.splits sum.splits option.splits if_splits
      dest: save_frame_targets)

lemma trace_step_targets:
  "sp_targets (snd (trace_step src e p)) = sp_targets p \<or>
   \<not> full p \<and> (\<exists>x. sp_targets (snd (trace_step src e p)) = sp_targets p @ [x])"
  by (auto simp: trace_step_def current_depth_def Let_def split: prod.splits sum.splits option.splits if_splits
      dest!: save_frame_targets(1) simp del: split_paired_Ex)

section \<open>The invariant\<close>

text \<open>Calls have different keys, and their depths are positions in the list of targets.\<close>

definition calls_inv :: "profile \<Rightarrow> bool" where
  "calls_inv p \<longleftrightarrow>
     distinct (map call_key (sp_calls p)) \<and>
     (\<forall>c \<in> set (sp_calls p). 1 \<le> cr_depth c \<and> cr_depth c \<le> length (sp_targets p))"

text \<open>The profiler has the source of a target. The invariant of a profiler that has not failed: it has all of
  them; when \<open>getsource\<close> fails, the last target is there without.\<close>

definition known_source :: "profile \<Rightarrow> func_alias \<Rightarrow> bool" where
  "known_source p t \<longleftrightarrow> map_of (sp_functions p) (fst t, fst (snd t)) \<noteq> None"

definition prof_inv :: "profile \<Rightarrow> bool" where
  "prof_inv p \<longleftrightarrow> calls_inv p \<and> (\<forall>t \<in> set (sp_targets p). known_source p t)"

definition failed_inv :: "profile \<Rightarrow> bool" where
  "failed_inv p \<longleftrightarrow> calls_inv p \<and> (\<forall>t \<in> set (butlast (sp_targets p)). known_source p t)"

definition inv_after :: "exn option \<Rightarrow> profile \<Rightarrow> bool" where
  "inv_after e p \<longleftrightarrow> failed_inv p \<and> (e = None \<longrightarrow> prof_inv p)"

lemma prof_inv_after: "prof_inv p \<Longrightarrow> inv_after e p"
  by (auto simp: inv_after_def failed_inv_def prof_inv_def dest: in_set_butlastD)

lemma prof_inv_save:
  assumes "prof_inv p" and "save_function src c (p\<lparr>sp_targets := sp_targets p @ [code_alias c]\<rparr>) = (e, p')"
  shows "inv_after e p'"
proof (cases "src c")
  case (Inl x)
  with assms show ?thesis
    by (auto simp: save_function_def inv_after_def failed_inv_def prof_inv_def calls_inv_def known_source_def le_SucI)
      force
next
  case (Inr lines)
  with assms have "prof_inv p'"
    by (auto simp: prof_inv_def calls_inv_def known_source_def save_function_def code_alias_def map_of_update le_SucI)
      force+
  then show ?thesis by (rule prof_inv_after)
qed

lemma prof_inv_save_frame:
  assumes "prof_inv p" and "save_frame src fs p = (e, p')"
  shows "inv_after e p'"
  using assms prof_inv_after [OF assms(1)] prof_inv_save [OF assms(1)]
  by (auto simp: save_frame_def frame_alias_def split: list.splits if_splits)

lemma prof_inv_trace_call:
  assumes "prof_inv p" and "1 \<le> d" "d \<le> length (sp_targets p)"
  shows "prof_inv (trace_call t f d p)"
proof (cases "find_call f d p")
  case None
  then have "frame_key f d \<notin> call_key ` set (sp_calls p)"
    using find_call_recorded [of f d p] by (simp add: recorded_def)
  with None assms show ?thesis by (auto simp: prof_inv_def calls_inv_def known_source_def trace_call_def)
next
  case (Some c)
  have "map call_key (sp_calls (update_call f d (\<lambda>c. c\<lparr>cr_ncalls := Suc (cr_ncalls c)\<rparr>) p)) =
      map call_key (sp_calls p)" by (rule update_call_keys) simp
  with Some assms show ?thesis
    by (auto simp: prof_inv_def calls_inv_def known_source_def trace_call_def update_call_def dest!: set_update_first)
qed

lemma prof_inv_end:
  assumes "prof_inv p"
  shows "prof_inv (update_call f d (\<lambda>c. c\<lparr>cr_end := t\<rparr>) p)"
proof -
  have "map call_key (sp_calls (update_call f d (\<lambda>c. c\<lparr>cr_end := t\<rparr>) p)) = map call_key (sp_calls p)"
    by (rule update_call_keys) simp
  with assms show ?thesis by (auto simp: prof_inv_def calls_inv_def known_source_def update_call_def dest!: set_update_first)
qed

lemma prof_inv_step:
  assumes "prof_inv p" and "trace_step src e p = (x, p')"
  shows "inv_after x p'"
proof -
  obtain ev frames t where e: "e = (ev, frames, t)" by (cases e)
  obtain res p1 where cd: "current_depth src ev frames p = (res, p1)"
    by (cases "current_depth src ev frames p")
  have inv: "inv_after (case res of Inl y \<Rightarrow> Some y | Inr d \<Rightarrow> None) p1"
  proof (cases "event_frame ev frames = []")
    case True
    with cd prof_inv_after [OF assms(1)] show ?thesis by (auto simp: current_depth_def)
  next
    case False
    obtain y q where "save_frame src (event_frame ev frames) p = (y, q)"
      by (cases "save_frame src (event_frame ev frames) p")
    with False cd prof_inv_save_frame [OF assms(1) this] show ?thesis
      by (auto simp: current_depth_def inv_after_def split: option.splits sum.splits)
  qed
  show ?thesis
  proof (cases res)
    case (Inl y)
    with inv assms e cd prof_inv_after [OF assms(1)] show ?thesis by (auto simp: trace_step_def split: if_splits)
  next
    case (Inr d)
    then have ok: "prof_inv p1" using inv by (simp add: inv_after_def)
    have "1 \<le> k \<and> k \<le> length (sp_targets p1)" if "d = Some k" for k
      using cd Inr that
      by (auto simp: current_depth_def Let_def split: if_splits prod.splits option.splits dest: target_depth_bounds)
    then have "prof_inv p'"
      using assms e cd Inr ok
      by (auto simp: trace_step_def Let_def prof_inv_trace_call prof_inv_end split: if_splits option.splits)
    then show ?thesis by (rule prof_inv_after)
  qed
qed

lemma prof_inv_events:
  "prof_inv p \<Longrightarrow> trace_events src es p = (x, p') \<Longrightarrow> inv_after x p'"
proof (induction es arbitrary: p)
  case Nil
  then show ?case by (simp add: prof_inv_after)
next
  case (Cons e es)
  obtain y q where step: "trace_step src e p = (y, q)" by (cases "trace_step src e p")
  note inv = prof_inv_step [OF Cons.prems(1) step]
  show ?case
  proof (cases y)
    case None
    with inv have "prof_inv q" by (simp add: inv_after_def)
    with Cons.IH Cons.prems(2) step None show ?thesis by simp
  next
    case (Some z)
    with inv step Cons.prems(2) show ?thesis by simp
  qed
qed

lemma trace_events_induct:
  assumes "P p" and "\<And>e p. P p \<Longrightarrow> P (snd (trace_step src e p))"
  shows "P (snd (trace_events src es p))"
  using assms(1)
proof (induction es arbitrary: p)
  case Nil
  then show ?case by simp
next
  case (Cons e es)
  have "P (snd (trace_step src e p))" using Cons.prems by (rule assms(2))
  with Cons.IH show ?case by (cases "trace_step src e p") (auto split: option.split)
qed

lemma targets_bound:
  assumes "sp_depth p = depth"
  shows "int (length (sp_targets (snd (trace_events src es p)))) \<le> int (length (sp_targets p)) + int (length es)"
    and "int (length (sp_targets p)) \<le> depth \<Longrightarrow> int (length (sp_targets (snd (trace_events src es p)))) \<le> depth"
proof -
  have step: "length (sp_targets (snd (trace_step src e q))) \<le> Suc (length (sp_targets q))" for e q
    using trace_step_targets [of src e q] by auto
  show "int (length (sp_targets (snd (trace_events src es p)))) \<le> int (length (sp_targets p)) + int (length es)"
  proof (induction es arbitrary: p)
    case (Cons e es)
    obtain y q where q: "trace_step src e p = (y, q)" by (cases "trace_step src e p")
    with step [of e p] Cons.IH [of q] show ?case by (cases y) auto
  qed simp
next
  assume "int (length (sp_targets p)) \<le> depth"
  with assms have "int (length (sp_targets p)) \<le> sp_depth p \<and> sp_depth p = depth" by simp
  then have "int (length (sp_targets (snd (trace_events src es p)))) \<le> sp_depth (snd (trace_events src es p)) \<and>
      sp_depth (snd (trace_events src es p)) = depth"
  proof (rule trace_events_induct)
    fix e and q :: profile
    assume "int (length (sp_targets q)) \<le> sp_depth q \<and> sp_depth q = depth"
    then show "int (length (sp_targets (snd (trace_step src e q)))) \<le> sp_depth (snd (trace_step src e q)) \<and>
        sp_depth (snd (trace_step src e q)) = depth"
      using trace_step_targets [of src e q] trace_step_depth [of src e q] by (auto simp: full_def)
  qed
  then show "int (length (sp_targets (snd (trace_events src es p)))) \<le> depth" by simp
qed

section \<open>Well-nested events\<close>

text \<open>The events of a function with code \<open>c\<close> called from the frames \<open>st\<close>, and of what it calls. A C
  function may call back. \<open>A\<close> has the code that may run.\<close>

inductive nested ::
  "code_obj set \<Rightarrow> code_obj \<Rightarrow> frame list \<Rightarrow> (trace_event \<times> frame list \<times> int) list \<Rightarrow> bool" for A where
  nothing: "nested A c st []"
| c_call: "nested A c st es1 \<Longrightarrow> nested A c st es2 \<Longrightarrow> ev = T_c_return \<or> ev = T_c_exception \<Longrightarrow>
    nested A c st
      ((T_c_call, \<lparr>fr_code = c, fr_line = l\<rparr> # st, ta) # es1 @
       (ev, \<lparr>fr_code = c, fr_line = l\<rparr> # st, tb) # es2)"
| py_call: "g \<in> A \<Longrightarrow> nested A g (\<lparr>fr_code = c, fr_line = l\<rparr> # st) es1 \<Longrightarrow> nested A c st es2 \<Longrightarrow>
    nested A c st
      ((T_call, \<lparr>fr_code = g, fr_line = la\<rparr> # \<lparr>fr_code = c, fr_line = l\<rparr> # st, ta) # es1 @
       (T_return, \<lparr>fr_code = g, fr_line = lb\<rparr> # \<lparr>fr_code = c, fr_line = l\<rparr> # st, tb) # es2)"

text \<open>Recursion is counted up to a frame of other code.\<close>

definition stops :: "code_obj set \<Rightarrow> frame list \<Rightarrow> bool" where
  "stops A st \<longleftrightarrow> (\<exists>f \<in> set st. frame_alias f \<notin> code_alias ` A)"

lemma same_callers_stops:
  assumes "stops A st" and "frame_alias f \<in> code_alias ` A"
  shows "\<exists>d. same_callers (f # st) = Inr d"
  using assms
proof (induction st arbitrary: f)
  case Nil
  then show ?case by (simp add: stops_def)
next
  case (Cons caller st)
  show ?case
  proof (cases "frame_alias f = frame_alias caller")
    case True
    with Cons.prems have "stops A st" "frame_alias caller \<in> code_alias ` A" by (auto simp: stops_def)
    with Cons.IH True show ?thesis by fastforce
  qed simp
qed

lemma same_callers_line: "frame_alias f = frame_alias f' \<Longrightarrow> same_callers (f # st) = same_callers (f' # st)"
  by (cases st) simp_all

text \<open>What tracing keeps: targets are only added, and none when there are enough; no call is
  forgotten.\<close>

definition extends :: "profile \<Rightarrow> profile \<Rightarrow> bool" where
  "extends p p' \<longleftrightarrow>
     sp_depth p' = sp_depth p \<and> (\<exists>xs. sp_targets p' = sp_targets p @ xs \<and> (full p \<longrightarrow> xs = [])) \<and>
     (\<forall>k. recorded p k \<longrightarrow> recorded p' k)"

lemma extends_refl [simp]: "extends p p"
  by (simp add: extends_def)

lemma full_cong: "sp_targets p' = sp_targets p \<Longrightarrow> sp_depth p' = sp_depth p \<Longrightarrow> full p' = full p"
  by (simp add: full_def)

lemma extends_full: "extends p p' \<Longrightarrow> full p \<Longrightarrow> full p' \<and> sp_targets p' = sp_targets p"
  by (auto simp: extends_def full_def)

lemma extends_trans:
  assumes "extends p q" and "extends q r"
  shows "extends p r"
proof -
  obtain xs ys where "sp_targets q = sp_targets p @ xs" "full p \<longrightarrow> xs = []"
      "sp_targets r = sp_targets q @ ys" "full q \<longrightarrow> ys = []"
    using assms by (auto simp: extends_def)
  moreover have "full p \<longrightarrow> full q" using extends_full [OF assms(1)] by blast
  ultimately have "sp_targets r = sp_targets p @ (xs @ ys) \<and> (full p \<longrightarrow> xs @ ys = [])" by auto
  with assms show ?thesis unfolding extends_def by fastforce
qed

lemma extends_count: "extends p p' \<Longrightarrow> count_list (sp_targets p) x \<le> count_list (sp_targets p') x"
  by (auto simp: extends_def count_list_append)

lemma extends_same_targets:
  "sp_depth p' = sp_depth p \<Longrightarrow> sp_targets p' = sp_targets p \<Longrightarrow> (\<And>k. recorded p k \<Longrightarrow> recorded p' k) \<Longrightarrow>
   extends p p'"
  by (auto simp: extends_def)

text \<open>A frame whose function is a target as often as it is on top of the frames.\<close>

definition counted :: "profile \<Rightarrow> frame list \<Rightarrow> bool" where
  "counted p st \<longleftrightarrow>
     (\<exists>d. same_callers st = Inr d \<and> d < count_list (sp_targets p) (frame_alias (hd st)))"

lemma counted_extends: "counted p st \<Longrightarrow> extends p p' \<Longrightarrow> counted p' st"
  using extends_count [of p p' "frame_alias (hd st)"] by (auto simp: counted_def)

lemma counted_target: "counted p st \<Longrightarrow> frame_alias (hd st) \<in> set (sp_targets p)"
  by (metis counted_def count_notin less_nat_zero_code)

text \<open>A function is ready to run: the profiler has enough targets, or the caller is one and will make
  the function another, or the function is one already.\<close>

definition ready :: "profile \<Rightarrow> code_obj \<Rightarrow> frame list \<Rightarrow> bool" where
  "ready p c st \<longleftrightarrow>
     st \<noteq> [] \<and>
     (full p \<or> counted p st \<or> code_alias c \<in> set (sp_targets p) \<and> frame_alias (hd st) \<noteq> code_alias c)"

lemma ready_extends: "ready p c st \<Longrightarrow> extends p p' \<Longrightarrow> ready p' c st"
  by (auto simp: ready_def dest: extends_full counted_extends) (auto simp: extends_def)

lemma frame_alias_make [simp]: "frame_alias \<lparr>fr_code = c, fr_line = l\<rparr> = code_alias c"
  by (simp add: frame_alias_def)

definition has_sources :: "sources \<Rightarrow> code_obj set \<Rightarrow> bool" where
  "has_sources src A \<longleftrightarrow> (\<forall>c \<in> A. src c \<in> range Inr)"

text \<open>After the first event of a function, the profiler has enough targets or counts its frame.\<close>

lemma save_frame_counted:
  assumes "ready p c st" and "stops A st" and "c \<in> A" and "has_sources src A"
    and f: "f = \<lparr>fr_code = c, fr_line = l\<rparr>"
  shows "\<exists>p'. save_frame src (f # st) p = (None, p') \<and> extends p p' \<and> (full p \<or> counted p' (f # st)) \<and>
    set (sp_targets p') \<subseteq> insert (code_alias c) (set (sp_targets p))"
proof -
  obtain caller rest where st: "st = caller # rest" using assms(1) by (cases st) (auto simp: ready_def)
  obtain lines where lines: "src c = Inr lines" using assms(3,4) by (auto simp: has_sources_def)
  obtain d where d: "same_callers (f # st) = Inr d"
    using same_callers_stops [OF assms(2)] assms(3) by (fastforce simp: f)
  show ?thesis
  proof (cases "full p")
    case True
    then show ?thesis by (simp add: save_frame_def full_def) auto
  next
    case False
    show ?thesis
    proof (cases "frame_alias caller \<in> set (sp_targets p)")
      case True
      let ?p = "snd (save_frame src (f # st) p)"
      have saved: "save_frame src (f # st) p = (None, ?p)" "sp_targets ?p = sp_targets p @ [code_alias c]"
        "sp_depth ?p = sp_depth p" "sp_calls ?p = sp_calls p"
        using False True lines by (simp_all add: save_frame_def full_def st save_function_def f)
      have "count_list (sp_targets ?p) (code_alias c) = Suc (count_list (sp_targets p) (code_alias c))"
        unfolding saved(2) by (simp add: count_list_append)
      moreover have "d < Suc (count_list (sp_targets p) (code_alias c))"
      proof (cases "frame_alias caller = code_alias c")
        case True
        with False assms(1) have "counted p st" by (auto simp: ready_def st)
        with True d show ?thesis by (cases "same_callers st") (auto simp: counted_def st f)
      next
        case False
        with d show ?thesis by (auto simp: st f)
      qed
      ultimately have "d < count_list (sp_targets ?p) (code_alias c)" by simp
      moreover have "extends p ?p"
        using False saved by (auto simp: extends_def recorded_def)
      ultimately show ?thesis using saved d by (intro exI [of _ ?p]) (auto simp: counted_def f)
    next
      case not_caller: False
      with assms(1) False have "code_alias c \<in> set (sp_targets p)" "frame_alias caller \<noteq> code_alias c"
        by (auto simp: ready_def st dest: counted_target)
      then have "counted p (f # st)"
        by (simp add: counted_def f st count_list_0_iff zero_less_iff_neq_zero [symmetric])
          (metis count_list_0_iff gr0I)
      with not_caller False show ?thesis
        by (intro exI [of _ p]) (auto simp: save_frame_def full_def st)
    qed
  qed
qed

text \<open>The depth that a call was recorded under is the one found at the return.\<close>

lemma target_depth_stable:
  assumes "full p \<or> counted p (f # st)" and "extends p p'" and "\<exists>d. same_callers (f # st) = Inr d"
    and "target_depth (f # st) (sp_targets p') = Inr (Some d)"
  shows "target_depth (f # st) (sp_targets p) = Inr (Some d)"
proof (cases "full p")
  case True
  with assms(2,4) show ?thesis by (simp add: extends_full)
next
  case False
  obtain e where e: "same_callers (f # st) = Inr e" "e < count_list (sp_targets p) (frame_alias f)"
    using assms(1) False by (auto simp: counted_def)
  obtain xs where xs: "sp_targets p' = sp_targets p @ xs" using assms(2) by (auto simp: extends_def)
  let ?n = "count_list (sp_targets p) (frame_alias f)" and ?m = "count_list (sp_targets p') (frame_alias f)"
  have m: "?m = ?n + count_list xs (frame_alias f)" by (simp add: xs count_list_append)
  show ?thesis
  proof (cases "1 < ?m")
    case True
    with assms(4) e m have "e = d" "e \<noteq> 0"
      by (auto simp: target_depth_def Let_def depth_at_recursion_def split: if_splits)
    moreover have "frame_alias f \<in> set (sp_targets p)"
      using e(2) by (metis count_notin less_nat_zero_code)
    ultimately show ?thesis using e by (simp add: target_depth_def Let_def depth_at_recursion_def)
  next
    case False
    with e m have "count_list xs (frame_alias f) = 0" "?n = 1" by linarith+
    then have "indexes_of (frame_alias f) (sp_targets p') = indexes_of (frame_alias f) (sp_targets p)"
      by (simp add: xs indexes_of_append count_list_0_iff flip: indexes_of_Nil)
    with assms(4) False \<open>?n = 1\<close> show ?thesis by (simp add: target_depth_def Let_def)
  qed
qed

lemma trace_events_append:
  "trace_events src (es @ fs) p =
     (case trace_events src es p of
        (Some x, p') \<Rightarrow> (Some x, p')
      | (None, p') \<Rightarrow> trace_events src fs p')"
  by (induction es arbitrary: p) (auto split: prod.splits option.splits)

lemma trace_events_one: "trace_step src e p = (None, p') \<Longrightarrow> trace_events src (e # es) p = trace_events src es p'"
  by simp

lemma target_depth_Inr:
  "same_callers fs = Inr d \<Longrightarrow> \<exists>v. target_depth fs targets = Inr v"
  by (simp add: target_depth_def depth_at_recursion_def Let_def)

text \<open>One event of a function that is ready.\<close>

lemma event_traced:
  assumes "ready p c st" and "stops A st" and "c \<in> A" and "has_sources src A"
    and f: "f = \<lparr>fr_code = c, fr_line = l\<rparr>" and fs: "event_frame ev frames = f # st" "frames \<noteq> []"
    and known: "\<And>p' d. extends p p' \<Longrightarrow> sp_calls p' = sp_calls p \<Longrightarrow> \<not> is_call ev \<Longrightarrow>
      target_depth (f # st) (sp_targets p') = Inr (Some d) \<Longrightarrow> recorded p' (frame_key f d)"
  shows "\<exists>p'. trace_step src (ev, frames, t) p = (None, p') \<and> extends p p' \<and> (full p' \<or> counted p' (f # st)) \<and>
    (\<forall>d. is_call ev \<longrightarrow> target_depth (f # st) (sp_targets p') = Inr (Some d) \<longrightarrow> recorded p' (frame_key f d))"
proof -
  obtain p1 where p1: "save_frame src (f # st) p = (None, p1)" "extends p p1" "full p \<or> counted p1 (f # st)"
    using save_frame_counted [OF assms(1-4) f] by blast
  have ok: "full p1 \<or> counted p1 (f # st)" using p1(2,3) extends_full by blast
  have calls: "sp_calls p1 = sp_calls p" using p1(1) by (rule save_frame_targets)
  obtain e where "same_callers (f # st) = Inr e"
    using same_callers_stops [OF assms(2)] assms(3) by (fastforce simp: f)
  then obtain v where v: "target_depth (f # st) (sp_targets p1) = Inr v" using target_depth_Inr by blast
  have step: "trace_step src (ev, frames, t) p =
      (case v of None \<Rightarrow> (None, p1)
       | Some d \<Rightarrow>
           if is_call ev then (None, trace_call t f d p1)
           else (case find_call f d p1 of
                   None \<Rightarrow> (Some AttributeError, p1)
                 | Some c \<Rightarrow> (None, update_call f d (\<lambda>c. c\<lparr>cr_end := t\<rparr>) p1)))"
    using fs p1(1) v by (simp add: trace_step_def current_depth_def split: option.split)
  show ?thesis
  proof (cases v)
    case None
    with step p1(2) ok v show ?thesis by simp
  next
    case (Some d)
    define p2 where "p2 = (if is_call ev then trace_call t f d p1 else update_call f d (\<lambda>c. c\<lparr>cr_end := t\<rparr>) p1)"
    have "\<not> is_call ev \<Longrightarrow> find_call f d p1 \<noteq> None"
      using known [OF p1(2) calls] v Some by (simp add: find_call_recorded)
    then have "trace_step src (ev, frames, t) p = (None, p2)"
      using step Some by (cases "is_call ev") (auto simp: p2_def split: option.split)
    moreover have same: "sp_targets p2 = sp_targets p1" "sp_depth p2 = sp_depth p1"
      by (simp_all add: p2_def)
    have "recorded p1 k \<Longrightarrow> recorded p2 k" for k
      by (simp add: p2_def recorded_trace_call recorded_update)
    with same have p2: "extends p1 p2" by (intro extends_same_targets)
    moreover have "extends p p2" using p1(2) p2 by (rule extends_trans)
    moreover have "full p2 \<or> counted p2 (f # st)"
      using ok p2 by (blast dest: extends_full intro: counted_extends)
    moreover have "recorded p2 (frame_key f d')" if "is_call ev" "target_depth (f # st) (sp_targets p2) = Inr (Some d')" for d'
      using that v Some same by (simp add: p2_def recorded_trace_call)
    ultimately show ?thesis by (intro exI [of _ p2]) blast
  qed
qed

text \<open>A call, whatever happens inside, and the return.\<close>

lemma call_traced:
  assumes "ready p c st" and "stops A st" and "c \<in> A" and src: "has_sources src A"
    and f: "f = \<lparr>fr_code = c, fr_line = l\<rparr>"
    and call: "event_frame ev1 frames1 = f # st" "frames1 \<noteq> []" "is_call ev1"
    and ret: "event_frame ev2 frames2 = f # st" "frames2 \<noteq> []"
    and inside: "\<And>q. extends p q \<Longrightarrow> full q \<or> counted q (f # st) \<Longrightarrow>
      \<exists>q'. trace_events src es q = (None, q') \<and> extends q q'"
  shows "\<exists>p'. trace_events src ((ev1, frames1, t1) # es @ [(ev2, frames2, t2)]) p = (None, p') \<and> extends p p'"
proof -
  obtain e where e: "same_callers (f # st) = Inr e"
    using same_callers_stops [OF assms(2)] assms(3) by (fastforce simp: f)
  obtain p1 where p1: "trace_step src (ev1, frames1, t1) p = (None, p1)" "extends p p1"
      "full p1 \<or> counted p1 (f # st)"
      "\<And>d. target_depth (f # st) (sp_targets p1) = Inr (Some d) \<Longrightarrow> recorded p1 (frame_key f d)"
    using event_traced [OF assms(1-4) f call(1,2)] call(3) by blast
  obtain p2 where p2: "trace_events src es p1 = (None, p2)" "extends p1 p2"
    using inside [OF p1(2,3)] by blast
  have ready: "ready p2 c st"
    using ready_extends [OF assms(1)] extends_trans [OF p1(2) p2(2)] by blast
  have "recorded q (frame_key f d)"
    if q: "extends p2 q" "target_depth (f # st) (sp_targets q) = Inr (Some d)" for q d
  proof -
    have "extends p1 q" using p2(2) q(1) by (rule extends_trans)
    moreover have "target_depth (f # st) (sp_targets p1) = Inr (Some d)"
      using e q(2) by (intro target_depth_stable [OF p1(3) \<open>extends p1 q\<close>]) auto
    ultimately show ?thesis using p1(4) unfolding extends_def by blast
  qed
  then obtain p3 where p3: "trace_step src (ev2, frames2, t2) p2 = (None, p3)" "extends p2 p3"
    using event_traced [OF ready assms(2,3) src f ret] by blast
  have "extends p p3" using p1(2) p2(2) p3(2) by (blast intro: extends_trans)
  moreover have "trace_events src ((ev1, frames1, t1) # es @ [(ev2, frames2, t2)]) p = (None, p3)"
    using p1(1) p2(1) p3(1) by (simp add: trace_events_append)
  ultimately show ?thesis by blast
qed

lemma nested_traced:
  assumes "nested A c st es" and "has_sources src A"
    and "c \<in> A" and "stops A st" and "ready p c st"
  shows "\<exists>p'. trace_events src es p = (None, p') \<and> extends p p'"
  using assms(1,3-)
proof (induction arbitrary: p)
  case (nothing c st)
  then show ?case by simp
next
  case (c_call c st es1 es2 ev l t1 t2)
  let ?f = "\<lparr>fr_code = c, fr_line = l\<rparr>"
  have "\<exists>q'. trace_events src es1 q = (None, q') \<and> extends q q'" if "extends p q" for q
    using c_call.IH(1) c_call.prems ready_extends that by blast
  then obtain p1 where p1: "trace_events src ((T_c_call, ?f # st, t1) # es1 @ [(ev, ?f # st, t2)]) p = (None, p1)"
      "extends p p1"
    using call_traced [OF c_call.prems(3,2,1) assms(2) refl, of T_c_call "?f # st" l ev "?f # st" es1 t1 t2] c_call.hyps(3)
    by (auto simp: event_frame_def is_c_event_def is_call_def)
  obtain p2 where "trace_events src es2 p1 = (None, p2)" "extends p1 p2"
    using c_call.IH(2) c_call.prems ready_extends p1(2) by blast
  with p1 show ?case
    using trace_events_append [of src "(T_c_call, ?f # st, t1) # es1 @ [(ev, ?f # st, t2)]" es2 p]
    by (auto intro: extends_trans)
next
  case (py_call g c l st es1 es2 l1 t1 l2 t2)
  let ?f = "\<lparr>fr_code = c, fr_line = l\<rparr>" and ?g = "\<lambda>l. \<lparr>fr_code = g, fr_line = l\<rparr>"
  have "stops A (?f # st)" using py_call.prems(2) by (auto simp: stops_def)
  then have "\<exists>q'. trace_events src es1 q = (None, q') \<and> extends q q'"
    if "full q \<or> counted q (?f # st)" for q
    using py_call.IH(1) py_call.hyps(1) that by (auto simp: ready_def)
  then obtain p1 where p1: "trace_events src ((T_call, ?g l1 # ?f # st, t1) # es1 @ [(T_return, ?g l2 # ?f # st, t2)]) p = (None, p1)"
      "extends p p1"
    using call_traced [OF py_call.prems(3,2,1) assms(2) refl, of T_call "?g l1 # ?f # st" l T_return "?g l2 # ?f # st" es1 t1 t2]
    by (auto simp: event_frame_def is_c_event_def is_call_def)
  obtain p2 where "trace_events src es2 p1 = (None, p2)" "extends p1 p2"
    using py_call.IH(2) py_call.prems ready_extends p1(2) by blast
  with p1 show ?case
    using trace_events_append [of src "(T_call, ?g l1 # ?f # st, t1) # es1 @ [(T_return, ?g l2 # ?f # st, t2)]" es2 p]
    by (auto intro: extends_trans)
qed

section \<open>The table of calls as a refinement\<close>

text \<open>What the list of records stands for: a map from the lines that make calls to the time of the first
  call, of the last return, and the number of calls after the first.\<close>

type_synonym call_table = "call_key \<Rightarrow> (int \<times> int \<times> nat) option"

definition call_facts :: "call_result \<Rightarrow> int \<times> int \<times> nat" where
  "call_facts c = (cr_start c, cr_end c, cr_ncalls c)"

definition table :: "profile \<Rightarrow> call_table" where
  "table p k = map_option call_facts (find (\<lambda>c. call_key c = k) (sp_calls p))"

definition spec_call :: "call_key \<Rightarrow> int \<Rightarrow> call_table \<Rightarrow> call_table" where
  "spec_call k t m = m(k \<mapsto> (case m k of None \<Rightarrow> (t, 0, 0) | Some (s, e, n) \<Rightarrow> (s, e, Suc n)))"

definition spec_return :: "call_key \<Rightarrow> int \<Rightarrow> call_table \<Rightarrow> call_table option" where
  "spec_return k t m = (case m k of None \<Rightarrow> None | Some (s, e, n) \<Rightarrow> Some (m(k \<mapsto> (s, t, n))))"

text \<open>An event by a fixed list of targets: it fails, or it belongs to a line, or to none.\<close>

definition event_key ::
  "func_alias list \<Rightarrow> trace_event \<times> frame list \<times> int \<Rightarrow> call_key option result" where
  "event_key targets e =
     (case e of (ev, frames, t) \<Rightarrow>
        let fs = event_frame ev frames
        in if frames = [] then Inr None
           else if fs = [] then Inl AttributeError
           else map_sum id (map_option (frame_key (hd fs))) (target_depth fs targets))"

definition spec_event ::
  "func_alias list \<Rightarrow> trace_event \<times> frame list \<times> int \<Rightarrow> call_table \<Rightarrow> call_table option" where
  "spec_event targets e m =
     (case event_key targets e of
        Inl x \<Rightarrow> None
      | Inr None \<Rightarrow> Some m
      | Inr (Some k) \<Rightarrow> (case e of (ev, frames, t) \<Rightarrow>
          if is_call ev then Some (spec_call k t m) else spec_return k t m))"

lemma table_append:
  "table (p\<lparr>sp_calls := sp_calls p @ [c]\<rparr>) =
     (if table p (call_key c) = None then (table p)(call_key c \<mapsto> call_facts c) else table p)"
  by (rule ext) (auto simp: table_def find_append split: option.split)

lemma table_update_call:
  assumes "\<And>c. call_key (g c) = call_key c" and "\<And>c. call_facts (g c) = h (call_facts c)"
  shows "table (update_call f d g p) =
    (table p)(frame_key f d := map_option h (table p (frame_key f d)))"
proof
  fix k
  have "find (\<lambda>c. call_key c = k) (update_first (\<lambda>c. call_key c = j) g cs) =
      (if k = j then map_option g (find (\<lambda>c. call_key c = k) cs) else find (\<lambda>c. call_key c = k) cs)" for j cs
    by (rule find_update_first [of call_key g, OF assms(1)])
  then show "table (update_call f d g p) k =
      ((table p)(frame_key f d := map_option h (table p (frame_key f d)))) k"
    by (simp add: table_def update_call_def same_call_key option.map_comp comp_def assms(2))
qed

lemma find_call_table: "find_call f d p = None \<longleftrightarrow> table p (frame_key f d) = None"
  by (simp add: find_call_eq table_def)

lemma table_trace_call: "table (trace_call t f d p) = spec_call (frame_key f d) t (table p)"
proof (cases "find_call f d p")
  case None
  then have none: "table p (frame_key f d) = None" by (simp add: find_call_table)
  have "call_facts (create_call t f d) = (t, 0, 0)" by (simp add: call_facts_def create_call_def)
  with None none show ?thesis by (simp add: trace_call_def table_append spec_call_def)
next
  case (Some c)
  then have "table p (frame_key f d) \<noteq> None" using find_call_table [of f d p] by simp
  moreover have "table (update_call f d (\<lambda>c. c\<lparr>cr_ncalls := Suc (cr_ncalls c)\<rparr>) p) =
      (table p)(frame_key f d := map_option (\<lambda>(s, e, n). (s, e, Suc n)) (table p (frame_key f d)))"
    by (rule table_update_call) (simp_all add: call_facts_def)
  ultimately show ?thesis using Some by (auto simp: trace_call_def spec_call_def)
qed

lemma table_end:
  "table (update_call f d (\<lambda>c. c\<lparr>cr_end := t\<rparr>) p) =
     (table p)(frame_key f d := map_option (\<lambda>(s, e, n). (s, t, n)) (table p (frame_key f d)))"
  by (rule table_update_call) (simp_all add: call_facts_def)

text \<open>An event once the targets are saved.\<close>

definition trace_at :: "trace_event \<Rightarrow> frame list \<Rightarrow> int \<Rightarrow> profile \<Rightarrow> exn option \<times> profile" where
  "trace_at ev frames t p =
     (case target_depth (event_frame ev frames) (sp_targets p) of
        Inl e \<Rightarrow> (Some e, p)
      | Inr None \<Rightarrow> (None, p)
      | Inr (Some d) \<Rightarrow>
          (let f = hd (event_frame ev frames)
           in if is_call ev then (None, trace_call t f d p)
              else (case find_call f d p of
                      None \<Rightarrow> (Some AttributeError, p)
                    | Some c \<Rightarrow> (None, update_call f d (\<lambda>c. c\<lparr>cr_end := t\<rparr>) p))))"

lemma trace_step_at:
  "trace_step src (ev, frames, t) p =
     (if frames = [] then (None, p)
      else if event_frame ev frames = [] then (Some AttributeError, p)
      else (case save_frame src (event_frame ev frames) p of
              (Some x, p') \<Rightarrow> (Some x, p')
            | (None, p') \<Rightarrow> trace_at ev frames t p'))"
  by (auto simp: trace_step_def current_depth_def trace_at_def Let_def split: prod.split option.split sum.split)

lemma save_frame_full: "full p \<Longrightarrow> save_frame src fs p = (None, p)"
  by (simp add: save_frame_def full_def)

lemma trace_at_table:
  assumes "frames \<noteq> []" and "event_frame ev frames \<noteq> []"
  shows "(case trace_at ev frames t p of
            (None, p') \<Rightarrow> spec_event (sp_targets p) (ev, frames, t) (table p) = Some (table p') \<and>
                sp_targets p' = sp_targets p \<and> sp_depth p' = sp_depth p
          | (Some x, p') \<Rightarrow> spec_event (sp_targets p) (ev, frames, t) (table p) = None)"
proof -
  let ?fs = "event_frame ev frames" and ?e = "(ev, frames, t)"
  consider x where "target_depth ?fs (sp_targets p) = Inl x" | "target_depth ?fs (sp_targets p) = Inr None"
    | d where "target_depth ?fs (sp_targets p) = Inr (Some d)"
    by (cases "target_depth ?fs (sp_targets p)") fastforce+
  then show ?thesis
  proof cases
    case (3 d)
    let ?f = "hd ?fs"
    have key: "event_key (sp_targets p) ?e = Inr (Some (frame_key ?f d))"
      using 3 assms by (simp add: event_key_def)
    show ?thesis
    proof (cases "is_call ev")
      case True
      with 3 key show ?thesis by (simp add: trace_at_def spec_event_def table_trace_call Let_def)
    next
      case not_call: False
      show ?thesis
      proof (cases "find_call ?f d p")
        case None
        then have "table p (frame_key ?f d) = None" by (simp add: find_call_table)
        with 3 key not_call None show ?thesis by (simp add: trace_at_def spec_event_def spec_return_def Let_def)
      next
        case (Some c)
        then obtain s e' n where tab: "table p (frame_key ?f d) = Some (s, e', n)"
          using find_call_table [of ?f d p] by (cases "table p (frame_key ?f d)") auto
        with 3 key not_call Some show ?thesis
          by (simp add: trace_at_def spec_event_def spec_return_def table_end Let_def)
      qed
    qed
  qed (use assms in \<open>simp_all add: trace_at_def spec_event_def event_key_def Let_def\<close>)
qed

text \<open>The targets as an event finds them: while there are fewer than the depth, what a target calls is added;
  that fails without a source and without a caller.\<close>

definition spec_targets ::
  "sources \<Rightarrow> int \<Rightarrow> trace_event \<times> frame list \<times> int \<Rightarrow> func_alias list \<Rightarrow> func_alias list option" where
  "spec_targets src depth e targets =
     (case e of (ev, frames, t) \<Rightarrow>
        if frames = [] \<or> event_frame ev frames = [] \<or> int (length targets) = depth then Some targets
        else (case event_frame ev frames of
                f # caller # rest \<Rightarrow>
                  if frame_alias caller \<notin> set targets then Some targets
                  else (case src (fr_code f) of Inl x \<Rightarrow> None | Inr lines \<Rightarrow> Some (targets @ [frame_alias f]))
              | _ \<Rightarrow> None))"

text \<open>One event, and a run, on the targets and the table.\<close>

type_synonym spec_state = "func_alias list \<times> call_table"

definition spec_step ::
  "sources \<Rightarrow> int \<Rightarrow> trace_event \<times> frame list \<times> int \<Rightarrow> spec_state \<Rightarrow> spec_state option" where
  "spec_step src depth e st =
     (case spec_targets src depth e (fst st) of
        None \<Rightarrow> None
      | Some targets \<Rightarrow> map_option (Pair targets) (spec_event targets e (snd st)))"

fun spec_run ::
  "sources \<Rightarrow> int \<Rightarrow> (trace_event \<times> frame list \<times> int) list \<Rightarrow> spec_state \<Rightarrow> spec_state option" where
  "spec_run src depth [] st = Some st"
| "spec_run src depth (e # es) st =
     (case spec_step src depth e st of None \<Rightarrow> None | Some st' \<Rightarrow> spec_run src depth es st')"

definition spec_of :: "profile \<Rightarrow> spec_state" where
  "spec_of p = (sp_targets p, table p)"

lemma table_targets [simp]: "table (q\<lparr>sp_targets := a, sp_functions := b\<rparr>) = table q"
  by (rule ext) (simp add: table_def)

lemma save_frame_spec:
  assumes "frames \<noteq> []" and "event_frame ev frames \<noteq> []"
  shows "(case save_frame src (event_frame ev frames) p of
            (None, p') \<Rightarrow> spec_targets src (sp_depth p) (ev, frames, t) (sp_targets p) = Some (sp_targets p') \<and>
                table p' = table p \<and> sp_depth p' = sp_depth p
          | (Some x, p') \<Rightarrow> spec_targets src (sp_depth p) (ev, frames, t) (sp_targets p) = None)"
  using assms
  by (auto simp: save_frame_def spec_targets_def save_function_def table_def fun_eq_iff frame_alias_def
      split: list.split sum.split)

lemma trace_step_spec:
  "case trace_step src e p of
     (None, p') \<Rightarrow> spec_step src (sp_depth p) e (spec_of p) = Some (spec_of p') \<and> sp_depth p' = sp_depth p
   | (Some x, p') \<Rightarrow> spec_step src (sp_depth p) e (spec_of p) = None"
proof -
  obtain ev frames t where e: "e = (ev, frames, t)" by (cases e)
  consider "frames = []" | "frames \<noteq> []" "event_frame ev frames = []" | "frames \<noteq> []" "event_frame ev frames \<noteq> []"
    by blast
  then show ?thesis
  proof cases
    case 3
    obtain x p1 where save: "save_frame src (event_frame ev frames) p = (x, p1)"
      by (cases "save_frame src (event_frame ev frames) p")
    note grown = save_frame_spec [OF 3, where src = src and p = p and t = t] and at = trace_at_table [OF 3, where t = t and p = p1]
    show ?thesis
    proof (cases x)
      case None
      with 3 save grown at show ?thesis
        by (auto simp: e trace_step_at spec_step_def spec_of_def split: prod.split option.split)
    next
      case (Some y)
      with 3 save grown show ?thesis by (simp add: e trace_step_at spec_step_def spec_of_def)
    qed
  qed (simp_all add: e trace_step_at spec_step_def spec_targets_def spec_event_def event_key_def spec_of_def)
qed

lemma trace_step_table:
  assumes "full p" and "trace_step src e p = (None, p')"
  shows "spec_event (sp_targets p) e (table p) = Some (table p') \<and> sp_targets p' = sp_targets p \<and> full p'"
proof -
  have "spec_targets src (sp_depth p) e (sp_targets p) = Some (sp_targets p)"
    using assms(1) by (cases e) (simp add: spec_targets_def full_def)
  with trace_step_spec [where src = src and e = e and p = p] assms show ?thesis
    by (auto simp: spec_step_def spec_of_def full_def)
qed

lemma spec_event_other:
  assumes "spec_event targets e m = Some m'" and "event_key targets e \<noteq> Inr (Some k)"
  shows "m' k = m k"
  using assms
  by (cases e) (auto simp: spec_event_def spec_call_def spec_return_def split: sum.splits option.splits if_splits)

lemma spec_event_own:
  assumes "spec_event targets (ev, frames, t) m = Some m'" and "event_key targets (ev, frames, t) = Inr (Some k)"
  shows "m' k =
      (if is_call ev then Some (case m k of None \<Rightarrow> (t, 0, 0) | Some (s, e, n) \<Rightarrow> (s, e, Suc n))
       else map_option (\<lambda>(s, e, n). (s, t, n)) (m k)) \<and>
    (\<not> is_call ev \<longrightarrow> m k \<noteq> None)"
  using assms
  by (auto simp: spec_event_def spec_call_def spec_return_def split: option.splits if_splits)

text \<open>The times of the calls and returns of a line.\<close>

definition times_of ::
  "bool \<Rightarrow> func_alias list \<Rightarrow> call_key \<Rightarrow> (trace_event \<times> frame list \<times> int) list \<Rightarrow> int list" where
  "times_of call targets k es =
     map (\<lambda>(ev, frames, t). t)
       (filter (\<lambda>e. event_key targets e = Inr (Some k) \<and> is_call (fst e) = call) es)"

lemma times_of_snoc:
  "times_of call targets k (es @ [e]) = times_of call targets k es @
     (if event_key targets e = Inr (Some k) \<and> is_call (fst e) = call then [snd (snd e)] else [])"
  by (simp add: times_of_def split: prod.split)

lemma calls_recorded:
  assumes "full p" and "sp_calls p = []" and "trace_events src es p = (None, p')"
  shows "sp_targets p' = sp_targets p \<and> full p' \<and> table p' k =
    (let calls = times_of True (sp_targets p) k es; returns = times_of False (sp_targets p) k es
     in if calls = [] then None
        else Some (hd calls, if returns = [] then 0 else last returns, length calls - 1)) \<and>
    (times_of True (sp_targets p) k es = [] \<longrightarrow> times_of False (sp_targets p) k es = [])"
  using assms(3)
proof (induction es arbitrary: p' rule: rev_induct)
  case Nil
  with assms(1,2) show ?case by (simp add: times_of_def table_def)
next
  case (snoc e es)
  then obtain p1 where p1: "trace_events src es p = (None, p1)" "trace_step src e p1 = (None, p')"
    by (auto simp: trace_events_append split: prod.splits option.splits)
  note IH = snoc.IH [OF p1(1)]
  have full: "full p1" and targets: "sp_targets p1 = sp_targets p" using IH by auto
  have step: "spec_event (sp_targets p) e (table p1) = Some (table p')" "sp_targets p' = sp_targets p" "full p'"
    using trace_step_table [OF full p1(2)] targets by auto
  obtain ev frames t where e: "e = (ev, frames, t)" by (cases e)
  show ?case
  proof (cases "event_key (sp_targets p) e")
    case (Inl x)
    with step(1) show ?thesis by (simp add: spec_event_def)
  next
    case (Inr ko)
    show ?thesis
    proof (cases "ko = Some k")
      case False
      then have "table p' k = table p1 k"
        using spec_event_other [OF step(1)] Inr by simp
      with IH step(2,3) False Inr show ?thesis by (simp add: times_of_snoc Let_def)
    next
      case True
      have "table p' k =
          (if is_call ev
           then Some (case table p1 k of None \<Rightarrow> (t, 0, 0) | Some (s, e, n) \<Rightarrow> (s, e, Suc n))
           else map_option (\<lambda>(s, e, n). (s, t, n)) (table p1 k)) \<and>
          (\<not> is_call ev \<longrightarrow> table p1 k \<noteq> None)"
        using spec_event_own [OF step(1) [unfolded e]] Inr True by (simp add: e)
      with IH step(2,3) Inr True show ?thesis
        by (auto simp: times_of_snoc Let_def e split: if_splits)
    qed
  qed
qed

section \<open>Running\<close>

lemma profile_run_eq:
  assumes "add_target src func p = (None, p1)" and "body (prepare_trace current p1) (Tracing (sp_id p1)) = (res, p2, tr)"
  shows "profile_run src snap func body p current =
    (res, fst (stop_trace snap p2 tr), snd (stop_trace snap p2 tr))"
  using assms by (simp add: profile_run_def trace_wrapped_def run_traced_def prepare_trace_def split: prod.split)

section \<open>Properties\<close>

text \<open>C20: Whatever a profiled function does, and whatever the depth, the tracing of it never raises an
  exception into it: every return finds the record of its call. The events are those of nested calls,
  of any code with sources, made by any code but the one that runs the profiler.\<close>

theorem tracing_never_fails:
  assumes "add_target src (Some c) (new_profile i depth memory) = (None, p)"
    and "nested A c (base # rest) es" and "c \<in> A" and "frame_alias base \<notin> code_alias ` A"
    and "has_sources src A"
  shows "fst (trace_events src es p) = None"
proof -
  have targets: "sp_targets p = [code_alias c]"
    using assms(1) by (auto simp: add_target_def new_profile_def dest: save_function_frame)
  have "frame_alias base \<noteq> code_alias c" using assms(3,4) by auto
  then have "ready p c (base # rest)" by (simp add: ready_def targets)
  moreover have "stops A (base # rest)" using assms(4) by (simp add: stops_def)
  ultimately show ?thesis
    using nested_traced [OF assms(2,5,3)] by fastforce
qed

definition main_code :: code_obj where
  "main_code = \<lparr>cd_file = [109], cd_line = 1, cd_name = ''main''\<rparr>"

definition helper_code :: code_obj where
  "helper_code = \<lparr>cd_file = [109], cd_line = 10, cd_name = ''helper''\<rparr>"

definition run_frame :: frame where
  "run_frame = \<lparr>fr_code = \<lparr>cd_file = [112], cd_line = 180, cd_name = ''_run''\<rparr>, fr_line = 183\<rparr>"

definition sample_source :: sources where
  "sample_source c = Inr [[100], [120], [32], [121]]"

abbreviation in_main :: "int \<Rightarrow> frame list" where
  "in_main l \<equiv> [\<lparr>fr_code = main_code, fr_line = l\<rparr>, run_frame]"

abbreviation in_helper :: "int \<Rightarrow> int \<Rightarrow> frame list" where
  "in_helper l l' \<equiv> \<lparr>fr_code = helper_code, fr_line = l'\<rparr> # in_main l"

text \<open>\<open>main\<close> calls \<open>helper\<close> twice in one line; \<open>helper\<close> calls a C function.\<close>

definition sample_events :: "(trace_event \<times> frame list \<times> int) list" where
  "sample_events =
     [(T_call, in_helper 2 10, 5), (T_c_call, in_helper 2 11, 6), (T_c_return, in_helper 2 11, 7),
      (T_return, in_helper 2 11, 8), (T_call, in_helper 2 10, 9), (T_return, in_helper 2 11, 12)]"

definition sample_profile :: "int \<Rightarrow> profile" where
  "sample_profile depth = snd (add_target sample_source (Some main_code) (new_profile 0 depth False))"

lemma sample_add: "add_target sample_source (Some main_code) (new_profile 0 depth False) = (None, sample_profile depth)"
  by (simp add: sample_profile_def add_target_def save_function_def sample_source_def)

lemma sample_nested: "nested {main_code, helper_code} main_code [run_frame] sample_events"
proof -
  let ?A = "{main_code, helper_code}"
  have inner: "nested ?A helper_code (in_main 2) [(T_c_call, in_helper 2 11, 6), (T_c_return, in_helper 2 11, 7)]"
    using nested.c_call [OF nested.nothing nested.nothing, where A = ?A and c = helper_code and st = "in_main 2" and
        ev = T_c_return and l = 11 and ta = 6 and tb = 7] by simp
  have second: "nested ?A main_code [run_frame] [(T_call, in_helper 2 10, 9), (T_return, in_helper 2 11, 12)]"
    using nested.py_call [OF _ nested.nothing nested.nothing, where A = ?A and g = helper_code and c = main_code and
        l = 2 and st = "[run_frame]" and la = 10 and ta = 9 and lb = 11 and tb = 12] by simp
  show ?thesis
    using nested.py_call [OF _ inner second, where la = 10 and ta = 5 and lb = 11 and tb = 8] by (simp add: sample_events_def)
qed

theorem tracing_never_fails_witness:
  "fst (trace_events sample_source sample_events (sample_profile 2)) = None"
  by (rule tracing_never_fails [OF sample_add sample_nested])
    (simp_all add: main_code_def helper_code_def run_frame_def frame_alias_def code_alias_def has_sources_def
      sample_source_def)

text \<open>C37: The bounds of the profiler's state after any events, well nested or not, whether tracing ended with an
  exception or not: the records have different lines, and their depths are positions in the list of targets; the
  profiler has the source of every target, except of the last one if the tracing failed; and from a depth of one
  on there are never more targets than the depth, while with a depth below one their number is only bounded by
  the number of events.\<close>

theorem profile_bounds:
  assumes "add_target src (Some c) (new_profile i depth memory) = (None, p)"
    and "trace_events src es p = (x, p')"
  shows "calls_inv p' \<and>
    (\<forall>t \<in> set (if x = None then sp_targets p' else butlast (sp_targets p')). known_source p' t) \<and>
    int (length (sp_targets p')) \<le> (if 1 \<le> depth then depth else 1 + int (length es))"
proof -
  have start: "prof_inv p" "sp_targets p = [code_alias c]" "sp_depth p = depth"
    using assms(1) by (auto simp: add_target_def new_profile_def prof_inv_def calls_inv_def known_source_def
        save_function_def code_alias_def map_of_update split: sum.splits)
  have "inv_after x p'" using start(1) assms(2) by (rule prof_inv_events)
  moreover have "int (length (sp_targets p')) \<le> (if 1 \<le> depth then depth else 1 + int (length es))"
    using assms(2) start(2,3) targets_bound [of p depth src es] by (auto split: if_splits)
  ultimately show ?thesis by (auto simp: inv_after_def failed_inv_def prof_inv_def)
qed

theorem profile_bounds_witness:
  "calls_inv (snd (trace_events sample_source sample_events (sample_profile 2))) \<and>
   length (sp_targets (snd (trace_events sample_source sample_events (sample_profile 2)))) \<le> 2"
proof -
  have "trace_events sample_source sample_events (sample_profile 2) =
      (fst (trace_events sample_source sample_events (sample_profile 2)),
       snd (trace_events sample_source sample_events (sample_profile 2)))"
    by simp
  from profile_bounds [OF sample_add this] show ?thesis by simp
qed

text \<open>C21: Any run of events on the list of records is a run on a list of targets with a table from lines to times
  and counts: while there are fewer targets than the depth, what a target calls becomes one; a call adds its
  line or counts another call, a return moves the end of its line. The profiler fails exactly where the run of the
  table has no step: without a caller, without the source of a new target, and on a return without its call.\<close>

theorem profile_refines_table:
  "case trace_events src es p of
     (None, p') \<Rightarrow> spec_run src (sp_depth p) es (spec_of p) = Some (spec_of p')
   | (Some x, p') \<Rightarrow> spec_run src (sp_depth p) es (spec_of p) = None"
proof (induction es arbitrary: p)
  case Nil
  show ?case by simp
next
  case (Cons e es)
  obtain x p1 where step: "trace_step src e p = (x, p1)" by (cases "trace_step src e p")
  from trace_step_spec [where src = src and e = e and p = p] Cons.IH [of p1] step show ?case
    by (cases x) (auto split: prod.split option.split)
qed

text \<open>What a record says: the time of the first call of the line, the time of its last return, and
  one call less than there were; the time in between counts as spent in the line.\<close>

theorem call_record:
  assumes "full p" and "sp_calls p = []" and "trace_events src es p = (None, p')"
  shows "table p' k =
    (if times_of True (sp_targets p) k es = [] then None
     else Some (hd (times_of True (sp_targets p) k es),
                if times_of False (sp_targets p) k es = [] then 0 else last (times_of False (sp_targets p) k es),
                length (times_of True (sp_targets p) k es) - 1))"
  using calls_recorded [OF assms, of k] by (simp add: Let_def)

theorem call_record_witness:
  "table (snd (trace_events sample_source sample_events (sample_profile 1))) (1, [109], 2) = Some (5, 12, 1)"
proof -
  let ?p = "sample_profile 1"
  have facts: "full ?p" "sp_calls ?p = []" "sp_targets ?p = [code_alias main_code]"
    by (simp_all add: full_def sample_profile_def add_target_def new_profile_def save_function_def sample_source_def)
  have "fst (trace_events sample_source sample_events ?p) = None" by code_simp
  then have "trace_events sample_source sample_events ?p = (None, snd (trace_events sample_source sample_events ?p))"
    by (metis prod.collapse)
  from call_record [OF facts(1,2) this, of "(1, [109], 2)"] show ?thesis
    unfolding facts(3)
    by (simp add: times_of_def sample_events_def event_key_def target_depth_def indexes_of_def
        event_frame_def is_c_event_def is_call_def frame_key_def frame_alias_def code_alias_def
        main_code_def helper_code_def run_frame_def Let_def)
qed

text \<open>From a depth of three on, the end of a call can be lost: if a function called by the target
  begins with a call of a C function, the return adds the function to the targets a second time, it
  counts as recursive, and its record keeps the end zero.\<close>

theorem leaf_end_lost:
  assumes "int (length (sp_targets p)) + 1 < sp_depth p" and "frame_alias target \<in> set (sp_targets p)"
    and "frame_alias f \<notin> set (sp_targets p)" and "frame_alias target \<noteq> frame_alias f"
    and "src (fr_code f) \<in> range Inr" and "table p (frame_key f (Suc (length (sp_targets p)))) = None"
  shows "\<exists>p'. trace_events src [(T_c_call, f # target # rest, t1), (T_c_return, f # target # rest, t2)] p = (None, p') \<and>
    sp_targets p' = sp_targets p @ [frame_alias f, frame_alias f] \<and>
    table p' (frame_key f (Suc (length (sp_targets p)))) = Some (t1, 0, 0)"
proof -
  let ?fs = "f # target # rest" and ?d = "Suc (length (sp_targets p))"
  obtain lines where lines: "src (fr_code f) = Inr lines" using assms(5) by auto
  let ?save = "\<lambda>p. p\<lparr>sp_targets := sp_targets p @ [frame_alias f],
    sp_functions := AList.update (cd_file (fr_code f), cd_line (fr_code f)) lines (sp_functions p)\<rparr>"
  have save: "save_frame src ?fs q = (None, ?save q)"
    if "int (length (sp_targets q)) < sp_depth q" "frame_alias target \<in> set (sp_targets q)" for q
    using that lines by (simp add: save_frame_def save_function_def)
  let ?p1 = "trace_call t1 f ?d (?save p)" and ?p2 = "?save (trace_call t1 f ?d (?save p))"
  have none: "indexes_of (frame_alias f) (sp_targets p) = []" using assms(3) by simp
  have one: "indexes_of x [x] = [0]" for x :: func_alias by (simp add: indexes_of_def)
  have "target_depth ?fs (sp_targets (?save p)) = Inr (Some ?d)"
    by (simp add: target_depth_def indexes_of_append one none Let_def del: indexes_of_Nil)
  then have step1: "trace_step src (T_c_call, ?fs, t1) p = (None, ?p1)"
    using save [of p] assms(1,2)
    by (simp add: trace_step_def current_depth_def event_frame_def is_c_event_def is_call_def Let_def)
  have "target_depth ?fs (sp_targets ?p2) = Inr None"
    using assms(3,4) by (simp add: target_depth_def depth_at_recursion_def count_list_append Let_def)
  then have step2: "trace_step src (T_c_return, ?fs, t2) ?p1 = (None, ?p2)"
    using save [of ?p1] assms(1,2)
    by (simp add: trace_step_def current_depth_def event_frame_def is_c_event_def Let_def)
  have same: "table (q\<lparr>sp_targets := a, sp_functions := b\<rparr>) = table q" for q :: profile and a b
    by (rule ext) (simp add: table_def)
  have "table ?p2 (frame_key f ?d) = Some (t1, 0, 0)"
    using assms(6) by (simp add: same table_trace_call spec_call_def del: fun_upd_apply) simp
  with step1 step2 show ?thesis by (intro exI [of _ ?p2]) simp
qed

theorem leaf_end_lost_witness:
  "\<exists>p'. trace_events sample_source
      [(T_c_call, in_helper 2 11, 6), (T_c_return, in_helper 2 11, 7)] (sample_profile 3) = (None, p') \<and>
    sp_targets p' = sp_targets (sample_profile 3) @ [code_alias helper_code, code_alias helper_code] \<and>
    table p' (frame_key \<lparr>fr_code = helper_code, fr_line = 11\<rparr> (Suc (length (sp_targets (sample_profile 3))))) =
      Some (6, 0, 0)"
  using leaf_end_lost [of "sample_profile 3" "\<lparr>fr_code = main_code, fr_line = 2\<rparr>"
      "\<lparr>fr_code = helper_code, fr_line = 11\<rparr>" sample_source "[run_frame]" 6 7]
  by (simp add: sample_profile_def add_target_def new_profile_def save_function_def sample_source_def
      main_code_def helper_code_def code_alias_def table_def)

text \<open>A profiled call gives what the function gives and puts the interpreter's profile function back
  as it was, also after an exception; but a profiler works once: after a second run it stays
  installed.\<close>

theorem profiler_runs_once:
  assumes "add_target src func p = (None, p1)"
    and "body (prepare_trace current p1) (Tracing (sp_id p1)) = (res, p2, Tracing (sp_id p1))"
    and "sp_orig p2 = current" and "sp_stop p2 = sp_stop p"
  shows "fst (profile_run src snap func body p current) = res \<and>
    sp_stop (fst (snd (profile_run src snap func body p current))) \<and>
    snd (snd (profile_run src snap func body p current)) = (if sp_stop p then Tracing (sp_id p1) else current)"
  using profile_run_eq [of src func p p1 body current res p2 "Tracing (sp_id p1)" snap, OF assms(1,2)] assms(3,4)
  by (simp add: stop_trace_def)

theorem profiler_runs_once_witness:
  "fst (profile_run sample_source (\<lambda>f l. []) (Some main_code) (\<lambda>p tr. (Inl ValueError :: nat result, p, tr))
      (new_profile 7 1 False) (Foreign 3)) = Inl ValueError \<and>
   sp_stop (fst (snd (profile_run sample_source (\<lambda>f l. []) (Some main_code)
      (\<lambda>p tr. (Inl ValueError :: nat result, p, tr)) (new_profile 7 1 False) (Foreign 3)))) \<and>
   snd (snd (profile_run sample_source (\<lambda>f l. []) (Some main_code)
      (\<lambda>p tr. (Inl ValueError :: nat result, p, tr)) (new_profile 7 1 False) (Foreign 3))) = Foreign 3"
  using profiler_runs_once [of sample_source "Some main_code" "new_profile 7 1 False"
      "snd (add_target sample_source (Some main_code) (new_profile 7 1 False))"
      "\<lambda>p tr. (Inl ValueError :: nat result, p, tr)" "Foreign 3"]
  by (simp add: add_target_def save_function_def sample_source_def new_profile_def prepare_trace_def)

end
