(* ===== verification/Profiler_Lines.thy ===== *)
theory Profiler_Lines
  imports Profiler_Events
begin

text \<open>
  What \<open>SimpleProfile.get_lines\<close> and \<open>print_result\<close> report: every recorded call and every line of a
  target that is not blank, once, in order.
\<close>

section \<open>The lines of a function\<close>

definition memory_ready :: "profile \<Rightarrow> bool" where
  "memory_ready p \<longleftrightarrow> (sp_memory p \<longrightarrow> sp_snapshot p \<noteq> None)"

lemma memory_for_call_ready: "memory_ready p \<Longrightarrow> \<exists>m. memory_for_call p c = Inr m"
  by (auto simp: memory_ready_def memory_for_call_def split: option.split)

text \<open>The keys of the lines, in the order of the source.\<close>

fun function_keys :: "nat \<Rightarrow> pystr \<Rightarrow> int \<Rightarrow> int \<Rightarrow> pystr list \<Rightarrow> line_key list" where
  "function_keys depth file first lineno [] = []"
| "function_keys depth file first lineno (s # rest) =
     (if blank_line s then [] else [(lineno + first, file, depth)]) @
     function_keys depth file first (lineno + 1) rest"

fun target_keys :: "profile \<Rightarrow> nat \<Rightarrow> func_alias list \<Rightarrow> line_key list" where
  "target_keys p depth [] = []"
| "target_keys p depth ((file, first, name) # targets) =
     (case map_of (sp_functions p) (file, first) of
        None \<Rightarrow> []
      | Some source \<Rightarrow> function_keys depth file first 1 (drop 1 source)) @
     target_keys p (Suc depth) targets"

text \<open>A dictionary of lines is keyed by what its values say, and growing keeps what was measured.\<close>

definition keyed :: "(line_key \<times> call_result) list \<Rightarrow> bool" where
  "keyed lines \<longleftrightarrow> distinct (map fst lines) \<and> (\<forall>(k, c) \<in> set lines. line_key c = k)"

definition keeps :: "(line_key \<times> call_result) list \<Rightarrow> (line_key \<times> call_result) list \<Rightarrow> bool" where
  "keeps lines lines' \<longleftrightarrow>
     (\<forall>k c. map_of lines k = Some c \<longrightarrow> (\<exists>c'. map_of lines' k = Some c' \<and> call_facts c' = call_facts c))"

lemma keeps_refl [simp]: "keeps lines lines"
  by (simp add: keeps_def)

lemma keeps_trans:
  assumes "keeps a b" and "keeps b c"
  shows "keeps a c"
  unfolding keeps_def
proof (intro allI impI)
  fix k x assume "map_of a k = Some x"
  with assms(1) obtain y where "map_of b k = Some y" "call_facts y = call_facts x" unfolding keeps_def by blast
  with assms(2) show "\<exists>z. map_of c k = Some z \<and> call_facts z = call_facts x" unfolding keeps_def by metis
qed

lemma keyed_update: "keyed lines \<Longrightarrow> line_key c = k \<Longrightarrow> keyed (AList.update k c lines)"
proof -
  assume lines: "keyed lines" and k: "line_key c = k"
  have "(k', c') \<in> set (AList.update k c lines) \<Longrightarrow> (k', c') \<in> set lines \<or> (k', c') = (k, c)" for k' c'
    by (induction lines) (auto split: if_splits)
  with lines k show ?thesis by (fastforce simp: keyed_def)
qed

lemma keyed_lookup: "keyed lines \<Longrightarrow> map_of lines k = Some c \<Longrightarrow> line_key c = k"
  by (auto simp: keyed_def dest!: map_of_SomeD)

lemma line_entry_ok:
  assumes "memory_ready p" and "keyed lines"
  shows "\<exists>line. line_entry p depth file first lineno lines = Inr line \<and>
    line_key line = (lineno + first, file, depth) \<and>
    keeps lines (AList.update (lineno + first, file, depth) line lines)"
proof -
  let ?k = "(lineno + first, file, depth)"
  define line where "line = (case map_of lines ?k of
      None \<Rightarrow>
        \<lparr>cr_line = lineno + first, cr_caller = first, cr_file = file, cr_depth = depth,
         cr_start = 0, cr_end = 0, cr_ncalls = 0, cr_mem = 0\<rparr>
    | Some line \<Rightarrow> line\<lparr>cr_depth := depth\<rparr>)"
  obtain m where m: "memory_for_call p line = Inr m" using memory_for_call_ready [OF assms(1)] by blast
  have key: "line_key line = ?k"
  proof (cases "map_of lines ?k")
    case None
    then show ?thesis by (simp add: line_def line_key_def)
  next
    case (Some c)
    then have "line_key c = ?k" by (rule keyed_lookup [OF assms(2)])
    with Some show ?thesis by (simp add: line_def line_key_def)
  qed
  have "call_facts c = call_facts line" if "map_of lines ?k = Some c" for c
    using that by (simp add: line_def call_facts_def)
  then have "keeps lines (AList.update ?k (line\<lparr>cr_mem := m\<rparr>) lines)"
    by (auto simp: keeps_def map_of_update call_facts_def)
  moreover have "line_entry p depth file first lineno lines = Inr (line\<lparr>cr_mem := m\<rparr>)"
    unfolding line_entry_def Let_def line_def [symmetric] using m by simp
  moreover have "line_key (line\<lparr>cr_mem := m\<rparr>) = ?k" using key by (simp add: line_key_def)
  ultimately show ?thesis by blast
qed

lemma function_lines_ok:
  assumes "memory_ready p" and "keyed lines"
  shows "\<exists>lines'. function_lines p depth file first lineno texts lines = Inr lines' \<and> keyed lines' \<and>
    keeps lines lines' \<and>
    fst ` set lines' = fst ` set lines \<union> set (function_keys depth file first lineno texts)"
  using assms(2)
proof (induction texts arbitrary: lineno lines)
  case Nil
  then show ?case by simp
next
  case (Cons s texts)
  show ?case
  proof (cases "blank_line s")
    case True
    with Cons.IH [OF Cons.prems, of "lineno + 1"] show ?thesis by simp
  next
    case False
    let ?k = "(lineno + first, file, depth)"
    obtain line where line: "line_entry p depth file first lineno lines = Inr line" "line_key line = ?k"
        "keeps lines (AList.update ?k line lines)"
      using line_entry_ok [OF assms(1) Cons.prems] by blast
    have "keyed (AList.update ?k line lines)" using Cons.prems line(2) by (rule keyed_update)
    from Cons.IH [OF this, of "lineno + 1"] obtain lines' where
      "function_lines p depth file first (lineno + 1) texts (AList.update ?k line lines) = Inr lines'"
      "keyed lines'" "keeps (AList.update ?k line lines) lines'"
      "fst ` set lines' = fst ` set (AList.update ?k line lines) \<union> set (function_keys depth file first (lineno + 1) texts)"
      by blast
    with False line show ?thesis
      by (auto simp: dom_update intro: keeps_trans)
  qed
qed

definition sourced :: "profile \<Rightarrow> func_alias list \<Rightarrow> bool" where
  "sourced p targets \<longleftrightarrow> (\<forall>t \<in> set targets. map_of (sp_functions p) (fst t, fst (snd t)) \<noteq> None)"

lemma target_lines_ok:
  assumes "memory_ready p" and "sourced p targets" and "keyed lines"
  shows "\<exists>lines'. target_lines p depth targets lines = Inr lines' \<and> keyed lines' \<and> keeps lines lines' \<and>
    fst ` set lines' = fst ` set lines \<union> set (target_keys p depth targets)"
  using assms(2,3)
proof (induction targets arbitrary: depth lines)
  case Nil
  then show ?case by simp
next
  case (Cons t targets)
  obtain fl first name where t: "t = (fl, first, name)" by (cases t)
  obtain source where source: "map_of (sp_functions p) (fl, first) = Some source"
    using Cons.prems(1) by (auto simp: sourced_def t)
  obtain lines1 where l1: "function_lines p depth fl first 1 (drop 1 source) lines = Inr lines1"
      "keyed lines1" "keeps lines lines1"
      "fst ` set lines1 = fst ` set lines \<union> set (function_keys depth fl first 1 (drop 1 source))"
    using function_lines_ok [OF assms(1) Cons.prems(2)] by blast
  have "sourced p targets" using Cons.prems(1) by (simp add: sourced_def)
  from Cons.IH [OF this l1(2), of "Suc depth"] obtain lines2 where
    "target_lines p (Suc depth) targets lines1 = Inr lines2" "keyed lines2" "keeps lines1 lines2"
    "fst ` set lines2 = fst ` set lines1 \<union> set (target_keys p (Suc depth) targets)"
    by blast
  with l1 source show ?case by (auto simp: t intro: keeps_trans)
qed

lemma call_lines_ok:
  "keyed (call_lines p) \<and> fst ` set (call_lines p) = line_key ` set (sp_calls p)"
proof -
  have "keyed d \<Longrightarrow> keyed (foldl (\<lambda>d c. AList.update (line_key c) c d) d cs) \<and>
      fst ` set (foldl (\<lambda>d c. AList.update (line_key c) c d) d cs) = fst ` set d \<union> line_key ` set cs" for d cs
    by (induction cs arbitrary: d) (auto simp: keyed_update dom_update)
  from this [of "[]"] show ?thesis by (simp add: call_lines_def keyed_def)
qed

lemma call_lines_lookup:
  assumes "prof_inv p" and "c \<in> set (sp_calls p)"
  shows "map_of (call_lines p) (line_key c) = Some c"
proof -
  let ?fill = "\<lambda>cs d. foldl (\<lambda>d c. AList.update (line_key c) c d) d cs"
  have other: "line_key c \<notin> line_key ` set cs \<Longrightarrow> map_of (?fill cs d) (line_key c) = map_of d (line_key c)" for cs d
    by (induction cs arbitrary: d) (simp_all add: map_of_update)
  have "inj_on line_key (set cs) \<Longrightarrow> distinct cs \<Longrightarrow> c \<in> set cs \<Longrightarrow> map_of (?fill cs d) (line_key c) = Some c" for cs d
  proof (induction cs arbitrary: d)
    case Nil
    then show ?case by simp
  next
    case (Cons x cs)
    show ?case
    proof (cases "x = c")
      case True
      with Cons.prems have "line_key c \<notin> line_key ` set cs" by auto
      with True show ?thesis by (simp add: other map_of_update)
    next
      case False
      with Cons show ?thesis by simp
    qed
  qed
  moreover have "inj_on call_key (set (sp_calls p))" "distinct (sp_calls p)"
    using assms(1) by (simp_all add: prof_inv_def calls_inv_def distinct_map)
  then have "inj_on line_key (set (sp_calls p))"
    by (auto simp: inj_on_def line_key_def call_key_def)
  ultimately show ?thesis using assms(2) \<open>distinct (sp_calls p)\<close> by (simp add: call_lines_def)
qed

lemma prof_inv_sourced: "prof_inv p \<Longrightarrow> sourced p (sp_targets p)"
  by (simp add: prof_inv_def sourced_def known_source_def)

section \<open>Properties\<close>

text \<open>The lines of a target that are reported: those after the first line of its source that are not blank.
  Every position in the list of targets counts, so a function that is a target several times, as recursion makes
  it, has its lines at each of its depths.\<close>

definition body_key :: "profile \<Rightarrow> nat \<Rightarrow> func_alias \<Rightarrow> line_key \<Rightarrow> bool" where
  "body_key p depth t x \<longleftrightarrow>
     (\<exists>source k. map_of (sp_functions p) (fst t, fst (snd t)) = Some source \<and>
        0 < k \<and> k < length source \<and> \<not> blank_line (source ! k) \<and> x = (fst (snd t) + int k, fst t, depth))"

definition body_keys :: "profile \<Rightarrow> line_key set" where
  "body_keys p = {x. \<exists>d < length (sp_targets p). body_key p (Suc d) (sp_targets p ! d) x}"

lemma ex_zero_Suc: "(\<exists>k. P k) \<longleftrightarrow> P 0 \<or> (\<exists>k. P (Suc k))"
  by (metis nat.exhaust)

lemma set_function_keys:
  "set (function_keys depth file first n texts) =
     {(n + int k + first, file, depth) | k. k < length texts \<and> \<not> blank_line (texts ! k)}"
proof (induction texts arbitrary: n)
  case Nil
  then show ?case by simp
next
  case (Cons s texts)
  have "(\<exists>k. x = (n + int k + first, file, depth) \<and> k < length (s # texts) \<and> \<not> blank_line ((s # texts) ! k)) \<longleftrightarrow>
      (x = (n + first, file, depth) \<and> \<not> blank_line s) \<or>
      (\<exists>k. x = (n + 1 + int k + first, file, depth) \<and> k < length texts \<and> \<not> blank_line (texts ! k))" for x
    by (subst ex_zero_Suc) (auto simp: algebra_simps)
  then show ?case using Cons.IH [of "n + 1"] by (auto simp: set_eq_iff)
qed

lemma body_key_function:
  "body_key p depth (fl, first, name) x \<longleftrightarrow>
     (\<exists>source. map_of (sp_functions p) (fl, first) = Some source \<and>
        x \<in> set (function_keys depth fl first 1 (drop 1 source)))"
proof -
  have "(\<exists>k. 0 < k \<and> k < length source \<and> \<not> blank_line (source ! k) \<and> x = (first + int k, fl, depth)) \<longleftrightarrow>
      x \<in> set (function_keys depth fl first 1 (drop 1 source))" for source
    unfolding set_function_keys by (subst ex_zero_Suc) (auto simp: algebra_simps less_diff_conv)
  then show ?thesis unfolding body_key_def by auto
qed

lemma set_target_keys:
  "x \<in> set (target_keys p depth targets) \<longleftrightarrow> (\<exists>d < length targets. body_key p (depth + d) (targets ! d) x)"
proof (induction targets arbitrary: depth)
  case Nil
  then show ?case by simp
next
  case (Cons t targets)
  obtain fl first name where t: "t = (fl, first, name)" by (cases t)
  have "(\<exists>d < length (t # targets). body_key p (depth + d) ((t # targets) ! d) x) \<longleftrightarrow>
      body_key p depth t x \<or> (\<exists>d < length targets. body_key p (Suc depth + d) (targets ! d) x)"
    by (simp only: length_Cons Ex_less_Suc2 nth_Cons_0 nth_Cons_Suc add_0_right add_Suc_right add_Suc)
  then show ?case using Cons.IH [of "Suc depth"] by (cases "map_of (sp_functions p) (fl, first)") (simp_all add: t body_key_function)
qed

lemma body_keys_targets: "set (target_keys p (Suc 0) (sp_targets p)) = body_keys p"
  unfolding set_eq_iff set_target_keys body_keys_def by simp

text \<open>C38: The report of a profiler whose state satisfies the invariant always succeeds. It is sorted by
  file, depth and line and has every line of a file at a depth once. The lines are those with a recorded call, and of
  the function of every target the lines of its body that are not blank; its first line, the \<open>def\<close> or a decorator,
  is left out. What was measured for a call is what is reported.\<close>

theorem lines_reported:
  assumes "prof_inv p" and "memory_ready p"
  shows "\<exists>ls. get_lines p = Inr ls \<and> sorted (map sort_lines ls) \<and> distinct (map line_key ls) \<and>
    line_key ` set ls = line_key ` set (sp_calls p) \<union> body_keys p \<and>
    (\<forall>c \<in> set (sp_calls p). \<exists>l \<in> set ls. line_key l = line_key c \<and> call_facts l = call_facts c)"
proof -
  obtain lines where lines: "target_lines p 1 (sp_targets p) (call_lines p) = Inr lines" "keyed lines"
      "keeps (call_lines p) lines"
      "fst ` set lines = fst ` set (call_lines p) \<union> set (target_keys p 1 (sp_targets p))"
    using target_lines_ok [OF assms(2) prof_inv_sourced [OF assms(1)] conjunct1 [OF call_lines_ok [of p]], of 1]
    by blast
  let ?ls = "sort_key sort_lines (map snd lines)"
  have keys: "map line_key (map snd lines) = map fst lines"
    using lines(2) unfolding keyed_def by (induction lines) (simp_all add: case_prod_beta)
  have "distinct (map line_key (map snd lines))"
    unfolding keys using lines(2) unfolding keyed_def by (rule conjunct1)
  then have "distinct (map line_key ?ls)"
    unfolding distinct_map [of line_key] by (simp only: set_sort distinct_sort)
  moreover have "line_key ` set ?ls = fst ` set lines"
    using arg_cong [OF keys, of set] by (simp only: set_map set_sort)
  moreover have "\<exists>l \<in> set ?ls. line_key l = line_key c \<and> call_facts l = call_facts c"
    if c: "c \<in> set (sp_calls p)" for c
  proof -
    obtain l where l: "map_of lines (line_key c) = Some l" "call_facts l = call_facts c"
      using call_lines_lookup [OF assms(1) c] lines(3) unfolding keeps_def by blast
    have "line_key l = line_key c" using lines(2) l(1) by (rule keyed_lookup)
    moreover have "l \<in> set ?ls" using image_eqI [OF _ map_of_SomeD [OF l(1)], of l snd] by simp
    ultimately show ?thesis using l(2) by blast
  qed
  ultimately show ?thesis
    using lines(1,4) call_lines_ok [of p] by (intro exI [of _ ?ls]) (simp add: get_lines_def body_keys_targets)
qed

definition sample_result :: profile where
  "sample_result = snd (trace_events sample_source sample_events (sample_profile 2))"

theorem lines_reported_witness:
  "\<exists>ls. get_lines sample_result = Inr ls \<and> sorted (map sort_lines ls) \<and> distinct (map line_key ls) \<and>
    line_key ` set ls = line_key ` set (sp_calls sample_result) \<union> body_keys sample_result \<and>
    (\<forall>c \<in> set (sp_calls sample_result). \<exists>l \<in> set ls. line_key l = line_key c \<and> call_facts l = call_facts c)"
proof (rule lines_reported)
  have "prof_inv (sample_profile 2)"
    by (simp add: sample_profile_def add_target_def new_profile_def save_function_def sample_source_def
        prof_inv_def calls_inv_def known_source_def code_alias_def)
  moreover have "fst (trace_events sample_source sample_events (sample_profile 2)) = None" by code_simp
  then have "trace_events sample_source sample_events (sample_profile 2) = (None, sample_result)"
    unfolding sample_result_def by (metis prod.collapse)
  ultimately have "inv_after None sample_result" by (rule prof_inv_events)
  then show "prof_inv sample_result" by (simp add: inv_after_def)
  show "memory_ready sample_result" unfolding memory_ready_def by code_simp
qed

end
