(* ===== verification/Cli.thy ===== *)
theory Cli
  imports Server Router "HOL-Library.List_Lexorder" "HOL-Library.Char_ord"
begin

text \<open>
  \<^verbatim>\<open>levin/components/cli.py\<close>: the command line of an application. The methods of the components that are
  marked with \<open>command\<close> become commands; the parameters of a command become options of an \<open>argparse\<close>
  parser according to their annotations and defaults; the parsed options are the arguments of the
  method.

  \<open>parse_line\<close> is what \<open>argparse\<close> makes of the options that the commands declare: positional arguments,
  optional ones (\<open>nargs="?"\<close>), flags (\<open>store_true\<close>), spelled out or abbreviated, the request for help, and
  options that it does not know. Arguments of the model are \<open>--\<close> and a few forms of options (\<open>beyond\<close>), and
  conversions other than those of plain text and decimal digits; the text of the help is not modelled.
\<close>

section \<open>Methods and options\<close>

text \<open>Annotations: a class, a generic such as \<open>Optional[str]\<close> with its arguments (\<open>None\<close> for one that is
  not a class), or anything else.\<close>

datatype pytype = Ty_bool | Ty_int | Ty_str | Ty_other nat

datatype annotation =
    No_annotation | Class_annotation pytype | Generic_annotation "pytype option list" | Other_annotation

record cli_param =
  cp_name :: name
  cp_annotation :: annotation
  cp_default :: "pyval option"

record 'm cli_method =
  me_attr :: name
  me_name :: name
  me_command :: bool
  me_params :: "cli_param list"
  me_body :: 'm

text \<open>\<open>_get_commands\<close>: \<open>inspect.getmembers\<close> sorts the members by name.\<close>

definition get_commands :: "'m cli_method list \<Rightarrow> 'm cli_method list" where
  "get_commands methods = filter me_command (sort_key me_attr methods)"

definition get_command :: "'m cli_method list \<Rightarrow> pystr \<Rightarrow> 'm cli_method option" where
  "get_command methods command_name = find (\<lambda>m. lit (me_name m) = command_name) (get_commands methods)"

text \<open>What \<open>_get_for_type\<close> yields, as \<open>add_argument\<close> takes it: a flag, a positional argument that may be
  left out, or one that must be given.\<close>

datatype cli_option = Flag name "pyval option" | Optional_arg name pytype pyval | Required_arg name pytype

definition get_for_type :: "pytype \<Rightarrow> cli_param \<Rightarrow> cli_option" where
  "get_for_type ty p =
     (if ty = Ty_bool then Flag (cp_name p) (cp_default p)
      else (case cp_default p of
              Some d \<Rightarrow> Optional_arg (cp_name p) ty d
            | None \<Rightarrow> Required_arg (cp_name p) ty))"

fun get_command_options :: "cli_param list \<Rightarrow> cli_option list result" where
  "get_command_options [] = Inr []"
| "get_command_options (p # ps) =
     (case cp_annotation p of
        No_annotation \<Rightarrow> get_command_options ps
      | Class_annotation ty \<Rightarrow> map_sum id ((#) (get_for_type ty p)) (get_command_options ps)
      | Generic_annotation (Some ty # types) \<Rightarrow> map_sum id ((#) (get_for_type ty p)) (get_command_options ps)
      | Generic_annotation (None # types) \<Rightarrow> Inl TypeError
      | Generic_annotation [] \<Rightarrow> Inl IndexError
      | Other_annotation \<Rightarrow> get_command_options ps)"

text \<open>\<open>_get_parser_for_component\<close>: the commands with their options; a later command of the same name
  replaces an earlier one.\<close>

fun add_commands ::
  "'m cli_method list \<Rightarrow> (pystr \<times> cli_option list) list \<Rightarrow> (pystr \<times> cli_option list) list result" where
  "add_commands [] parsers = Inr parsers"
| "add_commands (m # ms) parsers =
     (case get_command_options (me_params m) of
        Inl e \<Rightarrow> Inl e
      | Inr options \<Rightarrow> add_commands ms (AList.update (lit (me_name m)) options parsers))"

definition component_parser :: "'m cli_method list \<Rightarrow> (pystr \<times> cli_option list) list result" where
  "component_parser methods = add_commands (get_commands methods) []"

section \<open>Parsing\<close>

fun option_name :: "cli_option \<Rightarrow> name" where
  "option_name (Flag n d) = n"
| "option_name (Optional_arg n ty d) = n"
| "option_name (Required_arg n ty) = n"

fun is_flag :: "cli_option \<Rightarrow> bool" where
  "is_flag (Flag n d) = True"
| "is_flag _ = False"

fun is_required :: "cli_option \<Rightarrow> bool" where
  "is_required (Required_arg n ty) = True"
| "is_required _ = False"

definition positionals :: "cli_option list \<Rightarrow> cli_option list" where
  "positionals options = filter (\<lambda>opt. \<not> is_flag opt) options"

definition required_count :: "cli_option list \<Rightarrow> nat" where
  "required_count options = length (filter is_required options)"

text \<open>One run of \<open>consume_positionals\<close> over the arguments up to the next flag: the longest list of
  positionals that they suffice for, each optional one taking an argument if enough remain for the
  required ones after it.\<close>

fun usable :: "cli_option list \<Rightarrow> nat \<Rightarrow> cli_option list" where
  "usable [] n = []"
| "usable (opt # opts) n =
     (if is_required opt then (if n = 0 then [] else opt # usable opts (n - 1)) else opt # usable opts n)"

type_synonym assigned = "(cli_option \<times> pystr option) list"

fun assign :: "cli_option list \<Rightarrow> pystr list \<Rightarrow> assigned \<times> pystr list" where
  "assign [] strs = ([], strs)"
| "assign (opt # opts) strs =
     (if strs \<noteq> [] \<and> (is_required opt \<or> required_count opts < length strs)
      then (case assign opts (tl strs) of (vs, rest) \<Rightarrow> ((opt, Some (hd strs)) # vs, rest))
      else (case assign opts strs of (vs, rest) \<Rightarrow> ((opt, None) # vs, rest)))"

text \<open>A token is an argument or a flag. \<open>parse_tokens\<close> gives the assigned positionals, the flags that
  were set, the positionals that were not reached and the arguments that nothing took.\<close>

datatype token = Tok_arg pystr | Tok_flag name

fun arg_text :: "token \<Rightarrow> pystr" where
  "arg_text (Tok_arg s) = s"
| "arg_text (Tok_flag n) = lit ''--'' @ lit n"

fun is_arg :: "token \<Rightarrow> bool" where
  "is_arg (Tok_arg s) = True"
| "is_arg (Tok_flag n) = False"

definition consume :: "cli_option list \<Rightarrow> pystr list \<Rightarrow> assigned \<times> pystr list \<times> cli_option list" where
  "consume opts strs =
     (let use = usable opts (length strs)
      in case assign use strs of (vs, rest) \<Rightarrow> (vs, rest, drop (length use) opts))"

function parse_tokens ::
  "cli_option list \<Rightarrow> token list \<Rightarrow> assigned \<times> name list \<times> cli_option list \<times> pystr list" where
  "parse_tokens opts tokens =
     (let strs = map arg_text (takeWhile is_arg tokens); rest = dropWhile is_arg tokens
      in case rest of
           [] \<Rightarrow> (case consume opts strs of (vs, extra, opts') \<Rightarrow> (vs, [], opts', extra))
         | flag # tokens' \<Rightarrow>
             (case (if strs = [] then ([], [], opts) else consume opts strs) of
                (vs, extra, opts') \<Rightarrow>
                  (case parse_tokens opts' tokens' of
                     (vs', flags, opts'', extras) \<Rightarrow>
                       (vs @ vs', (case flag of Tok_flag n \<Rightarrow> [n] | Tok_arg s \<Rightarrow> []) @ flags, opts'', extra @ extras))))"
  by pat_completeness auto
termination
proof (relation "measure (\<lambda>(opts, tokens). length tokens)", goal_cases)
  case (2 opts tokens strs rest flag tokens')
  then have "length (flag # tokens') \<le> length tokens"
    by (metis length_dropWhile_le)
  then show ?case by simp
qed simp

declare parse_tokens.simps [simp del]

text \<open>Conversion of one value. \<open>int\<close> of text other than decimal digits, and other types, are an
  argument.\<close>

definition digits_value :: "pystr \<Rightarrow> nat" where
  "digits_value s = foldl (\<lambda>n c. n * 10 + (c - 48)) 0 s"

definition convert :: "(pytype \<Rightarrow> pystr \<Rightarrow> pyval option) \<Rightarrow> pytype \<Rightarrow> pystr \<Rightarrow> pyval option" where
  "convert other ty s =
     (if ty = Ty_str then Some (PStr s)
      else if ty = Ty_int \<and> s \<noteq> [] \<and> list_all (\<lambda>c. 48 \<le> c \<and> c \<le> 57) s then Some (PInt (int (digits_value s)))
      else other ty s)"

text \<open>The value of a positional: a default that is text is converted as well.\<close>

definition option_value ::
  "(pytype \<Rightarrow> pystr \<Rightarrow> pyval option) \<Rightarrow> cli_option \<Rightarrow> pystr option \<Rightarrow> pyval option" where
  "option_value other opt arg =
     (case opt of
        Required_arg n ty \<Rightarrow> (case arg of None \<Rightarrow> None | Some s \<Rightarrow> convert other ty s)
      | Optional_arg n ty d \<Rightarrow>
          (case arg of
             Some s \<Rightarrow> convert other ty s
           | None \<Rightarrow> (case d of PStr s \<Rightarrow> convert other ty s | _ \<Rightarrow> Some d))
      | Flag n d \<Rightarrow> None)"

fun option_values ::
  "(pytype \<Rightarrow> pystr \<Rightarrow> pyval option) \<Rightarrow> assigned \<Rightarrow> (name \<times> pyval) list option" where
  "option_values other [] = Some []"
| "option_values other ((opt, arg) # vs) =
     (case option_value other opt arg of
        None \<Rightarrow> None
      | Some v \<Rightarrow> map_option ((#) (option_name opt, v)) (option_values other vs))"

text \<open>The value of a flag without a default is the class \<open>inspect.Parameter.empty\<close>.\<close>

definition flag_values :: "cli_option list \<Rightarrow> name list \<Rightarrow> (name \<times> pyval) list" where
  "flag_values options flags =
     concat (map (\<lambda>opt. case opt of
        Flag n d \<Rightarrow> [(n, if n \<in> set flags then PBool True
                         else (case d of None \<Rightarrow> PObj ''empty'' 0 | Some v \<Rightarrow> v))]
      | _ \<Rightarrow> []) options)"

text \<open>\<open>parse_args\<close>, up to what ends the process with status 2.\<close>

definition parse_args ::
  "(pytype \<Rightarrow> pystr \<Rightarrow> pyval option) \<Rightarrow> cli_option list \<Rightarrow> token list \<Rightarrow> (name \<times> pyval) list option" where
  "parse_args other options tokens =
     (case parse_tokens (positionals options) tokens of
        (vs, flags, left, extras) \<Rightarrow>
          if extras \<noteq> [] \<or> list_ex is_required left then None
          else map_option (\<lambda>values. values @ flag_values options flags)
                 (option_values other vs))"

section \<open>Running a command\<close>

text \<open>What the model leaves to \<open>argparse\<close>: conversions, and arguments outside the fragment. Parsing ends
  with values, with an error and status 2, or with the help and status 0.\<close>

datatype parsed_line = Parsed "(name \<times> pyval) list" | Usage_error | Help_shown

record argparse =
  ax_convert :: "pytype \<Rightarrow> pystr \<Rightarrow> pyval option"
  ax_parse :: "(pystr \<times> cli_option list) list \<Rightarrow> pystr list \<Rightarrow> parsed_line"

definition dashed :: "pystr \<Rightarrow> bool" where
  "dashed s \<longleftrightarrow> take 1 s = [45]"

text \<open>How \<open>argparse\<close> takes one string: as a token, as the request for help, as an option that it does not
  know, as an option with a value that it does not take, or as the beginning of several options.\<close>

datatype kind = Token token | Help_option | Unknown_option | Refused_option | Ambiguous_option

definition long_options :: "cli_option list \<Rightarrow> (pystr \<times> kind) list" where
  "long_options options =
     (lit ''--help'', Help_option) #
     map (\<lambda>opt. (lit ''--'' @ lit (option_name opt), Token (Tok_flag (option_name opt)))) (filter is_flag options)"

definition negative_number :: "pystr \<Rightarrow> bool" where
  "negative_number s =
     (let digit = (\<lambda>c. 48 \<le> c \<and> c \<le> 57); t = dropWhile digit (tl s)
      in take 1 s = [45] \<and>
         (t = [] \<and> tl s \<noteq> [] \<or> take 1 t = [46] \<and> tl t \<noteq> [] \<and> list_all digit (tl t)))"

definition classify :: "cli_option list \<Rightarrow> pystr \<Rightarrow> kind" where
  "classify options s =
     (if \<not> dashed s \<or> s = [45] then Token (Tok_arg s)
      else if take 2 s = [45, 45] then
        (let key = takeWhile (\<lambda>c. c \<noteq> 61) s
         in case map_of (long_options options) s of
              Some k \<Rightarrow> k
            | None \<Rightarrow>
                (case map_of (long_options options) key of
                   Some k \<Rightarrow> Refused_option
                 | None \<Rightarrow>
                     (case filter (\<lambda>(name, k). take (length key) name = key) (long_options options) of
                        [] \<Rightarrow> if 32 \<in> set s then Token (Tok_arg s) else Unknown_option
                      | [(name, k)] \<Rightarrow> if key = s then k else Refused_option
                      | _ \<Rightarrow> Ambiguous_option)))
      else if take 2 s = lit ''-h'' then Help_option
      else if negative_number s \<or> 32 \<in> set s then Token (Tok_arg s) else Unknown_option)"

definition beyond :: "pystr \<Rightarrow> bool" where
  "beyond s \<longleftrightarrow>
     dashed s \<and> (s = lit ''--'' \<or> (take 2 s = lit ''-h'' \<and> list_ex (\<lambda>c. c \<noteq> 104) (tl s)) \<or> list_ex (\<lambda>c. c = 10 \<or> 128 \<le> c) s)"

text \<open>The positionals that are converted before the last flag.\<close>

function consumed :: "cli_option list \<Rightarrow> token list \<Rightarrow> assigned" where
  "consumed opts tokens =
     (let strs = map arg_text (takeWhile is_arg tokens)
      in case dropWhile is_arg tokens of
           [] \<Rightarrow> []
         | flag # tokens' \<Rightarrow>
             (case (if strs = [] then ([], [], opts) else consume opts strs) of
                (vs, extra, opts') \<Rightarrow> vs @ consumed opts' tokens'))"
  by pat_completeness auto
termination
proof (relation "measure (\<lambda>(opts, tokens). length tokens)", goal_cases)
  case (2 opts tokens strs flag tokens')
  then have "length (flag # tokens') \<le> length tokens"
    by (metis length_dropWhile_le)
  then show ?case by simp
qed simp

declare consumed.simps [simp del]

text \<open>The strings after the name of a command. Ambiguity is found before anything else; help ends the parsing
  where it stands, if the positionals before it can be converted; an option that is not known is an error at
  the end.\<close>

definition as_token :: "kind \<Rightarrow> token" where
  "as_token k = (case k of Token t \<Rightarrow> t | _ \<Rightarrow> Tok_flag [])"

definition parse_line ::
  "(pytype \<Rightarrow> pystr \<Rightarrow> pyval option) \<Rightarrow> cli_option list \<Rightarrow> kind list \<Rightarrow> parsed_line" where
  "parse_line other options kinds =
     (if Ambiguous_option \<in> set kinds then Usage_error
      else (case dropWhile (\<lambda>k. k \<noteq> Help_option \<and> k \<noteq> Refused_option) kinds of
              [] \<Rightarrow>
                if Unknown_option \<in> set kinds then Usage_error
                else (case parse_args other options (map as_token kinds) of
                        None \<Rightarrow> Usage_error | Some values \<Rightarrow> Parsed values)
            | k # ks \<Rightarrow>
                let earlier = takeWhile (\<lambda>k. k \<noteq> Help_option \<and> k \<noteq> Refused_option) kinds
                in if k = Help_option \<and>
                      option_values other (consumed (positionals options) (map as_token earlier @ [as_token k])) \<noteq> None
                   then Help_shown else Usage_error))"

text \<open>\<open>parser.parse_args(argv[1:])\<close>: options before the command are those of the component's parser, which has
  only the help; an unknown command ends the process.\<close>

fun parse_command ::
  "argparse \<Rightarrow> (pystr \<times> cli_option list) list \<Rightarrow> pystr list \<Rightarrow> parsed_line" where
  "parse_command ext parsers [] = Usage_error"
| "parse_command ext parsers (cmd # strs) =
     (if list_ex beyond (cmd # strs) then ax_parse ext parsers (cmd # strs)
      else (case classify [] cmd of
              Token t \<Rightarrow>
                (case map_of parsers (arg_text t) of
                   None \<Rightarrow> Usage_error
                 | Some options \<Rightarrow> parse_line (ax_convert ext) options (map (classify options) strs))
            | Help_option \<Rightarrow> Help_shown
            | Unknown_option \<Rightarrow> (case parse_command ext parsers strs of Help_shown \<Rightarrow> Help_shown | _ \<Rightarrow> Usage_error)
            | _ \<Rightarrow> Usage_error))"

text \<open>\<open>method(**args)\<close>\<close>

definition run_method ::
  "('m \<Rightarrow> (name \<times> pyval) list \<Rightarrow> 'w \<Rightarrow> pyval result \<times> 'w) \<Rightarrow> 'm cli_method \<Rightarrow> (name \<times> pyval) list \<Rightarrow>
   'w \<Rightarrow> pyval result \<times> 'w" where
  "run_method exec m values w =
     (if list_ex (\<lambda>p. cp_default p = None \<and> cp_name p \<notin> fst ` set values) (me_params m) \<or>
         list_ex (\<lambda>(n, v). n \<notin> cp_name ` set (me_params m)) values
      then (Inl TypeError, w) else exec (me_body m) values w)"

text \<open>What a call of the command line ends with: the list of components, the help of a component, the help that
  was asked for, status 2, an exception, or the end of a command with what it prints.\<close>

datatype cli_outcome =
    Cli_root "name list" | Cli_help | Cli_helped | Cli_exit | Cli_raised exn | Cli_done "pyval option"

definition cli_component ::
  "argparse \<Rightarrow> (component \<Rightarrow> 'm cli_method list) \<Rightarrow>
   ('m \<Rightarrow> (name \<times> pyval) list \<Rightarrow> 'w \<Rightarrow> pyval result \<times> 'w) \<Rightarrow> component list \<Rightarrow> pystr list \<Rightarrow> 'w \<Rightarrow>
   cli_outcome \<times> 'w" where
  "cli_component ext methods exec components argv w =
     (case argv of
        [] \<Rightarrow> (Cli_raised IndexError, w)
      | name # rest \<Rightarrow>
          (case find (\<lambda>c. lit (co_name c) = name) components of
             None \<Rightarrow> (Cli_exit, w)
           | Some c \<Rightarrow>
               (case component_parser (methods c) of
                  Inl e \<Rightarrow> (Cli_raised e, w)
                | Inr parsers \<Rightarrow>
                    (case rest of
                       [] \<Rightarrow> (Cli_help, w)
                     | cmd # strs \<Rightarrow>
                         (case parse_command ext parsers rest of
                            Usage_error \<Rightarrow> (Cli_exit, w)
                          | Help_shown \<Rightarrow> (Cli_helped, w)
                          | Parsed values \<Rightarrow>
                              (case get_command (methods c) cmd of
                                 None \<Rightarrow> (Cli_raised TypeError, w)
                               | Some m \<Rightarrow>
                                   (case run_method exec m values w of
                                      (Inl e, w') \<Rightarrow> (Cli_raised e, w')
                                    | (Inr v, w') \<Rightarrow>
                                        (Cli_done (if truthy v then Some v else None), w'))))))))"

definition cli_root :: "(component \<Rightarrow> 'm cli_method list) \<Rightarrow> component list \<Rightarrow> cli_outcome" where
  "cli_root methods components =
     Cli_root (map co_name (filter (\<lambda>c. get_commands (methods c) \<noteq> []) components))"

text \<open>\<open>__call__\<close>: the number of arguments that do not begin with a dash decides, but the first argument
  is taken for the component.\<close>

definition cli_call ::
  "argparse \<Rightarrow> (component \<Rightarrow> 'm cli_method list) \<Rightarrow>
   ('m \<Rightarrow> (name \<times> pyval) list \<Rightarrow> 'w \<Rightarrow> pyval result \<times> 'w) \<Rightarrow> component list \<Rightarrow> pystr list \<Rightarrow> 'w \<Rightarrow>
   cli_outcome \<times> 'w" where
  "cli_call ext methods exec components argv w =
     (if filter (\<lambda>s. \<not> dashed s) argv = [] then (cli_root methods components, w)
      else cli_component ext methods exec components argv w)"

section \<open>The commands of the cli component\<close>

text \<open>\<open>run\<close>, through \<open>Application.run\<close> and \<open>run_app\<close>: the one server that is run.\<close>

definition run_app_server ::
  "'a \<Rightarrow> pystr \<Rightarrow> 'v \<Rightarrow> (pystr \<times> pystr) option \<Rightarrow> ('a, 'v) server list" where
  "run_app_server app host port ssl = [\<lparr>sv_app = app, sv_host = host, sv_port = port, sv_ssl = ssl\<rparr>]"

text \<open>\<open>Application.run\<close> (\<^verbatim>\<open>levin/core/app.py\<close>)\<close>

definition application_run ::
  "'a \<Rightarrow> pystr \<Rightarrow> 'v \<Rightarrow> (pystr \<times> pystr) option \<Rightarrow> ('a, 'v) server list" where
  "application_run app host port ssl = run_app_server app host port ssl"

definition cli_run :: "'a \<Rightarrow> 'v \<Rightarrow> pystr \<Rightarrow> pystr \<Rightarrow> pystr \<Rightarrow> ('a, 'v) server list" where
  "cli_run app port host ssl_cert ssl_key =
     application_run app host port
       (if ssl_key \<noteq> [] \<and> ssl_cert \<noteq> [] then Some (ssl_cert, ssl_key) else None)"

text \<open>\<open>components\<close>: one entry of the listing; \<open>show\<close> is the text of a parameter's value.\<close>

definition component_entry ::
  "(component \<Rightarrow> name \<Rightarrow> pystr) \<Rightarrow> bool \<Rightarrow> component \<Rightarrow> pystr" where
  "component_entry show with_values c =
     (let params = filter (\<lambda>p. p \<noteq> ''enable'') (get_configure_params c)
      in [10, if co_enabled c then 10004 else 10007, 32] @ lit (co_name c) @
         (if params = [] then []
          else [58] @
            (if with_values
             then [10] @ join_str [10, 32] (map (\<lambda>p. [9] @ lit p @ lit '' = '' @ show c p) params)
             else [9] @ join_str (lit '', '') (map lit params))))"

definition cli_components ::
  "(component \<Rightarrow> name \<Rightarrow> pystr) \<Rightarrow> component list \<Rightarrow> bool \<Rightarrow> pystr option \<Rightarrow> pystr" where
  "cli_components show components with_values only =
     (let given = (case only of None \<Rightarrow> False | Some s \<Rightarrow> s \<noteq> []);
          chosen = filter (\<lambda>c. given \<longrightarrow> Some (lit (co_name c)) = only) components
      in concat (map (component_entry show (with_values \<or> given)) chosen))"

section \<open>The commands of an application\<close>

text \<open>The marked methods of the default components, and what they do, on a state that has the servers run
  so far. The keys of the templates are printed as a list.\<close>

datatype levin_command = Cmd_run | Cmd_components | Cmd_resolve | Cmd_routes | Cmd_templates

definition arg :: "name \<Rightarrow> pytype \<Rightarrow> pyval option \<Rightarrow> cli_param" where
  "arg n ty d = \<lparr>cp_name = n, cp_annotation = Class_annotation ty, cp_default = d\<rparr>"

definition optional_text :: "name \<Rightarrow> cli_param" where
  "optional_text n = \<lparr>cp_name = n, cp_annotation = Generic_annotation [Some Ty_str, Some (Ty_other 0)], cp_default = Some PNone\<rparr>"

definition marked :: "name \<Rightarrow> cli_param list \<Rightarrow> levin_command \<Rightarrow> levin_command cli_method" where
  "marked n ps cmd = \<lparr>me_attr = n, me_name = n, me_command = True, me_params = ps, me_body = cmd\<rparr>"

definition levin_methods :: "component \<Rightarrow> levin_command cli_method list" where
  "levin_methods c =
     (if co_name c = ''cli'' then
        [marked ''run'' [arg ''port'' Ty_int (Some (PInt 8000)), arg ''host'' Ty_str (Some (PStr (lit ''0.0.0.0''))),
                       arg ''ssl_cert'' Ty_str (Some (PStr [])), arg ''ssl_key'' Ty_str (Some (PStr []))] Cmd_run,
         marked ''components'' [arg ''values'' Ty_bool (Some (PBool False)), optional_text ''component''] Cmd_components]
      else if co_name c = ''route'' then
        [marked ''resolve'' [arg ''path'' Ty_str None, arg ''method'' Ty_str (Some (PStr (lit ''GET''))),
                           arg ''code'' Ty_bool (Some (PBool False))] Cmd_resolve,
         marked ''list'' [optional_text ''method'', arg ''code'' Ty_bool (Some (PBool False))] Cmd_routes]
      else if co_name c = ''templates'' then [marked ''list'' [] Cmd_templates]
      else [])"

record 'h command_env =
  ce_components :: "component list"
  ce_router :: "'h router"
  ce_call :: lazy_call
  ce_inspect :: "'h inspection"
  ce_templates :: "(pystr \<times> pystr) list"
  ce_show :: "component \<Rightarrow> name \<Rightarrow> pystr"

definition text_arg :: "(name \<times> pyval) list \<Rightarrow> name \<Rightarrow> pystr option" where
  "text_arg values n = (case map_of values n of Some (PStr s) \<Rightarrow> Some s | _ \<Rightarrow> None)"

definition flag_arg :: "(name \<times> pyval) list \<Rightarrow> name \<Rightarrow> bool" where
  "flag_arg values n = (case map_of values n of Some v \<Rightarrow> truthy v | None \<Rightarrow> False)"

definition some_text :: "pystr option \<Rightarrow> pystr" where
  "some_text s = (case s of None \<Rightarrow> [] | Some t \<Rightarrow> t)"

definition levin_exec ::
  "'h command_env \<Rightarrow> levin_command \<Rightarrow> (name \<times> pyval) list \<Rightarrow> (unit, pyval option) server list list \<Rightarrow>
   pyval result \<times> (unit, pyval option) server list list" where
  "levin_exec env cmd values runs =
     (case cmd of
        Cmd_run \<Rightarrow>
          (Inr PNone,
           runs @ [cli_run () (map_of values ''port'') (some_text (text_arg values ''host''))
                     (some_text (text_arg values ''ssl_cert'')) (some_text (text_arg values ''ssl_key''))])
      | Cmd_components \<Rightarrow>
          (Inr (PStr (cli_components (ce_show env) (ce_components env) (flag_arg values ''values'')
                        (text_arg values ''component''))), runs)
      | Cmd_resolve \<Rightarrow>
          (map_sum id PStr
             (router_resolve_command (ce_call env) (ce_inspect env) (ce_router env)
                (some_text (text_arg values ''path'')) (some_text (text_arg values ''method''))
                (flag_arg values ''code'')), runs)
      | Cmd_routes \<Rightarrow>
          (map_sum id PStr
             (router_list (ce_inspect env) (ce_router env) (text_arg values ''method'') (flag_arg values ''code'')),
           runs)
      | Cmd_templates \<Rightarrow>
          (Inr (PList (map (\<lambda>(root, file). PTuple [PStr root, PStr file]) (ce_templates env))), runs))"

definition levin_cli ::
  "argparse \<Rightarrow> 'h command_env \<Rightarrow> pystr list \<Rightarrow> (unit, pyval option) server list list \<Rightarrow>
   cli_outcome \<times> (unit, pyval option) server list list" where
  "levin_cli ext env = cli_call ext levin_methods (levin_exec env) (ce_components env)"

section \<open>Lemmas on parsing\<close>

lemma takeWhile_args [simp]: "takeWhile is_arg (map Tok_arg strs) = map Tok_arg strs"
  by (induction strs) simp_all

lemma dropWhile_args [simp]: "dropWhile is_arg (map Tok_arg strs) = []"
  by (induction strs) simp_all

lemma arg_texts [simp]: "map arg_text (map Tok_arg strs) = strs"
  by (induction strs) simp_all

lemma parse_only_args:
  "parse_tokens opts (map Tok_arg strs) =
     (case consume opts strs of (vs, extra, opts') \<Rightarrow> (vs, [], opts', extra))"
  by (simp add: parse_tokens.simps [of opts] Let_def del: map_map)

lemma required_count_simps [simp]:
  "required_count [] = 0"
  "required_count (opt # opts) = (if is_required opt then 1 else 0) + required_count opts"
  by (simp_all add: required_count_def)

lemma required_count_0: "list_all (\<lambda>opt. \<not> is_required opt) opts \<Longrightarrow> required_count opts = 0"
  by (induction opts) simp_all

lemma usable_optional: "list_all (\<lambda>opt. \<not> is_required opt) opts \<Longrightarrow> usable opts n = opts"
  by (induction opts) simp_all

lemma usable_ordered:
  assumes "list_all is_required reqs" and "list_all (\<lambda>opt. \<not> is_required opt) opts"
  shows "usable (reqs @ opts) n = (if length reqs \<le> n then reqs @ opts else take n reqs)"
  using assms(1)
proof (induction reqs arbitrary: n)
  case Nil
  with assms(2) show ?case by (simp add: usable_optional)
next
  case (Cons r reqs)
  then show ?case by (cases n) simp_all
qed

lemma assign_optional:
  "list_all (\<lambda>opt. \<not> is_required opt) opts \<Longrightarrow>
   assign opts strs = (zip opts (map Some strs @ replicate (length opts - length strs) None), drop (length opts) strs)"
proof (induction opts arbitrary: strs)
  case Nil
  then show ?case by simp
next
  case (Cons opt opts)
  then show ?case by (cases strs) (simp_all add: required_count_0)
qed

lemma assign_ordered:
  assumes "list_all is_required reqs" and "list_all (\<lambda>opt. \<not> is_required opt) opts" and "length reqs \<le> length strs"
  shows "assign (reqs @ opts) strs =
    (zip (reqs @ opts) (map Some strs @ replicate (length (reqs @ opts) - length strs) None),
     drop (length (reqs @ opts)) strs)"
  using assms(1,3)
proof (induction reqs arbitrary: strs)
  case Nil
  with assms(2) show ?case by (simp add: assign_optional)
next
  case (Cons r reqs)
  then obtain s strs' where "strs = s # strs'" by (cases strs) auto
  with Cons show ?case by simp
qed

lemma flags_only: "list_all is_flag fs \<Longrightarrow> positionals (ps @ fs) = positionals ps"
  by (induction fs) (simp_all add: positionals_def filter_empty_conv list_all_iff)

lemma positional_split:
  assumes "positionals options = reqs @ opts" and "list_all is_required reqs"
    and "list_all (\<lambda>opt. \<not> is_required opt) opts"
  shows "parse_args other options (map Tok_arg strs) =
    (if length reqs \<le> length strs \<and> length strs \<le> length (reqs @ opts)
     then map_option (\<lambda>values. values @ flag_values options [])
            (option_values other
               (zip (reqs @ opts) (map Some strs @ replicate (length (reqs @ opts) - length strs) None)))
     else None)"
proof (cases "length reqs \<le> length strs")
  case True
  have "length (reqs @ opts) - length reqs = length opts" by simp
  with True assms show ?thesis
    by (auto simp: parse_args_def parse_only_args consume_def Let_def usable_ordered assign_ordered
        simp del: length_append)
next
  case False
  then have "drop (length strs) reqs \<noteq> []" by simp
  moreover have "list_all is_required (drop (length strs) reqs)"
    using assms(2) by (auto simp: list_all_iff dest: in_set_dropD)
  ultimately have "list_ex is_required (drop (length strs) reqs @ opts)"
    by (cases "drop (length strs) reqs") simp_all
  moreover have "drop (length (take (length strs) reqs)) (reqs @ opts) = drop (length strs) reqs @ opts"
    using False by simp
  ultimately show ?thesis
    using False assms
    by (simp add: parse_args_def parse_only_args consume_def Let_def usable_ordered split: prod.split)
qed

section \<open>Properties\<close>

text \<open>Positional arguments are bound in order: with at least as many as there are required ones and
  at most as many as there are positionals, each takes one, and the optional ones that are left keep
  their defaults; with fewer, or more, the command is refused.\<close>

theorem positional_arguments:
  assumes "positionals options = reqs @ opts" and "list_all is_required reqs"
    and "list_all (\<lambda>opt. \<not> is_required opt) opts"
  shows "parse_args other options (map Tok_arg strs) =
    (if length reqs \<le> length strs \<and> length strs \<le> length (reqs @ opts)
     then map_option (\<lambda>values. values @ flag_values options [])
            (option_values other
               (zip (reqs @ opts) (map Some strs @ replicate (length (reqs @ opts) - length strs) None)))
     else None)"
  using assms by (rule positional_split)

theorem positional_arguments_witness:
  "parse_args (\<lambda>ty s. None) [Required_arg ''path'' Ty_str, Optional_arg ''port'' Ty_int (PInt 8000), Flag ''code'' (Some (PBool False))]
     (map Tok_arg [lit ''/a'']) =
   Some [(''path'', PStr (lit ''/a'')), (''port'', PInt 8000), (''code'', PBool False)]"
  using positional_arguments [of "[Required_arg ''path'' Ty_str, Optional_arg ''port'' Ty_int (PInt 8000), Flag ''code'' (Some (PBool False))]"
      "[Required_arg ''path'' Ty_str]" "[Optional_arg ''port'' Ty_int (PInt 8000)]" "\<lambda>ty s. None" "[lit ''/a'']"]
  by (simp add: positionals_def option_value_def convert_def flag_values_def)

text \<open>An optional argument after a flag is refused when something stands before the flag: the
  positionals before the flag use up the optional ones as well.\<close>

theorem late_optional_rejected:
  assumes "positionals options = reqs @ opts" and "list_all is_required reqs"
    and "list_all (\<lambda>opt. \<not> is_required opt) opts"
    and "strs \<noteq> []" and "length reqs \<le> length strs" and "late \<noteq> []"
  shows "parse_args other options (map Tok_arg strs @ Tok_flag flag # map Tok_arg late) = None"
proof -
  have split: "takeWhile is_arg (map Tok_arg strs @ Tok_flag flag # ts) = map Tok_arg strs"
    "dropWhile is_arg (map Tok_arg strs @ Tok_flag flag # ts) = Tok_flag flag # ts" for ts
    by (induction strs) simp_all
  have "parse_tokens [] (map Tok_arg late) = ([], [], [], late)"
    by (simp add: parse_only_args consume_def)
  then show ?thesis
    using assms
    by (simp add: parse_args_def parse_tokens.simps [of "reqs @ opts"] split Let_def consume_def
        usable_ordered assign_ordered del: map_map)
qed

theorem late_optional_rejected_witness:
  "parse_args (\<lambda>ty s. None) [Required_arg ''path'' Ty_str, Optional_arg ''method'' Ty_str (PStr (lit ''GET'')), Flag ''code'' (Some (PBool False))]
     (map Tok_arg [lit ''/a''] @ Tok_flag ''code'' # map Tok_arg [lit ''POST'']) = None"
  by (rule late_optional_rejected [where reqs = "[Required_arg ''path'' Ty_str]"
      and opts = "[Optional_arg ''method'' Ty_str (PStr (lit ''GET''))]"])
    (simp_all add: positionals_def)

section \<open>The commands of the default components\<close>

lemma sorted_commands:
  "get_commands [marked ''run'' ps x, marked ''components'' qs y] =
     [marked ''components'' qs y, marked ''run'' ps x]"
  "get_commands [marked ''resolve'' ps x, marked ''list'' qs y] = [marked ''list'' qs y, marked ''resolve'' ps x]"
  by (simp_all add: get_commands_def marked_def less_eq_list_code less_eq_char_def)

abbreviation run_options :: "cli_option list" where
  "run_options \<equiv>
     [Optional_arg ''port'' Ty_int (PInt 8000), Optional_arg ''host'' Ty_str (PStr (lit ''0.0.0.0'')),
      Optional_arg ''ssl_cert'' Ty_str (PStr []), Optional_arg ''ssl_key'' Ty_str (PStr [])]"

lemma cli_parser:
  assumes "co_name c = ''cli''"
  shows "component_parser (levin_methods c) =
      Inr [(lit ''components'', [Flag ''values'' (Some (PBool False)), Optional_arg ''component'' Ty_str PNone]),
           (lit ''run'', run_options)]"
    and "\<exists>m. get_command (levin_methods c) (lit ''run'') = Some m \<and> me_body m = Cmd_run \<and>
      map cp_name (me_params m) = [''port'', ''host'', ''ssl_cert'', ''ssl_key'']"
  using assms
  by (simp_all add: component_parser_def levin_methods_def sorted_commands get_command_def)
    (simp_all add: marked_def arg_def optional_text_def get_for_type_def)

lemma route_parser:
  assumes "co_name c = ''route''"
  shows "component_parser (levin_methods c) =
      Inr [(lit ''list'', [Optional_arg ''method'' Ty_str PNone, Flag ''code'' (Some (PBool False))]),
           (lit ''resolve'', [Required_arg ''path'' Ty_str, Optional_arg ''method'' Ty_str (PStr (lit ''GET'')),
                            Flag ''code'' (Some (PBool False))])]"
    and "\<exists>m. get_command (levin_methods c) (lit ''list'') = Some m \<and> me_body m = Cmd_routes \<and>
      map cp_name (me_params m) = [''method'', ''code'']"
  using assms
  by (simp_all add: component_parser_def levin_methods_def sorted_commands get_command_def)
    (simp_all add: marked_def arg_def optional_text_def get_for_type_def)

lemma find_component:
  assumes "n \<in> co_name ` set components"
  obtains c where "find (\<lambda>c. lit (co_name c) = lit n) components = Some c" "co_name c = n"
proof (cases "find (\<lambda>c. lit (co_name c) = lit n) components")
  case None
  with assms show ?thesis by (auto simp: find_None_iff)
next
  case (Some c)
  then have "co_name c = n" by (auto simp: find_Some_iff)
  with Some that show ?thesis by blast
qed

text \<open>From the arguments to the method.\<close>

lemma plain_strings:
  assumes "list_all (\<lambda>s. \<not> dashed s) strs"
  shows "\<not> list_ex beyond strs" and "map (classify options) strs = map (Token \<circ> Tok_arg) strs"
  using assms by (induction strs) (simp_all add: classify_def beyond_def)

lemma parse_line_tokens:
  "parse_line other options (map Token tokens) =
    (case parse_args other options tokens of None \<Rightarrow> Usage_error | Some values \<Rightarrow> Parsed values)"
proof -
  have "dropWhile (\<lambda>k. k \<noteq> Help_option \<and> k \<noteq> Refused_option) (map Token tokens) = []"
    "map as_token (map Token tokens) = tokens"
    by (induction tokens) (simp_all add: as_token_def)
  moreover have "Ambiguous_option \<notin> set (map Token tokens)" "Unknown_option \<notin> set (map Token tokens)" by auto
  ultimately show ?thesis unfolding parse_line_def by (simp only: if_False list.case)
qed

lemma plain_command:
  assumes "\<not> dashed cmd" and "map_of parsers cmd = Some options" and "list_all (\<lambda>s. \<not> dashed s) strs"
  shows "parse_command ext parsers (cmd # strs) =
    (case parse_args (ax_convert ext) options (map Tok_arg strs) of None \<Rightarrow> Usage_error | Some values \<Rightarrow> Parsed values)"
proof -
  have "\<not> beyond cmd" "classify [] cmd = Token (Tok_arg cmd)" using assms(1) by (simp_all add: beyond_def classify_def)
  moreover have "map (classify options) strs = map Token (map Tok_arg strs)"
    using plain_strings(2) [OF assms(3)] by simp
  ultimately show ?thesis
    using assms(2) plain_strings(1) [OF assms(3)] by (simp add: parse_line_tokens del: map_map)
qed

lemma cli_dispatch:
  assumes "find (\<lambda>c. lit (co_name c) = name) (ce_components env) = Some c" and "\<not> dashed name" "\<not> dashed cmd"
    and "component_parser (levin_methods c) = Inr parsers" and "map_of parsers cmd = Some options"
    and "list_all (\<lambda>s. \<not> dashed s) strs"
    and "parse_args (ax_convert ext) options (map Tok_arg strs) = Some values"
    and "get_command (levin_methods c) cmd = Some m" and "map fst values = map cp_name (me_params m)"
    and "levin_exec env (me_body m) values runs = (Inr v, runs')"
  shows "levin_cli ext env (name # cmd # strs) runs = (Cli_done (if truthy v then Some v else None), runs')"
proof -
  have "parse_command ext parsers (cmd # strs) = Parsed values"
    using plain_command [OF assms(3,5,6)] assms(7) by simp
  moreover have "fst ` set values = cp_name ` set (me_params m)"
    using arg_cong [OF assms(9), of set] by simp
  then have "\<not> list_ex (\<lambda>p. cp_default p = None \<and> cp_name p \<notin> fst ` set values) (me_params m)"
    "\<not> list_ex (\<lambda>(n, v). n \<notin> cp_name ` set (me_params m)) values"
    by (force simp: list_ex_iff)+
  then have "run_method (levin_exec env) m values runs = (Inr v, runs')"
    using assms(10) unfolding run_method_def by (simp only: if_False de_Morgan_disj simp_thms)
  ultimately show ?thesis
    using assms(1,2,4,8) by (simp add: levin_cli_def cli_call_def cli_component_def)
qed

section \<open>The listing of components\<close>

text \<open>Reading the listing back: the lines with a mark, up to the colon.\<close>

definition listed_line :: "pystr \<Rightarrow> (bool \<times> pystr) list" where
  "listed_line l =
     (if take 1 l = [10004] then [(True, takeWhile (\<lambda>c. c \<noteq> 58) (drop 2 l))]
      else if take 1 l = [10007] then [(False, takeWhile (\<lambda>c. c \<noteq> 58) (drop 2 l))] else [])"

definition listed :: "pystr \<Rightarrow> (bool \<times> pystr) list" where
  "listed s = concat (map listed_line (split_on 10 s))"

lemma split_entries:
  "(\<And>x. x \<in> set xs \<Longrightarrow> sep \<notin> set (g x)) \<Longrightarrow>
   split_on sep (concat (map (\<lambda>x. sep # g x) xs)) = [] # map g xs"
proof (induction xs)
  case Nil
  then show ?case by simp
next
  case (Cons x xs)
  then have fresh: "sep \<notin> set (g x)" and IH: "split_on sep (concat (map (\<lambda>x. sep # g x) xs)) = [] # map g xs"
    by auto
  show ?case
  proof (cases xs)
    case Nil
    with fresh show ?thesis by (simp add: split_on_fresh)
  next
    case (Cons y ys)
    with IH have "split_on sep (g y @ concat (map (\<lambda>x. sep # g x) ys)) = map g xs" by simp
    with fresh Cons show ?thesis by (simp add: split_on_append)
  qed
qed

definition entry_body :: "component \<Rightarrow> pystr" where
  "entry_body c = tl (component_entry (\<lambda>c p. []) False c)"

lemma component_entry_body: "component_entry show False c = 10 # entry_body c"
  by (simp add: entry_body_def component_entry_def Let_def)

definition plain_name :: "name \<Rightarrow> bool" where
  "plain_name n \<longleftrightarrow> LF \<notin> set n \<and> CHR '':'' \<notin> set n"

lemma plain_name_lit: "plain_name n \<Longrightarrow> 10 \<notin> set (lit n) \<and> 58 \<notin> set (lit n)"
proof -
  assume n: "plain_name n"
  have "code d = code LF \<Longrightarrow> d = LF" "code d = code (CHR '':'') \<Longrightarrow> d = CHR '':''" for d
    by (simp_all only: of_char_eq_iff)
  then have "code d = 10 \<Longrightarrow> d = LF" "code d = 58 \<Longrightarrow> d = CHR '':''" for d by simp_all
  with n show ?thesis by (auto simp: plain_name_def lit_chars)
qed

lemma set_join_str: "set (join_str sep xs) \<subseteq> set sep \<union> \<Union> (set ` set xs)"
  by (induction sep xs rule: join_str.induct) auto

lemma entry_body_fresh:
  assumes "plain_name (co_name c)" and "list_all plain_name (get_configure_params c)"
  shows "10 \<notin> set (entry_body c)"
proof -
  have "10 \<notin> set (join_str (lit '', '') (map lit (filter P (get_configure_params c))))" for P
  proof -
    have "10 \<notin> set (lit p)" if "p \<in> set (get_configure_params c)" for p
      using assms(2) that plain_name_lit by (auto simp: list_all_iff)
    then have "10 \<notin> set (lit '', '') \<union> \<Union> (set ` set (map lit (filter P (get_configure_params c))))" by auto
    then show ?thesis using set_join_str [of "lit '', ''" "map lit (filter P (get_configure_params c))"] by blast
  qed
  then show ?thesis
    using plain_name_lit [OF assms(1)] by (auto simp: entry_body_def component_entry_def Let_def)
qed

lemma listed_entry:
  assumes "plain_name (co_name c)"
  shows "listed_line (entry_body c) = [(co_enabled c, lit (co_name c))]"
proof -
  have all: "takeWhile (\<lambda>c. c \<noteq> 58) (lit (co_name c)) = lit (co_name c)"
    using plain_name_lit [OF assms] by (auto simp: takeWhile_eq_all_conv)
  have some: "takeWhile (\<lambda>c. c \<noteq> 58) (lit (co_name c) @ 58 # s) = lit (co_name c)" for s
    using plain_name_lit [OF assms] by (auto simp: takeWhile_append)
  show ?thesis
    by (auto simp: listed_line_def entry_body_def component_entry_def Let_def all some)
qed

definition two_components :: "component list" where
  "two_components =
     [\<lparr>co_id = 0, co_name = ''cli'', co_vars = [], co_enable_default = True, co_dict = [], co_middleware = None\<rparr>,
      \<lparr>co_id = 1, co_name = ''route'', co_vars = [(''not_found_handler'', AValue (PObj ''function'' 0))],
       co_enable_default = False, co_dict = [], co_middleware = Some 1\<rparr>]"

lemma listed_components:
  assumes "\<And>c. c \<in> set components \<Longrightarrow> plain_name (co_name c) \<and> list_all plain_name (get_configure_params c)"
  shows "listed (cli_components show components False None) =
    map (\<lambda>c. (co_enabled c, lit (co_name c))) components"
proof -
  have "component_entry show False = (\<lambda>c. 10 # entry_body c)"
    by (rule ext) (rule component_entry_body)
  then have "cli_components show components False None = concat (map (\<lambda>c. 10 # entry_body c) components)"
    by (simp add: cli_components_def)
  moreover have "split_on 10 (concat (map (\<lambda>c. 10 # entry_body c) components)) = [] # map entry_body components"
    by (rule split_entries, rule entry_body_fresh) (use assms in auto)
  moreover have "concat (map listed_line (map entry_body cs)) = map (\<lambda>c. (co_enabled c, lit (co_name c))) cs"
    if "\<And>c. c \<in> set cs \<Longrightarrow> plain_name (co_name c)" for cs
    using that by (induction cs) (simp_all add: listed_entry)
  moreover have "listed_line [] = []" by (simp add: listed_line_def)
  ultimately show ?thesis using assms by (simp add: listed_def)
qed

text \<open>C39: The listing of the components can be read back: without values and without a filter it
  determines the names of all components, in their order, and which are enabled.\<close>

theorem components_roundtrip:
  assumes "list_all (\<lambda>c. plain_name (co_name c) \<and> list_all plain_name (get_configure_params c)) components"
  shows "listed (cli_components show components False None) =
    map (\<lambda>c. (co_enabled c, lit (co_name c))) components"
  by (rule listed_components) (use assms in \<open>simp add: list_all_iff\<close>)

theorem components_roundtrip_witness:
  "listed (cli_components (\<lambda>c p. []) two_components False None) = [(True, lit ''cli''), (False, lit ''route'')]"
proof -
  have "list_all (\<lambda>c. plain_name (co_name c) \<and> list_all plain_name (get_configure_params c)) two_components"
    by (simp add: two_components_def plain_name_def get_configure_params_def skip_param_def attr_is_method_def)
  from components_roundtrip [OF this] show ?thesis
    by (simp add: two_components_def co_enabled_def)
qed

section \<open>Commands from the command line\<close>

lemma run_arguments:
  assumes "''cli'' \<in> co_name ` set (ce_components env)"
    and "list_all (\<lambda>s. \<not> dashed s) strs" and "length strs \<le> 4"
    and "option_values (ax_convert ext) (zip run_options (map Some strs @ replicate (4 - length strs) None)) =
      Some [(''port'', port), (''host'', PStr host), (''ssl_cert'', PStr cert), (''ssl_key'', PStr key)]"
  shows "levin_cli ext env (lit ''cli'' # lit ''run'' # strs) runs =
    (Cli_done None, runs @ [cli_run () (Some port) host cert key])"
proof -
  obtain c where c: "find (\<lambda>c. lit (co_name c) = lit ''cli'') (ce_components env) = Some c" "co_name c = ''cli''"
    using find_component [OF assms(1)] .
  obtain m where m: "get_command (levin_methods c) (lit ''run'') = Some m" "me_body m = Cmd_run"
      "map cp_name (me_params m) = [''port'', ''host'', ''ssl_cert'', ''ssl_key'']"
    using cli_parser(2) [OF c(2)] by (elim exE conjE) (rule that)
  define vals where "vals = [(''port'', port), (''host'', PStr host), (''ssl_cert'', PStr cert), (''ssl_key'', PStr key)]"
  have parse: "parse_args (ax_convert ext) run_options (map Tok_arg strs) = Some vals"
    by (subst positional_split [of run_options "[]" run_options])
      (use assms(3,4) in \<open>simp_all add: positionals_def flag_values_def vals_def numeral_eq_Suc\<close>)
  have names: "map fst vals = map cp_name (me_params m)"
    by (simp add: m(3) vals_def)
  have exec: "levin_exec env (me_body m) vals runs = (Inr PNone, runs @ [cli_run () (Some port) host cert key])"
    by (simp add: m(2) vals_def levin_exec_def text_arg_def some_text_def)
  have "\<not> dashed (lit ''cli'')" "\<not> dashed (lit ''run'')" by (simp_all add: dashed_def)
  from cli_dispatch [OF c(1) this cli_parser(1) [OF c(2)] _ assms(2) parse m(1) names exec]
  show ?thesis by simp
qed


definition digits :: "pystr \<Rightarrow> bool" where
  "digits s \<longleftrightarrow> s \<noteq> [] \<and> list_all (\<lambda>c. 48 \<le> c \<and> c \<le> 57) s"

lemma digits_facts:
  assumes "digits s"
  shows "\<not> dashed s" and "convert other Ty_int s = Some (PInt (int (digits_value s)))"
  using assms by (cases s; auto simp: digits_def dashed_def convert_def)+

lemma convert_text [simp]: "convert other Ty_str s = Some (PStr s)"
  by (simp add: convert_def)

text \<open>C24: The command line \<open>cli run PORT\<close> runs one server: the port is the number, the host is all
  interfaces, and there is no TLS; with all four arguments it has the host and the certificate given.\<close>

theorem cli_run_serves:
  assumes "''cli'' \<in> co_name ` set (ce_components env)" and "digits port"
    and "list_all (\<lambda>s. \<not> dashed s) [host, cert, key]" and "cert \<noteq> []" and "key \<noteq> []"
  shows "levin_cli ext env [lit ''cli'', lit ''run'', port] runs =
      (Cli_done None, runs @ [[\<lparr>sv_app = (), sv_host = lit ''0.0.0.0'', sv_port = Some (PInt (int (digits_value port))),
        sv_ssl = None\<rparr>]]) \<and>
    levin_cli ext env [lit ''cli'', lit ''run'', port, host, cert, key] runs =
      (Cli_done None, runs @ [[\<lparr>sv_app = (), sv_host = host, sv_port = Some (PInt (int (digits_value port))),
        sv_ssl = Some (cert, key)\<rparr>]])"
proof
  note port = digits_facts [OF assms(2)]
  have vals: "option_values (ax_convert ext) (zip run_options (map Some [port] @ replicate (4 - length [port]) None)) =
      Some [(''port'', PInt (int (digits_value port))), (''host'', PStr (lit ''0.0.0.0'')), (''ssl_cert'', PStr []),
        (''ssl_key'', PStr [])]"
    by (simp add: option_value_def port(2) numeral_eq_Suc)
  have "list_all (\<lambda>s. \<not> dashed s) [port]" "length [port] \<le> 4" using port(1) by simp_all
  from run_arguments [OF assms(1) this vals]
  show "levin_cli ext env [lit ''cli'', lit ''run'', port] runs =
      (Cli_done None, runs @ [[\<lparr>sv_app = (), sv_host = lit ''0.0.0.0'', sv_port = Some (PInt (int (digits_value port))),
        sv_ssl = None\<rparr>]])"
    by (simp only: cli_run_def application_run_def run_app_server_def simp_thms if_False)
next
  note port = digits_facts [OF assms(2)]
  have vals: "option_values (ax_convert ext) (zip run_options
        (map Some [port, host, cert, key] @ replicate (4 - length [port, host, cert, key]) None)) =
      Some [(''port'', PInt (int (digits_value port))), (''host'', PStr host), (''ssl_cert'', PStr cert),
        (''ssl_key'', PStr key)]"
    by (simp add: option_value_def port(2))
  have "list_all (\<lambda>s. \<not> dashed s) [port, host, cert, key]" "length [port, host, cert, key] \<le> 4"
    using port(1) assms(3) by simp_all
  from run_arguments [OF assms(1) this vals] assms(4,5)
  show "levin_cli ext env [lit ''cli'', lit ''run'', port, host, cert, key] runs =
      (Cli_done None, runs @ [[\<lparr>sv_app = (), sv_host = host, sv_port = Some (PInt (int (digits_value port))),
        sv_ssl = Some (cert, key)\<rparr>]])"
    by (simp only: cli_run_def application_run_def run_app_server_def simp_thms if_True)
qed

definition two_env :: "nat command_env" where
  "two_env = \<lparr>ce_components = two_components, ce_router = two_routes,
     ce_call = (\<lambda>f r. (Inl KeyError, r)),
     ce_inspect = \<lparr>in_name = (\<lambda>h. lit ''f''), in_file = (\<lambda>h. lit ''f.py''), in_line = (\<lambda>h. 1),
      in_source = (\<lambda>h. []), in_doc = (\<lambda>h. None)\<rparr>,
     ce_templates = [], ce_show = (\<lambda>c p. [])\<rparr>"

definition no_argparse :: argparse where
  "no_argparse = \<lparr>ax_convert = (\<lambda>ty s. None), ax_parse = (\<lambda>parsers argv. Usage_error)\<rparr>"

theorem cli_run_serves_witness:
  "levin_cli no_argparse two_env [lit ''cli'', lit ''run'', lit ''80''] [] =
     (Cli_done None, [[\<lparr>sv_app = (), sv_host = lit ''0.0.0.0'', sv_port = Some (PInt 80), sv_ssl = None\<rparr>]])"
proof -
  have env: "''cli'' \<in> co_name ` set (ce_components two_env)"
    by (simp add: two_env_def two_components_def)
  have port: "digits (lit ''80'')" "digits_value (lit ''80'') = 80"
    by (simp_all add: digits_def digits_value_def)
  have "list_all (\<lambda>s. \<not> dashed s) [lit ''h'', lit ''c'', lit ''k'']"
    by (simp add: dashed_def)
  from cli_run_serves [OF env port(1) this, of no_argparse "[]"] port(2) show ?thesis by simp
qed

text \<open>The command line \<open>route list METHOD\<close> prints nothing and starts nothing, whatever the routes
  are.\<close>

theorem cli_lists_no_method:
  assumes "''route'' \<in> co_name ` set (ce_components env)" and "\<not> dashed m" and "m \<noteq> []"
  shows "levin_cli ext env [lit ''route'', lit ''list'', m] runs = (Cli_done None, runs)"
proof -
  obtain c where c: "find (\<lambda>c. lit (co_name c) = lit ''route'') (ce_components env) = Some c" "co_name c = ''route''"
    using find_component [OF assms(1)] .
  obtain me where me: "get_command (levin_methods c) (lit ''list'') = Some me" "me_body me = Cmd_routes"
      "map cp_name (me_params me) = [''method'', ''code'']"
    using route_parser(2) [OF c(2)] by (elim exE conjE) (rule that)
  define vals where "vals = [(''method'', PStr m), (''code'', PBool False)]"
  have parse: "parse_args (ax_convert ext) [Optional_arg ''method'' Ty_str PNone, Flag ''code'' (Some (PBool False))]
      (map Tok_arg [m]) = Some vals"
    by (subst positional_split [of _ "[]" "[Optional_arg ''method'' Ty_str PNone]"])
      (simp_all add: positionals_def flag_values_def vals_def option_value_def)
  have names: "map fst vals = map cp_name (me_params me)"
    by (simp add: me(3) vals_def)
  have exec: "levin_exec env (me_body me) vals runs = (Inr (PStr []), runs)"
    using assms(3) by (simp add: me(2) vals_def levin_exec_def text_arg_def flag_arg_def router_list_method)
  have "\<not> dashed (lit ''route'')" "\<not> dashed (lit ''list'')" "list_all (\<lambda>s. \<not> dashed s) [m]"
    using assms(2) by (simp_all add: dashed_def)
  from cli_dispatch [OF c(1) this(1,2) route_parser(1) [OF c(2)] _ this(3) parse me(1) names exec]
  show ?thesis by simp
qed

theorem cli_lists_no_method_witness:
  "levin_cli no_argparse two_env [lit ''route'', lit ''list'', lit ''GET''] [] = (Cli_done None, [])"
  by (rule cli_lists_no_method) (simp_all add: two_env_def two_components_def dashed_def)

end
