(* ===== verification/Cli_Types.thy ===== *)
theory Cli_Types
  imports Cli "HOL-Library.Multiset"
begin

text \<open>
  \<^verbatim>\<open>levin/components/cli.py\<close>: the arguments that a method is called with, against its signature.
\<close>

section \<open>Every positional gets a value\<close>

lemma assign_fst: "map fst (fst (assign opts strs)) = opts"
  by (induction opts strs rule: assign.induct) (auto split: prod.split)

lemma usable_split:
  obtains left where "usable opts n @ left = opts" and "left = [] \<or> is_required (hd left)"
proof (induction opts n arbitrary: thesis rule: usable.induct)
  case (1 n)
  then show ?case by simp
next
  case (2 opt opts n)
  show ?case
  proof (cases "is_required opt \<and> n = 0")
    case True
    then show ?thesis by (intro "2.prems" [of "opt # opts"]) simp_all
  next
    case False
    then consider "is_required opt" "n \<noteq> 0" | "\<not> is_required opt"
      by (cases "is_required opt") auto
    then show ?thesis
    proof cases
      case 1
      then obtain left where "usable opts (n - 1) @ left = opts" "left = [] \<or> is_required (hd left)"
        using "2.IH"(1) by blast
      with 1 show ?thesis by (intro "2.prems" [of left]) simp_all
    next
      case 2
      then obtain left where "usable opts n @ left = opts" "left = [] \<or> is_required (hd left)"
        using "2.IH"(2) by blast
      with 2 show ?thesis by (intro "2.prems" [of left]) simp_all
    qed
  qed
qed

lemma consume_split:
  assumes "consume opts strs = (vs, rest, left)"
  shows "map fst vs @ left = opts" and "left = [] \<or> is_required (hd left)"
proof -
  obtain l where l: "usable opts (length strs) @ l = opts" "l = [] \<or> is_required (hd l)"
    by (rule usable_split)
  have "vs = fst (assign (usable opts (length strs)) strs)"
    and left: "left = drop (length (usable opts (length strs))) opts"
    using assms by (auto simp: consume_def Let_def split: prod.splits)
  then have "map fst vs = usable opts (length strs)" by (simp add: assign_fst)
  moreover have "left = l" unfolding left using l(1) by (metis append_eq_conv_conj)
  ultimately show "map fst vs @ left = opts" "left = [] \<or> is_required (hd left)" using l by simp_all
qed

lemma parse_tokens_split:
  "parse_tokens opts tokens = (vs, flags, left, extras) \<Longrightarrow>
   map fst vs @ left = opts \<and> (left = [] \<or> is_required (hd left))"
proof (induction opts tokens arbitrary: vs flags left extras rule: parse_tokens.induct)
  case (1 opts tokens)
  let ?strs = "map arg_text (takeWhile is_arg tokens)"
  show ?case
  proof (cases "dropWhile is_arg tokens")
    case Nil
    with "1.prems" have "consume opts ?strs = (vs, extras, left)"
      by (auto simp: parse_tokens.simps [of opts tokens] Let_def split: prod.splits)
    then show ?thesis using consume_split by blast
  next
    case (Cons flag tokens')
    obtain vs1 extra opts1 where first: "(if ?strs = [] then ([], [], opts) else consume opts ?strs) = (vs1, extra, opts1)"
      by (metis prod_cases3)
    obtain vs2 flags2 left2 extras2 where rest: "parse_tokens opts1 tokens' = (vs2, flags2, left2, extras2)"
      by (metis prod_cases4)
    have eqs: "vs = vs1 @ vs2" "left = left2"
      using "1.prems" by (simp_all add: parse_tokens.simps [of opts tokens] Let_def Cons first [unfolded map_is_Nil_conv] rest)
    have "map fst vs1 @ opts1 = opts" using first consume_split(1) by (auto split: if_splits)
    moreover have "map fst vs2 @ left2 = opts1 \<and> (left2 = [] \<or> is_required (hd left2))"
      using "1.IH" [OF refl refl Cons first [symmetric] refl rest] .
    ultimately show ?thesis unfolding eqs by auto
  qed
qed

lemma option_values_split:
  "option_values other vs = Some vals \<Longrightarrow>
   list_all2 (\<lambda>(opt, arg) (n, v). n = option_name opt \<and> option_value other opt arg = Some v) vs vals"
  by (induction vs arbitrary: vals) (auto split: option.splits prod.splits)


lemma option_values_names:
  "option_values other vs = Some vals \<Longrightarrow> map fst vals = map (\<lambda>(opt, arg). option_name opt) vs"
  by (induction vs arbitrary: vals) (auto split: option.splits prod.splits)

lemma option_values_member:
  "option_values other vs = Some vals \<Longrightarrow> (n, v) \<in> set vals \<Longrightarrow>
   \<exists>entry \<in> set vs. option_name (fst entry) = n \<and> option_value other (fst entry) (snd entry) = Some v"
  by (induction vs arbitrary: vals) (auto split: option.splits prod.splits)

definition option_names :: "cli_option list \<Rightarrow> name list" where
  "option_names options = map option_name (positionals options) @ map option_name (filter is_flag options)"

lemma flag_names: "map fst (flag_values options flags) = map option_name (filter is_flag options)"
  unfolding flag_values_def
proof (induction options)
  case Nil
  then show ?case by simp
next
  case (Cons opt options)
  then show ?case by (cases opt) simp_all
qed

lemma flag_member:
  assumes "(n, v) \<in> set (flag_values options flags)"
  obtains d where "Flag n d \<in> set options" and "v = PBool True \<or> d = Some v \<or> d = None"
  using assms by (auto simp: flag_values_def split: cli_option.splits option.splits if_splits)

lemma parsed_values:
  assumes "parse_args other options tokens = Some vals"
  obtains vs pos flags where "map fst vs = positionals options" and "option_values other vs = Some pos"
    and "vals = pos @ flag_values options flags"
proof -
  obtain vs flags left extras where t: "parse_tokens (positionals options) tokens = (vs, flags, left, extras)"
    by (metis prod_cases4)
  with assms have "\<not> list_ex is_required left" "option_values other vs \<noteq> None"
    "vals = the (option_values other vs) @ flag_values options flags"
    by (auto simp: parse_args_def split: if_splits)
  moreover from this(1) parse_tokens_split [OF t] have "map fst vs = positionals options"
    by (cases left) auto
  ultimately show ?thesis using that by auto
qed

section \<open>Types\<close>

fun of_type :: "pytype \<Rightarrow> pyval \<Rightarrow> bool" where
  "of_type Ty_bool v \<longleftrightarrow> (case v of PBool b \<Rightarrow> True | _ \<Rightarrow> False)"
| "of_type Ty_int v \<longleftrightarrow> (case v of PInt i \<Rightarrow> True | _ \<Rightarrow> False)"
| "of_type Ty_str v \<longleftrightarrow> (case v of PStr s \<Rightarrow> True | _ \<Rightarrow> False)"
| "of_type (Ty_other n) v \<longleftrightarrow> True"

definition annotated :: "cli_param \<Rightarrow> pytype option" where
  "annotated p =
     (case cp_annotation p of
        Class_annotation ty \<Rightarrow> Some ty | Generic_annotation (Some ty # types) \<Rightarrow> Some ty | _ \<Rightarrow> None)"

lemma options_of_params:
  "get_command_options ps = Inr options \<Longrightarrow>
   options = concat (map (\<lambda>p. case annotated p of None \<Rightarrow> [] | Some ty \<Rightarrow> [get_for_type ty p]) ps)"
proof (induction ps arbitrary: options rule: get_command_options.induct)
  case 1
  then show ?case by simp
next
  case (2 p ps)
  show ?case
  proof (cases "cp_annotation p")
    case (Generic_annotation types)
    show ?thesis
    proof (cases types)
      case Nil
      with Generic_annotation 2 show ?thesis by simp
    next
      case (Cons t ts)
      with Generic_annotation 2 show ?thesis by (cases t) (auto simp: annotated_def map_sum_Inr)
    qed
  qed (use 2 in \<open>auto simp: annotated_def map_sum_Inr\<close>)
qed

lemma of_type_convert:
  assumes "\<forall>ty s v. other ty s = Some v \<longrightarrow> of_type ty v" and "convert other ty s = Some v"
  shows "of_type ty v"
  using assms by (auto simp: convert_def split: if_splits)

lemma option_value_typed:
  assumes "\<forall>ty s v. other ty s = Some v \<longrightarrow> of_type ty v"
    and "option_value other (get_for_type ty p) given = Some v"
  shows "of_type ty v \<or> cp_default p = Some v"
  using assms
  by (auto simp: option_value_def get_for_type_def of_type_convert [OF assms(1)]
      split: if_splits option.splits pyval.splits)

definition typed_argument :: "cli_param list \<Rightarrow> name \<times> pyval \<Rightarrow> bool" where
  "typed_argument ps given =
     list_ex (\<lambda>p. cp_name p = fst given \<and>
       (case annotated p of
          None \<Rightarrow> False
        | Some ty \<Rightarrow> of_type ty (snd given) \<or> cp_default p = Some (snd given) \<or> (ty = Ty_bool \<and> cp_default p = None))) ps"

lemma typed_argumentI:
  assumes "opt \<in> set options" and "get_command_options ps = Inr options"
    and "\<And>p ty. opt = get_for_type ty p \<Longrightarrow>
      of_type ty v \<or> cp_default p = Some v \<or> (ty = Ty_bool \<and> cp_default p = None)"
  shows "typed_argument ps (option_name opt, v)"
proof -
  from options_of_params [OF assms(2)] assms(1) obtain p ty where
    p: "p \<in> set ps" "annotated p = Some ty" "opt = get_for_type ty p"
    by (force split: option.splits)
  moreover have "cp_name p = option_name opt"
    by (simp add: p(3) get_for_type_def split: option.split)
  ultimately show ?thesis using assms(3) by (force simp: typed_argument_def list_ex_iff)
qed

lemma parsed_typed:
  assumes "get_command_options ps = Inr options" and "parse_args other options tokens = Some vals"
    and "\<forall>ty s v. other ty s = Some v \<longrightarrow> of_type ty v"
  shows "map fst vals = option_names options \<and> list_all (typed_argument ps) vals"
proof
  obtain vs pos flags where vs: "map fst vs = positionals options" "option_values other vs = Some pos"
      "vals = pos @ flag_values options flags"
    using parsed_values [OF assms(2)] .
  have "map (\<lambda>(opt, arg). option_name opt) vs = map option_name (positionals options)"
    by (simp add: vs(1) [symmetric] case_prod_unfold)
  then show "map fst vals = option_names options"
    by (simp add: vs(3) option_values_names [OF vs(2)] flag_names option_names_def)
  have "typed_argument ps (n, v)" if nv: "(n, v) \<in> set pos" for n v
  proof -
    obtain opt given where a: "(opt, given) \<in> set vs" "option_name opt = n" "option_value other opt given = Some v"
      using option_values_member [OF vs(2) nv] by auto
    have "opt \<in> fst ` set vs" using a(1) by force
    then have "opt \<in> set (positionals options)" by (simp add: vs(1) [symmetric])
    then have "opt \<in> set options" by (simp add: positionals_def)
    from typed_argumentI [OF this assms(1)] option_value_typed [OF assms(3)] a show ?thesis by blast
  qed
  moreover have "typed_argument ps (n, v)" if nv: "(n, v) \<in> set (flag_values options flags)" for n v
  proof -
    obtain d where d: "Flag n d \<in> set options" "v = PBool True \<or> d = Some v \<or> d = None"
      using flag_member [OF nv] .
    have "typed_argument ps (option_name (Flag n d), v)"
      using d(2) by (intro typed_argumentI [OF d(1) assms(1)])
        (auto simp: get_for_type_def split: if_splits option.splits)
    then show ?thesis by simp
  qed
  ultimately show "list_all (typed_argument ps) vals" by (auto simp: list_all_iff vs(3))
qed

section \<open>Command lines\<close>

text \<open>The parser of a component has the options of the method that \<open>get_command\<close> finds.\<close>

lemma add_commands_find:
  "add_commands ms parsers = Inr parsers' \<Longrightarrow> distinct (map me_name ms) \<Longrightarrow> map_of parsers' cmd = Some options \<Longrightarrow>
   map_of parsers cmd = Some options \<and> cmd \<notin> (lit \<circ> me_name) ` set ms \<or>
   (\<exists>m. find (\<lambda>m. lit (me_name m) = cmd) ms = Some m \<and> get_command_options (me_params m) = Inr options)"
proof (induction ms arbitrary: parsers)
  case Nil
  then show ?case by simp
next
  case (Cons m ms)
  from Cons.prems(1) obtain opts where opts: "get_command_options (me_params m) = Inr opts"
    "add_commands ms (AList.update (lit (me_name m)) opts parsers) = Inr parsers'"
    by (auto split: sum.splits)
  have "distinct (map me_name ms)" and new: "me_name m \<notin> me_name ` set ms" using Cons.prems(2) by simp_all
  from Cons.IH [OF opts(2) this(1) Cons.prems(3)] show ?case
  proof (elim disjE exE)
    assume here: "map_of (AList.update (lit (me_name m)) opts parsers) cmd = Some options \<and> cmd \<notin> (lit \<circ> me_name) ` set ms"
    then show ?case using opts(1) by (cases "cmd = lit (me_name m)") (auto simp: update_conv')
  next
    fix n
    assume later: "find (\<lambda>m. lit (me_name m) = cmd) ms = Some n \<and> get_command_options (me_params n) = Inr options"
    then have "n \<in> set ms" "lit (me_name n) = cmd" by (auto simp: find_Some_iff)
    then have "lit (me_name m) \<noteq> cmd" using new by (auto simp: lit_inject)
    with later show ?case by simp
  qed
qed

lemma component_options:
  assumes "component_parser methods = Inr parsers" and "distinct (map me_name methods)"
    and "map_of parsers cmd = Some options"
  obtains m where "get_command methods cmd = Some m" and "get_command_options (me_params m) = Inr options"
proof -
  have "mset (map me_name (sort_key me_attr methods)) = mset (map me_name methods)"
    by (simp only: mset_map mset_sort)
  then have "distinct (map me_name (sort_key me_attr methods))" using assms(2) by (metis mset_eq_imp_distinct_iff)
  then have "distinct (map me_name (get_commands methods))" by (simp add: get_commands_def distinct_map_filter)
  from add_commands_find [OF assms(1) [unfolded component_parser_def] this assms(3)] show ?thesis
    using that by (auto simp: get_command_def)
qed

text \<open>A command line that is accepted is a command with tokens: no string of it is refused.\<close>

lemma accepted_line:
  assumes "parse_line other options kinds = Parsed vals"
  obtains tokens where "kinds = map Token tokens" and "parse_args other options tokens = Some vals"
proof -
  have none: "Ambiguous_option \<notin> set kinds" using assms by (auto simp: parse_line_def)
  then have "dropWhile (\<lambda>k. k \<noteq> Help_option \<and> k \<noteq> Refused_option) kinds = []"
    using assms by (auto simp: parse_line_def Let_def split: list.splits if_splits)
  with none assms have rest: "\<forall>k \<in> set kinds. k \<noteq> Help_option \<and> k \<noteq> Refused_option \<and> k \<noteq> Unknown_option \<and> k \<noteq> Ambiguous_option"
    and parse: "parse_args other options (map as_token kinds) = Some vals"
    by (auto simp: parse_line_def dropWhile_eq_Nil_conv split: if_splits option.splits)
  from rest have "kinds = map Token (map as_token kinds)"
    by (induction kinds) (auto simp: as_token_def split: kind.splits)
  with parse show ?thesis using that by blast
qed

lemma accepted_command:
  assumes "parse_command ext parsers (cmd # strs) = Parsed vals" and "\<not> list_ex beyond (cmd # strs)"
  obtains options tokens where "map_of parsers cmd = Some options" and "map (classify options) strs = map Token tokens"
    and "parse_args (ax_convert ext) options tokens = Some vals"
proof -
  from assms obtain t options where t: "classify [] cmd = Token t" "map_of parsers (arg_text t) = Some options"
    "parse_line (ax_convert ext) options (map (classify options) strs) = Parsed vals"
    by (auto split: kind.splits option.splits parsed_line.splits)
  from t(1) have "t = Tok_arg cmd" by (auto simp: classify_def long_options_def Let_def split: if_splits)
  moreover obtain tokens where "map (classify options) strs = map Token tokens" "parse_args (ax_convert ext) options tokens = Some vals"
    using accepted_line [OF t(3)] .
  ultimately show ?thesis using that t(2) by simp
qed

section \<open>Properties\<close>

text \<open>C23: The arguments that a command is called with fit the signature of its method, whatever the command line, up
  to the few forms that are left to \<open>argparse\<close>: there is one for every annotated parameter, the positional ones
  first, and its value has the type of the annotation or is the default of the parameter; only a flag without a
  default may be neither. Every string of such a line was taken as an argument or as one of the flags.\<close>

theorem arguments_typed:
  assumes "component_parser methods = Inr parsers" and "distinct (map me_name methods)"
    and "parse_command ext parsers (cmd # strs) = Parsed vals" and "\<not> list_ex beyond (cmd # strs)"
    and "\<forall>ty s v. ax_convert ext ty s = Some v \<longrightarrow> of_type ty v"
  shows "\<exists>m options tokens. get_command methods cmd = Some m \<and> get_command_options (me_params m) = Inr options \<and>
    map (classify options) strs = map Token tokens \<and>
    map fst vals = option_names options \<and> list_all (typed_argument (me_params m)) vals"
proof -
  obtain options tokens where line: "map_of parsers cmd = Some options" "map (classify options) strs = map Token tokens"
    "parse_args (ax_convert ext) options tokens = Some vals"
    using accepted_command [OF assms(3,4)] .
  obtain m where "get_command methods cmd = Some m" "get_command_options (me_params m) = Inr options"
    using component_options [OF assms(1,2) line(1)] .
  with parsed_typed [OF this(2) line(3) assms(5)] line(2) show ?thesis by blast
qed

theorem arguments_typed_witness:
  "\<exists>m options tokens. get_command (levin_methods (two_components ! 1)) (lit ''resolve'') = Some m \<and>
     get_command_options (me_params m) = Inr options \<and>
     map (classify options) [lit ''/a'', lit ''--co''] = map Token tokens \<and>
     map fst [(''path'', PStr (lit ''/a'')), (''method'', PStr (lit ''GET'')), (''code'', PBool True)] = option_names options \<and>
     list_all (typed_argument (me_params m)) [(''path'', PStr (lit ''/a'')), (''method'', PStr (lit ''GET'')), (''code'', PBool True)]"
proof -
  let ?c = "two_components ! 1"
  have c: "co_name ?c = ''route''" by (simp add: two_components_def)
  have names: "distinct (map me_name (levin_methods ?c))" by (simp add: levin_methods_def c marked_def)
  have run: "parse_command no_argparse
      [(lit ''list'', [Optional_arg ''method'' Ty_str PNone, Flag ''code'' (Some (PBool False))]),
       (lit ''resolve'', [Required_arg ''path'' Ty_str, Optional_arg ''method'' Ty_str (PStr (lit ''GET'')),
                        Flag ''code'' (Some (PBool False))])]
      [lit ''resolve'', lit ''/a'', lit ''--co''] =
    Parsed [(''path'', PStr (lit ''/a'')), (''method'', PStr (lit ''GET'')), (''code'', PBool True)]"
    by code_simp
  have "\<not> list_ex beyond [lit ''resolve'', lit ''/a'', lit ''--co'']" by (simp add: beyond_def dashed_def)
  moreover have "\<forall>ty s v. ax_convert no_argparse ty s = Some v \<longrightarrow> of_type ty v" by (simp add: no_argparse_def)
  ultimately show ?thesis using arguments_typed [OF route_parser(1) [OF c] names run] by blast
qed

end
