(* ===== verification/Spec2Isabelle.thy ===== *)
theory Spec2Isabelle
  imports Sessions Whole_Pushes Http2_Streams Http2_Upgrade Progress Http2_Pushes Timing Logging Hooks Listening Demo_Runs Profiler_Lines Cli_Types
begin

text \<open>
  A model of \<^verbatim>\<open>levin\<close>, an asynchronous HTTP/1 and HTTP/2 server with a chain of components, and what
  is proved of it.

  \<^bold>\<open>The program.\<close> An application (\<^verbatim>\<open>levin/core/app.py\<close>) is a list of components
  (\<^verbatim>\<open>levin/core/component.py\<close>) with the hooks \<open>init\<close>, \<open>start\<close> and \<open>stop\<close> and, for most of them, a
  middleware. \<open>start\<close> removes the components that are disabled and folds the middlewares of the rest
  into one handler. A server (\<^verbatim>\<open>levin/core/server.py\<close>) makes a connection
  (\<^verbatim>\<open>levin/core/connection.py\<close>) for every client. A connection gives the bytes it receives to one of
  its parsers (\<^verbatim>\<open>levin/core/parsers\<close>), starts the handler on every request that comes out, and
  writes what the parser makes of the responses. Requests carry a scope of values, some of them
  computed when they are first read (\<^verbatim>\<open>levin/core/common.py\<close>); through it the components talk to each
  other. The default application (\<^verbatim>\<open>levin/app.py\<close>) chains request patching, pushes, logging, error
  handling, the time limit, the router, the executors with the profiler in between, the formatters and
  the injection of arguments.

  \<^bold>\<open>Theories.\<close> Each theory models the files it names and is faithful to them line by line; the names
  are those of the source, without leading underscores.
  \<^item> \<open>Prelude\<close>: results (\<open>exn + 'a\<close>), the exceptions, dictionaries as association lists
    (\<open>AList.update\<close>), splitting and joining of lists. \<open>PyText\<close>: text and bytes, their codecs, decimal
    printing, \<open>str.format\<close>. \<open>Regex\<close>: the regular expressions that path patterns produce, matched with
    groups.
  \<^item> \<open>Common\<close>: \<^verbatim>\<open>core/common.py\<close>. The header dictionary, the request with its scope, lazy attributes
    named by a datatype whose functions the components supply (\<open>lazy_call\<close>), pushes and responses.
  \<^item> \<open>HttpSimple\<close>, \<open>HttpTools\<close>, \<open>Hyper\<close>: the three parsers. The packages \<^verbatim>\<open>httptools\<close> and \<^verbatim>\<open>h2\<close> are
    records of operations over any state.
  \<^item> \<open>Connection\<close>: the futures of a connection, their callbacks, and the events of transport and
    handlers as a step relation. The locale \<open>loop_property\<close> states once what the loops of \<open>close\<close> and
    \<open>connection_lost\<close> keep; \<open>parser_protocol\<close> is the contract of a parser. \<open>Draining\<close>: what holds of
    whole runs. \<open>Progress\<close>: the ends of handlers as the only steps, and that all requests with their
    pushes come to an end. \<open>Server\<close>: the parsers behind one protocol, start and stop of servers.
    \<open>Listening\<close>: the TLS context, the loop and the connections of a server.
    \<open>Http2_Served\<close>: one HTTP/2 request through connection and parser; \<open>Http2_Pushes\<close>: requests with
    pushes; \<open>Http2_Streams\<close>: several requests at once; \<open>Http2_Upgrade\<close>: the change of the protocol.
  \<^item> \<open>Component\<close>, \<open>Application\<close>: parameters of components; adding, configuring, starting and stopping.
    Operations of an application are a step relation, with a log of the hooks that were called.
    \<open>Hooks\<close>: hooks that are coroutine functions, awaited or forgotten.
  \<^item> \<open>Router\<close>: path patterns, their regular expressions, routes, resolution, URLs, the middleware and
    the two commands.
  \<^item> \<open>Patch\<close> (\<^verbatim>\<open>components/common.py\<close>), \<open>Formatting\<close> (\<^verbatim>\<open>formating.py\<close>), \<open>Pushes\<close> (\<^verbatim>\<open>h2.py\<close>),
    \<open>Observe\<close> (the middlewares of \<^verbatim>\<open>logger.py\<close> and \<^verbatim>\<open>profiling.py\<close>), \<open>Logging\<close> (the hooks of
    \<^verbatim>\<open>logger.py\<close>), \<open>Limits\<close> and \<open>Timing\<close> (\<^verbatim>\<open>limit.py\<close>, as one function and turn by turn), \<open>Executors\<close>
    (\<^verbatim>\<open>concurrent.py\<close>), \<open>Inject\<close> (\<^verbatim>\<open>inject.py\<close>): the other components. A middleware is a function from
    the rest of the chain to a chain.
  \<^item> \<open>Pools\<close>: the pools of the executors over the life of an application, as functions of its log.
  \<^item> \<open>Pipeline\<close>: the chain of \<^verbatim>\<open>levin/app.py\<close> as one function. \<open>Defaults\<close>: the default components as data,
    the proof that the application makes that chain of them, and the configuration of \<^verbatim>\<open>run.py\<close>.
    \<open>Answers\<close>: the handlers that come with the application, in that chain. \<open>Whole\<close> and
    \<open>Http2_Whole\<close>: the default application behind a connection. \<open>Sessions\<close>: an HTTP/1 connection that is kept
    open. \<open>Whole_Pushes\<close>: a route with a push in the default application behind an HTTP/2 connection.
  \<^item> \<open>Demo\<close>, \<open>Demo_App\<close>, \<open>Demo_Runs\<close>: \<^verbatim>\<open>src/run.py\<close>; its handlers and routes, its application, and
    sequences of requests to it, with the state of the profiler between them.
  \<^item> \<open>Profiler\<close>, \<open>Profiler_Events\<close>, \<open>Profiler_Lines\<close>: \<^verbatim>\<open>utils/profile.py\<close>; the events of the
    interpreter with their frames, the table of records, the report.
  \<^item> \<open>Cli\<close>, \<open>Cli_Types\<close>: \<^verbatim>\<open>components/cli.py\<close>; commands, their options, the part of \<open>argparse\<close> that
    they use, and the commands of the default components.

  \<^bold>\<open>What is shown.\<close>
  \<^item> From bytes to bytes: an HTTP/1 request on a new connection starts one handler on the request that
    was sent, and its response is written as printed, and the same from frames to frames for HTTP/2; in the default application a route is found by
    the path without the query and its value is answered as JSON, an exception by \<open>on_error\<close>, and what
    no route accepts by 404. \<open>http1_json_served\<close> and \<open>http2_json_served\<close> put both together; \<open>pushed_page_served\<close>
    does so for a page and the page it pushes. A kept-open HTTP/1 connection is a function mapped over its requests
    (\<open>http1_session\<close>).
  \<^item> Parsers: what well-formed requests parse to and what responses print to; HTTP/2 bodies are
    assembled per stream; a response is cut at the flow-control window.
  \<^item> Connections: over all events the list of futures is the set of requests without an outcome; on
    every reachable connection the requests with their pushes come to an end, in any order of the ends of
    handlers; \<open>close\<close> terminates and writes nothing; the shared error
    response is never changed; pushes keep the scheme of the server.
  \<^item> HTTP/2 streams: whatever the order in which handlers return, every response arrives on its own stream;
    an upgraded request is answered on stream 1.
  \<^item> Pushes over HTTP/2: at most one push of a request is delivered, and without pushes on the side of
    the client the stream stays open when the request is over.
  \<^item> Time limit: the tasks of the loop refine the function of durations, and no timer is left behind; a component
    configured with a loop that is not the running one has no limit.
  \<^item> Applications: no hook before \<open>init\<close>, exactly the enabled components start, the chain has their
    order, the default chain is that of all default components up to the injection of arguments and the call of the
    handler, and pools are open from \<open>start\<close> to \<open>stop\<close>. Routing: the first accepting route, which paths a pattern accepts, and that URLs resolve.
  \<^item> Profiler: every run of events is a run on a list of targets and a table from lines to times and counts; on
    nested calls of code with sources it never fails inside the traced program; a depth of one or more bounds its
    targets; and the report has every recorded line, and every nonblank line of the body of a target, once.
  \<^item> Command line: whatever the line, the arguments of a command have the annotated types, \<open>cli run\<close> starts the server it is asked for,
    the listing of components can be read back.
  Where the code does not do what it means to, the theorem states what it does:
  \<open>lost_and_close_skip\<close>, \<open>pipelined_responses_swap\<close>, \<open>response_cut_at_window\<close>,
  \<open>simple_body_intact_iff\<close>, \<open>json_with_charset_fails\<close>, \<open>profiled_handler_fails\<close>, \<open>leaf_end_lost\<close>,
  \<open>cli_lists_no_method\<close>, \<open>refused_pushes_leave_stream_open\<close>, \<open>demo_user_alternates\<close> and others.

  \<^bold>\<open>The HTTP/2 library.\<close> What is assumed of \<open>h2\<close> is stated as predicates over any library: \<open>h2_sends\<close>
  (\<open>Hyper\<close>), data on one stream; \<open>h2_multiplexes\<close> (\<open>Http2_Streams\<close>), several streams, each of which takes valid
  headers once and then data, within the window of the connection; \<open>h2_promises\<close> (\<open>Whole_Pushes\<close>), promises on
  streams of the client and the window of the promised stream; \<open>h2_ends\<close> (\<open>Http2_Pushes\<close>), ended streams stay ended
  and take no promise. Each has an instance that refuses what the protocol forbids.

  \<^bold>\<open>Fuel and bounds.\<close> \<open>close_loop\<close> has as fuel one more than the length of the list of futures: every
  turn removes one, and \<open>close_terminates\<close> shows that the loop without fuel ends in the same state.
  \<open>send_loop\<close> has one turn more than the body has bytes, and \<open>send_loop_enough\<close> shows that more fuel
  changes nothing. \<open>limit_loop\<close> needs no fuel: every turn brings the end of the task nearer (\<open>to_go\<close>).
  \<open>patch_call\<close> has a depth
  as the interpreter's recursion limit: no lazy attribute reads itself. Integers of the program are
  Python's, so they are \<open>int\<close> and \<open>nat\<close>.

  \<^bold>\<open>Not modelled.\<close> The event loop, sockets and TLS itself: their effects are arguments and events. \<open>h2\<close>,
  \<open>httptools\<close>, \<open>json.loads\<close>, \<open>parse_qs\<close>, codecs other than UTF-8 and Latin-1, the walk of a
  directory, \<open>inspect.getsource\<close> and \<open>tracemalloc\<close>: arguments of the definitions that use them. Help
  texts, and of \<open>argparse\<close> the separator \<open>--\<close>, joined short options and other conversions. Threads, processes and
  pickling, and what \<open>logging\<close> does with a configuration. \<^verbatim>\<open>core/typing.py\<close> beyond the record of parser
  operations: type hints. \<^verbatim>\<open>run_should.py\<close>, a sketch with undefined names that cannot run,
  \<^verbatim>\<open>concurent.py\<close>, which measures the standard library, and the tests.
\<close>

end
